(* ===== verification/Prelude.thy ===== *)
theory Prelude
  imports Main "HOL-Library.Word"
begin

section \<open>Shared vocabulary of the development\<close>

text \<open>
  The types, hint collections and generic lemmas the component theories share.
  A Rust \<open>u8\<close>, \<open>u32\<close>, \<open>u64\<close> is a word of its width: \<open>+\<close> wraps, and where the code
  calls \<open>checked_add\<close> or \<open>saturating_add\<close> the model uses the functions defined here.
  A byte slice or a \<open>Bytes\<close> value is a list of bytes.
\<close>

type_synonym u8 = "8 word"
type_synonym u32 = "32 word"
type_synonym u64 = "64 word"
type_synonym bytes = "u8 list"

named_theorems word_nat "moving word expressions to natural numbers"
named_theorems step_defs "definitions unfolded to run one step of a component"

subsection \<open>Checked and saturating arithmetic\<close>

definition u64_max :: nat where
  "u64_max = 2 ^ 64 - 1"

definition checked_add :: "'a::len word \<Rightarrow> 'a word \<Rightarrow> 'a word option" where
  "checked_add x y = (if unat x + unat y < 2 ^ LENGTH('a) then Some (x + y) else None)"

definition saturating_add :: "'a::len word \<Rightarrow> 'a word \<Rightarrow> 'a word" where
  "saturating_add x y = (case checked_add x y of Some z \<Rightarrow> z | None \<Rightarrow> - 1)"

definition saturating_sub :: "'a::len word \<Rightarrow> 'a word \<Rightarrow> 'a word" where
  "saturating_sub x y = (if x \<le> y then 0 else x - y)"

lemma unat_add_small [word_nat]:
  "unat x + unat y < 2 ^ LENGTH('a) \<Longrightarrow> unat (x + y) = unat x + unat y" for x y :: "'a::len word"
  by (simp add: unat_word_ariths)

lemma unat_mult_small [word_nat]:
  "unat x * unat y < 2 ^ LENGTH('a) \<Longrightarrow> unat (x * y) = unat x * unat y" for x y :: "'a::len word"
  by (simp add: unat_word_ariths)

lemma unat_sub_small [word_nat]: "y \<le> x \<Longrightarrow> unat (x - y) = unat x - unat y" for x y :: "'a::len word"
  by (rule unat_sub)

lemma checked_add_Some_iff:
  "checked_add x y = Some z \<longleftrightarrow> unat z = unat x + unat y" for x y z :: "'a::len word"
proof
  assume "checked_add x y = Some z"
  then show "unat z = unat x + unat y"
    by (auto simp: checked_add_def unat_add_small split: if_splits)
next
  assume z: "unat z = unat x + unat y"
  have lt: "unat x + unat y < 2 ^ LENGTH('a)"
    unfolding z [symmetric] by (rule unsigned_less)
  have "x + y = z"
    using lt by (intro word_unat_eq_iff [THEN iffD2]) (simp add: unat_add_small z)
  then show "checked_add x y = Some z"
    using lt by (simp add: checked_add_def)
qed

lemma checked_add_None_iff:
  "checked_add x y = None \<longleftrightarrow> 2 ^ LENGTH('a) \<le> unat x + unat y" for x y :: "'a::len word"
  by (simp add: checked_add_def)

lemma unat_saturating_sub [word_nat]: "unat (saturating_sub x y) = unat x - unat y"
  by (auto simp: saturating_sub_def word_le_nat_alt unat_sub)

lemma unat_saturating_add [word_nat]:
  "unat (saturating_add x y) = min (unat x + unat y) (2 ^ LENGTH('a) - 1)" for x y :: "'a::len word"
proof (cases "unat x + unat y < 2 ^ LENGTH('a)")
  case True
  then show ?thesis
    by (simp add: saturating_add_def checked_add_def unat_add_small)
next
  case False
  then show ?thesis
    by (simp add: saturating_add_def checked_add_def unsigned_minus_1_eq_mask mask_eq_exp_minus_1)
qed

lemma unat_min [word_nat]: "unat (min x y) = min (unat x) (unat y)"
  by (simp add: min_def word_le_nat_alt)

lemma unat_max [word_nat]: "unat (max x y) = max (unat x) (unat y)"
  by (simp add: max_def word_le_nat_alt)

lemma unat_ucast_wider [word_nat]:
  "LENGTH('a) \<le> LENGTH('b) \<Longrightarrow> unat (ucast (x :: 'a::len word) :: 'b::len word) = unat x"
  by (simp add: unsigned_ucast_eq take_bit_nat_eq_self order_less_le_trans [OF unsigned_less])

lemma unat_byte_less: "unat (x :: u8) < 256"
  using unsigned_less [of x] by simp

subsection \<open>Lists\<close>

lemma take_drop_append_window:
  "i + n \<le> length xs \<Longrightarrow> take n (drop i (xs @ ys)) = take n (drop i xs)"
  by simp

lemma window_Cons:
  "i + n < length xs \<Longrightarrow> 0 < n \<Longrightarrow>
    take n (drop i xs) = xs ! i # take (n - 1) (drop (Suc i) xs)"
  by (cases n) (simp_all add: Cons_nth_drop_Suc [symmetric] del: Cons_nth_drop_Suc)

lemma window_snoc:
  "i + n < length xs \<Longrightarrow> 0 < n \<Longrightarrow>
    take n (drop (Suc i) xs) = take (n - 1) (drop (Suc i) xs) @ [xs ! (i + n)]"
  by (cases n) (simp_all add: take_Suc_conv_app_nth)

text \<open>Splitting a slice into blocks, the last one possibly shorter (\<open>[T]::chunks\<close>).\<close>

function chunks :: "nat \<Rightarrow> 'a list \<Rightarrow> 'a list list" where
  "chunks n xs = (if n = 0 \<or> xs = [] then [] else take n xs # chunks n (drop n xs))"
  by pat_completeness auto
termination
  by (relation "measure (\<lambda>(n, xs). length xs)") auto

declare chunks.simps [simp del]

lemma chunks_Nil [simp]: "chunks n [] = []"
  by (simp add: chunks.simps)

lemma chunks_step: "0 < n \<Longrightarrow> xs \<noteq> [] \<Longrightarrow> chunks n xs = take n xs # chunks n (drop n xs)"
  by (simp add: chunks.simps [of n xs])

lemma concat_chunks: "0 < n \<Longrightarrow> concat (chunks n xs) = xs"
proof (induction n xs rule: chunks.induct)
  case (1 n xs)
  then show ?case
    by (cases "xs = []") (simp_all add: chunks_step)
qed

lemma chunks_lengths: "0 < n \<Longrightarrow> b \<in> set (chunks n xs) \<Longrightarrow> 0 < length b \<and> length b \<le> n"
proof (induction n xs rule: chunks.induct)
  case (1 n xs)
  then show ?case
    by (cases "xs = []") (auto simp: chunks_step)
qed

lemma chunks_nth:
  "0 < n \<Longrightarrow> i < length (chunks n xs) \<Longrightarrow> chunks n xs ! i = take n (drop (i * n) xs)"
proof (induction n xs arbitrary: i rule: chunks.induct)
  case (1 n xs)
  then show ?case
    by (cases "xs = []"; cases i) (auto simp: chunks_step add.commute)
qed

lemma chunks_length: "0 < n \<Longrightarrow> length xs \<le> length (chunks n xs) * n"
proof (induction n xs rule: chunks.induct)
  case (1 n xs)
  then show ?case
    by (cases "xs = []") (auto simp: chunks_step)
qed

lemma chunks_nth_less: "0 < n \<Longrightarrow> i < length (chunks n xs) \<Longrightarrow> i * n < length xs"
proof (induction n xs arbitrary: i rule: chunks.induct)
  case (1 n xs)
  show ?case
  proof (cases "xs = []")
    case True
    with "1.prems" show ?thesis by simp
  next
    case False
    show ?thesis
    proof (cases i)
      case 0
      with False show ?thesis by simp
    next
      case (Suc j)
      with "1.prems" False have "j < length (chunks n (drop n xs))"
        by (simp add: chunks_step)
      with "1.IH" "1.prems" False have "j * n < length xs - n" by simp
      with Suc show ?thesis by simp
    qed
  qed
qed

lemma concat_split_at: "concat (take n xss) @ concat (drop n xss) = concat xss"
  by (metis append_take_drop_id concat_append)

subsection \<open>Decimal numerals (\<open>Display\<close> of an unsigned integer)\<close>

fun show_nat :: "nat \<Rightarrow> string" where
  "show_nat n = (if n < 10 then [''0123456789'' ! n] else show_nat (n div 10) @ [''0123456789'' ! (n mod 10)])"

declare show_nat.simps [simp del]

end
