(* ===== verification/Rolling.thy ===== *)
theory Rolling
  imports Prelude
begin

unbundle bit_operations_syntax

section \<open>Rolling checksum (crates/sync-delta/src/rolling.rs)\<close>

text \<open>
  The Adler-32 variant the delta matcher slides over the source file. The two sums are
  kept in \<open>u32\<close> words exactly as in the code, batched in runs of 5552 bytes before the
  reduction modulo 65521, and \<open>update\<close> computes in \<open>u64\<close> words. The lemmas show that no
  addition wraps, that the batched sums equal the mathematical ones, and that one
  \<open>update\<close> is the same as re-initialising on the shifted window.
\<close>

subsection \<open>The code\<close>

record rolling_checksum =
  rc_a :: u32
  rc_b :: u32

definition MODULUS :: u32 where
  "MODULUS = 65521"

definition rc_new :: rolling_checksum where
  "rc_new = \<lparr>rc_a = 0, rc_b = 0\<rparr>"

fun sum_chunk :: "u32 \<Rightarrow> u32 \<Rightarrow> bytes \<Rightarrow> u32 \<times> u32" where
  "sum_chunk a b [] = (a, b)"
| "sum_chunk a b (byte # rest) =
     (let a' = a + ucast byte; b' = b + a' in sum_chunk a' b' rest)"

function sums_loop :: "u32 \<Rightarrow> u32 \<Rightarrow> bytes \<Rightarrow> u32 \<times> u32" where
  "sums_loop a b data =
     (if data = [] then (a, b)
      else let (a', b') = sum_chunk a b (take 5552 data)
           in sums_loop (a' mod MODULUS) (b' mod MODULUS) (drop 5552 data))"
  by pat_completeness auto
termination
  by (relation "measure (\<lambda>(a, b, data). length data)") auto

declare sums_loop.simps [simp del]

definition sums :: "bytes \<Rightarrow> u32 \<times> u32" where
  "sums data = sums_loop 0 0 data"

definition checksum :: "bytes \<Rightarrow> u32" where
  "checksum data = (let (a, b) = sums data in push_bit 16 b OR a)"

definition rc_init :: "bytes \<Rightarrow> rolling_checksum" where
  "rc_init data = (let (a, b) = sums data in \<lparr>rc_a = a, rc_b = b\<rparr>)"

definition rc_update :: "rolling_checksum \<Rightarrow> u8 \<Rightarrow> u8 \<Rightarrow> u32 \<Rightarrow> rolling_checksum" where
  "rc_update rc old_byte new_byte window_size =
     (let old = (ucast old_byte :: u64); new = (ucast new_byte :: u64);
          m = (ucast MODULUS :: u64); n = (ucast window_size :: u64);
          a = (ucast (rc_a rc) :: u64); b = (ucast (rc_b rc) :: u64);
          a_new = (a + m + new - old) mod m;
          n_old = ((n mod m) * (old mod m)) mod m;
          b_new = (b + m + a_new - n_old) mod m
      in \<lparr>rc_a = ucast a_new, rc_b = ucast b_new\<rparr>)"

definition digest :: "rolling_checksum \<Rightarrow> u32" where
  "digest rc = push_bit 16 (rc_b rc) OR rc_a rc"

subsection \<open>The sums as natural numbers\<close>

text \<open>
  \<open>wsum\<close> is the weighted sum of the doc comment of \<open>update\<close>:
  \<open>b(s) = \<Sum> (n - i) * data[s + i]\<close>.
\<close>

fun wsum :: "bytes \<Rightarrow> nat" where
  "wsum [] = 0"
| "wsum (x # xs) = Suc (length xs) * unat x + wsum xs"

definition asum :: "bytes \<Rightarrow> nat" where
  "asum xs = sum_list (map unat xs)"

lemma asum_simps [simp]:
  "asum [] = 0" "asum (x # xs) = unat x + asum xs" "asum (xs @ ys) = asum xs + asum ys"
  by (simp_all add: asum_def)

lemma wsum_append: "wsum (xs @ ys) = wsum xs + length ys * asum xs + wsum ys"
  by (induction xs) (simp_all add: algebra_simps)

lemma asum_le: "asum xs \<le> 255 * length xs"
proof (induction xs)
  case (Cons x xs)
  then show ?case using unat_byte_less [of x] by simp
qed simp

lemma wsum_le: "2 * wsum xs \<le> 255 * (length xs * Suc (length xs))"
proof (induction xs)
  case (Cons x xs)
  have "Suc (length xs) * unat x \<le> Suc (length xs) * 255"
    using unat_byte_less [of x] by (intro mult_le_mono2) simp
  then show ?case using Cons by (simp add: algebra_simps)
qed simp

text \<open>
  One batch of at most 5552 bytes, started from reduced sums: the word additions give the
  unbounded sums, so neither \<open>a += byte\<close> nor \<open>b += a\<close> overflows.
\<close>

definition batch_b :: "nat \<Rightarrow> nat \<Rightarrow> bytes \<Rightarrow> nat" where
  "batch_b a b xs = b + length xs * a + wsum xs"

lemma batch_bound:
  assumes "length xs \<le> 5552" "a < 65521" "b < 65521"
  shows "a + asum xs < 2 ^ 32" "batch_b a b xs < 2 ^ 32"
proof -
  have "length xs * a \<le> 5552 * 65520"
    using assms by (intro mult_le_mono) auto
  moreover have "length xs * Suc (length xs) \<le> 5552 * 5553"
    using assms(1) by (intro mult_le_mono) auto
  ultimately show "batch_b a b xs < 2 ^ 32"
    using wsum_le [of xs] assms by (simp add: batch_b_def)
  show "a + asum xs < 2 ^ 32"
    using asum_le [of xs] assms by simp
qed

lemma sum_chunk_unat:
  "unat a + asum xs < 2 ^ 32 \<Longrightarrow> batch_b (unat a) (unat b) xs < 2 ^ 32 \<Longrightarrow>
    unat (fst (sum_chunk a b xs)) = unat a + asum xs \<and>
    unat (snd (sum_chunk a b xs)) = batch_b (unat a) (unat b) xs"
proof (induction a b xs rule: sum_chunk.induct)
  case (1 a b)
  then show ?case by (simp add: batch_b_def)
next
  case (2 a b x xs)
  have a: "unat (a + ucast x) = unat a + unat x"
    using "2.prems"(1) by (subst unat_add_small) (simp_all add: unat_ucast_wider)
  have "unat b + unat (a + ucast x) \<le> batch_b (unat a) (unat b) (x # xs)"
    by (simp add: a batch_b_def algebra_simps)
  then have b: "unat (b + (a + ucast x)) = unat b + unat a + unat x"
    using "2.prems"(2) by (subst unat_add_small) (simp_all add: a)
  have eq: "batch_b (unat a + unat x) (unat b + (unat a + unat x)) xs
      = batch_b (unat a) (unat b) (x # xs)"
    by (simp add: batch_b_def algebra_simps)
  show ?case
    using "2.IH" [OF refl refl] "2.prems" by (simp add: Let_def a b eq add.assoc)
qed

lemma unat_mod_MODULUS [word_nat]: "unat (x mod MODULUS) = unat x mod 65521"
  by (simp add: MODULUS_def unat_mod)

lemma sums_loop_unat:
  "unat a < 65521 \<Longrightarrow> unat b < 65521 \<Longrightarrow>
    unat (fst (sums_loop a b data)) = (unat a + asum data) mod 65521 \<and>
    unat (snd (sums_loop a b data)) = batch_b (unat a) (unat b) data mod 65521"
proof (induction a b data rule: sums_loop.induct)
  case (1 a b data)
  show ?case
  proof (cases "data = []")
    case True
    with "1.prems" show ?thesis by (simp add: sums_loop.simps batch_b_def)
  next
    case False
    let ?c = "take 5552 data" and ?r = "drop 5552 data"
    obtain a' b' where sc: "sum_chunk a b ?c = (a', b')" by (cases "sum_chunk a b ?c")
    have "unat a' = unat a + asum ?c \<and> unat b' = batch_b (unat a) (unat b) ?c"
      using sum_chunk_unat [of a ?c b] batch_bound [of ?c "unat a" "unat b"] "1.prems" sc by simp
    then have a': "unat (a' mod MODULUS) = (unat a + asum ?c) mod 65521"
      and b': "unat (b' mod MODULUS) = batch_b (unat a) (unat b) ?c mod 65521"
      by (simp_all add: unat_mod_MODULUS)
    have split: "asum data = asum ?c + asum ?r" "length data = length ?c + length ?r"
      "wsum data = wsum ?c + length ?r * asum ?c + wsum ?r"
      using asum_simps(3) [of ?c ?r] wsum_append [of ?c ?r] length_append [of ?c ?r]
      by simp_all
    have A: "(unat (a' mod MODULUS) + asum ?r) mod 65521 = (unat a + asum data) mod 65521"
      unfolding a' split by (simp add: mod_simps add.assoc)
    have "batch_b (unat (a' mod MODULUS)) (unat (b' mod MODULUS)) ?r mod 65521
        = batch_b (unat a + asum ?c) (batch_b (unat a) (unat b) ?c) ?r mod 65521"
      unfolding a' b' batch_b_def by (intro mod_add_cong mod_mult_cong) simp_all
    also have "batch_b (unat a + asum ?c) (batch_b (unat a) (unat b) ?c) ?r
        = batch_b (unat a) (unat b) data"
      unfolding batch_b_def split by (simp add: algebra_simps)
    finally have B: "batch_b (unat (a' mod MODULUS)) (unat (b' mod MODULUS)) ?r mod 65521
        = batch_b (unat a) (unat b) data mod 65521" .
    have step: "sums_loop a b data = sums_loop (a' mod MODULUS) (b' mod MODULUS) ?r"
      using False sc by (simp add: sums_loop.simps [of a b data])
    show ?thesis
      unfolding step A [symmetric] B [symmetric]
      by (rule "1.IH" [OF False sc [symmetric] refl])
        (simp_all add: unat_mod_MODULUS)
  qed
qed

lemma sums_unat:
  "unat (fst (sums data)) = asum data mod 65521"
  "unat (snd (sums data)) = wsum data mod 65521"
  using sums_loop_unat [of 0 0 data] by (simp_all add: sums_def batch_b_def)

lemma rc_init_unat:
  "unat (rc_a (rc_init data)) = asum data mod 65521"
  "unat (rc_b (rc_init data)) = wsum data mod 65521"
  using sums_unat [of data] by (cases "sums data"; simp add: rc_init_def)+

lemma rolling_eqI:
  "unat (rc_a r) = unat (rc_a s) \<Longrightarrow> unat (rc_b r) = unat (rc_b s) \<Longrightarrow> r = (s :: rolling_checksum)"
  by (auto simp: word_unat_eq_iff intro: rolling_checksum.equality)

lemma digest_init: "digest (rc_init data) = checksum data"
  by (simp add: digest_def rc_init_def checksum_def split: prod.splits)

subsection \<open>Sliding the window\<close>

lemma shift_mod:
  fixes p q x y M :: nat
  assumes "p = (x + q) mod M" "x < M" "y < M" "0 < M"
  shows "(p + M + y - x) mod M = (q + y) mod M"
proof -
  have "(p + M + y - x) mod M = (p + (M - x) + y) mod M"
    using assms(2) by (simp add: algebra_simps)
  also have "\<dots> = (x + q + (M - x) + y) mod M"
    unfolding assms(1) by (intro mod_add_cong mod_mod_trivial refl)
  also have "x + q + (M - x) + y = M + (q + y)"
    using assms(2) by simp
  finally show ?thesis by simp
qed

lemma rc_update_unat:
  fixes x y :: u8 and n :: u32
  assumes "unat (rc_a rc) < 65521" "unat (rc_b rc) < 65521"
  defines "a \<equiv> (unat (rc_a rc) + 65521 + unat y - unat x) mod 65521"
  shows "unat (rc_a (rc_update rc x y n)) = a"
    "unat (rc_b (rc_update rc x y n)) =
      (unat (rc_b rc) + 65521 + a - (unat n mod 65521 * unat x) mod 65521) mod 65521"
proof -
  let ?m = "ucast MODULUS :: u64" and ?a = "ucast (rc_a rc) :: u64" and ?b = "ucast (rc_b rc) :: u64"
    and ?x = "ucast x :: u64" and ?y = "ucast y :: u64" and ?n = "ucast n :: u64"
  have m: "unat ?m = 65521"
    by (simp add: unat_ucast_wider) (simp add: MODULUS_def)
  have u: "unat ?a = unat (rc_a rc)" "unat ?b = unat (rc_b rc)" "unat ?x = unat x"
    "unat ?y = unat y" "unat ?n = unat n"
    by (simp_all add: unat_ucast_wider)
  note bx = unat_byte_less [of x] and by' = unat_byte_less [of y]
  have s1: "unat (?a + ?m) = unat (rc_a rc) + 65521"
    using assms(1) by (subst unat_add_small) (simp_all add: u m)
  have s2: "unat (?a + ?m + ?y) = unat (rc_a rc) + 65521 + unat y"
    using assms(1) by' by (subst unat_add_small) (simp_all add: s1 u)
  have s3: "unat (?a + ?m + ?y - ?x) = unat (rc_a rc) + 65521 + unat y - unat x"
    using bx by (subst unat_sub_small) (simp_all add: word_le_nat_alt s2 u)
  let ?an = "(?a + ?m + ?y - ?x) mod ?m"
  have an: "unat ?an = a"
    by (simp only: unat_mod s3 m a_def)
  have alt: "a < 65521" by (simp add: a_def)
  have xm: "unat (?x mod ?m) = unat x"
    using bx by (simp only: unat_mod u m) simp
  have nm: "unat (?n mod ?m) = unat n mod 65521"
    by (simp only: unat_mod u m)
  have "unat n mod 65521 * unat x < 65521 * 256"
    using bx by (intro mult_strict_mono) simp_all
  then have "unat (?n mod ?m) * unat (?x mod ?m) < 2 ^ LENGTH(64)"
    unfolding xm nm by simp
  from unat_mult_small [OF this]
  have "unat ((?n mod ?m) * (?x mod ?m)) = unat n mod 65521 * unat x"
    unfolding xm nm .
  then have no: "unat ((?n mod ?m) * (?x mod ?m) mod ?m) = (unat n mod 65521 * unat x) mod 65521"
    by (simp only: unat_mod m)
  let ?no = "(?n mod ?m) * (?x mod ?m) mod ?m"
  have t1: "unat (?b + ?m) = unat (rc_b rc) + 65521"
    using assms(2) by (subst unat_add_small) (simp_all add: u m)
  have t2: "unat (?b + ?m + ?an) = unat (rc_b rc) + 65521 + a"
    using assms(2) alt by (subst unat_add_small) (simp_all add: t1 an)
  have nolt: "(unat n mod 65521 * unat x) mod 65521 < 65521" by simp
  have le: "?no \<le> ?b + ?m + ?an"
    unfolding word_le_nat_alt t2 no using nolt by linarith
  have t3: "unat (?b + ?m + ?an - ?no) = unat (rc_b rc) + 65521 + a - (unat n mod 65521 * unat x) mod 65521"
    unfolding unat_sub_small [OF le] t2 no ..
  have narrow: "unat (ucast (w mod ?m) :: u32) = unat w mod 65521" for w :: u64
  proof -
    have "unat (w mod ?m) = unat w mod 65521" by (simp only: unat_mod m)
    moreover have "unat w mod 65521 < 2 ^ 32"
      using mod_less_divisor [of 65521 "unat w"] by simp
    ultimately show ?thesis
      by (simp add: unsigned_ucast_eq take_bit_nat_eq_self)
  qed
  show "unat (rc_a (rc_update rc x y n)) = a"
    by (simp only: rc_update_def Let_def rolling_checksum.simps narrow s3 a_def)
  show "unat (rc_b (rc_update rc x y n)) =
      (unat (rc_b rc) + 65521 + a - (unat n mod 65521 * unat x) mod 65521) mod 65521"
    by (simp only: rc_update_def Let_def rolling_checksum.simps narrow t3)
qed

text \<open>The O(1) update agrees with a full initialisation of the shifted window.\<close>

lemma rc_update_slides:
  assumes "unat n = Suc (length w)"
  shows "rc_update (rc_init (x # w)) x y n = rc_init (w @ [y])"
proof (rule rolling_eqI)
  let ?r = "rc_init (x # w)" and ?M = "65521 :: nat"
  have lt: "unat (rc_a ?r) < ?M" "unat (rc_b ?r) < ?M"
    by (simp_all add: rc_init_unat)
  have xy: "unat x < ?M" "unat y < ?M"
    using unat_byte_less [of x] unat_byte_less [of y] by simp_all
  have a: "(unat (rc_a ?r) + ?M + unat y - unat x) mod ?M = asum (w @ [y]) mod ?M"
    by (rule trans [OF shift_mod [where q = "asum w"]]) (simp_all add: rc_init_unat xy)
  then show "unat (rc_a (rc_update ?r x y n)) = unat (rc_a (rc_init (w @ [y])))"
    by (simp only: rc_update_unat(1) [OF lt] rc_init_unat)
  let ?no = "(unat n mod ?M * unat x) mod ?M"
  have no: "?no = (Suc (length w) * unat x) mod ?M"
    unfolding assms by (rule mod_mult_left_eq)
  have b: "unat (rc_b ?r) = (?no + wsum w) mod ?M"
    unfolding no rc_init_unat by (simp add: mod_simps)
  have "(unat (rc_b ?r) + ?M + asum (w @ [y]) mod ?M - ?no) mod ?M
      = (wsum w + asum (w @ [y]) mod ?M) mod ?M"
    by (rule shift_mod [OF b]) simp_all
  also have "\<dots> = wsum (w @ [y]) mod ?M"
    by (simp add: wsum_append mod_simps algebra_simps)
  finally have slid: "(unat (rc_b ?r) + ?M + asum (w @ [y]) mod ?M - ?no) mod ?M
      = wsum (w @ [y]) mod ?M" .
  show "unat (rc_b (rc_update ?r x y n)) = unat (rc_b (rc_init (w @ [y])))"
    unfolding rc_update_unat(2) [OF lt] a slid rc_init_unat(2) [of "w @ [y]"] ..
qed

end
