(* ===== verification/Streaming.thy ===== *)
theory Streaming
  imports Prelude
begin

section \<open>Incremental consumers\<close>

text \<open>
  The signature calculator and the delta matcher are fed a file chunk by chunk and must
  give what one call on the whole file gives, wherever the chunk borders fall. The
  interface is a \<open>push\<close> that may fail (\<open>None\<close>: the code would panic or never return), a
  \<open>finish\<close>, an invariant of the states between two pushes and the part of the state
  (\<open>view\<close>) on which later outputs depend.
\<close>

fun feed :: "('s \<Rightarrow> 'a list \<Rightarrow> ('s \<times> 'o list) option) \<Rightarrow> 's \<Rightarrow> 'a list list \<Rightarrow> ('s \<times> 'o list) option" where
  "feed push s [] = Some (s, [])"
| "feed push s (c # cs) =
     (case push s c of
        None \<Rightarrow> None
      | Some (s', out) \<Rightarrow>
          (case feed push s' cs of None \<Rightarrow> None | Some (s'', out') \<Rightarrow> Some (s'', out @ out')))"

definition stream_result ::
  "('s \<Rightarrow> 'a list \<Rightarrow> ('s \<times> 'o list) option) \<Rightarrow> ('s \<Rightarrow> 'o list) \<Rightarrow> 's \<Rightarrow> 'a list list \<Rightarrow> 'o list option" where
  "stream_result push finish s cs =
     (case feed push s cs of None \<Rightarrow> None | Some (s', out) \<Rightarrow> Some (out @ finish s'))"

locale chunked_consumer =
  fixes inv :: "'s \<Rightarrow> bool"
    and view :: "'s \<Rightarrow> 'v"
    and push :: "'s \<Rightarrow> 'a list \<Rightarrow> ('s \<times> 'o list) option"
    and vpush :: "'v \<Rightarrow> 'a list \<Rightarrow> 'v \<times> 'o list"
    and finish :: "'s \<Rightarrow> 'o list"
  assumes push_total: "inv s \<Longrightarrow> \<exists>s' out. push s xs = Some (s', out)"
    and push_inv: "inv s \<Longrightarrow> push s xs = Some (s', out) \<Longrightarrow> inv s'"
    and push_view: "inv s \<Longrightarrow> push s xs = Some (s', out) \<Longrightarrow> vpush (view s) xs = (view s', out)"
    and vpush_Nil: "inv s \<Longrightarrow> vpush (view s) [] = (view s, [])"
    and vpush_append: "inv s \<Longrightarrow> vpush (view s) (xs @ ys) =
      (let (v1, out1) = vpush (view s) xs; (v2, out2) = vpush v1 ys in (v2, out1 @ out2))"
    and finish_view: "inv s \<Longrightarrow> inv t \<Longrightarrow> view s = view t \<Longrightarrow> finish s = finish t"
begin

lemma feed_view:
  "inv s \<Longrightarrow> \<exists>s' out. feed push s cs = Some (s', out) \<and> inv s' \<and> vpush (view s) (concat cs) = (view s', out)"
proof (induction cs arbitrary: s)
  case Nil
  then show ?case by (simp add: vpush_Nil)
next
  case (Cons c cs)
  obtain s1 out1 where p: "push s c = Some (s1, out1)"
    using push_total [OF Cons.prems] by blast
  then have inv1: "inv s1" and v1: "vpush (view s) c = (view s1, out1)"
    using push_inv push_view Cons.prems by blast+
  from Cons.IH [OF inv1] obtain s2 out2 where
    "feed push s1 cs = Some (s2, out2)" "inv s2" "vpush (view s1) (concat cs) = (view s2, out2)"
    by blast
  then show ?case
    using p v1 Cons.prems by (simp add: vpush_append)
qed

text \<open>Any two ways of cutting the same input give the same output.\<close>

lemma chunking_irrelevant:
  assumes "inv s" "concat cs = concat ds"
  shows "stream_result push finish s cs = stream_result push finish s ds"
proof -
  obtain s1 o1 where 1: "feed push s cs = Some (s1, o1)" "inv s1"
    "vpush (view s) (concat cs) = (view s1, o1)"
    using feed_view [OF assms(1)] by blast
  obtain s2 o2 where 2: "feed push s ds = Some (s2, o2)" "inv s2"
    "vpush (view s) (concat ds) = (view s2, o2)"
    using feed_view [OF assms(1)] by blast
  have "view s1 = view s2" "o1 = o2"
    using 1(3) 2(3) assms(2) by simp_all
  moreover from this have "finish s1 = finish s2"
    using finish_view 1(2) 2(2) by blast
  ultimately show ?thesis
    using 1(1) 2(1) by (simp add: stream_result_def)
qed

lemma stream_total: "inv s \<Longrightarrow> \<exists>out. stream_result push finish s cs = Some out"
  using feed_view [of s cs] by (auto simp: stream_result_def)

end

end
