(* ===== verification/Signature.thy ===== *)
theory Signature
  imports Rolling Streaming
begin

section \<open>Block signatures (crates/sync-delta/src/signature.rs and lib.rs)\<close>

text \<open>
  The signature calculator of the delta transfer. BLAKE3 is not part of the repository:
  it is the parameter \<open>blake3\<close>, a function from bytes to its 32-byte digest. The staging
  loop of \<open>push\<close> subtracts the buffer length from the block size; where the buffer would
  already be full the code underflows or loops without progress, and the model returns
  \<open>None\<close>. The invariant shows this is never reached from \<open>sc_new\<close>.
\<close>

subsection \<open>The code\<close>

definition STRONG_HASH_LEN :: nat where
  "STRONG_HASH_LEN = 16"

definition blake3_truncated :: "(bytes \<Rightarrow> bytes) \<Rightarrow> bytes \<Rightarrow> bytes" where
  "blake3_truncated blake3 data = take STRONG_HASH_LEN (blake3 data)"

datatype delta_token = Match u32 | Data bytes

record block_signature =
  bs_rolling :: u32
  bs_strong :: bytes

record signature_calculator =
  sc_block_size :: nat
  sc_buffer :: bytes
  sc_signatures :: "block_signature list"

definition sc_new :: "u32 \<Rightarrow> signature_calculator" where
  "sc_new block_size = \<lparr>sc_block_size = unat block_size, sc_buffer = [], sc_signatures = []\<rparr>"

definition sc_flush_block :: "(bytes \<Rightarrow> bytes) \<Rightarrow> signature_calculator \<Rightarrow> signature_calculator" where
  "sc_flush_block blake3 sc =
     (let rolling = checksum (sc_buffer sc); strong = blake3_truncated blake3 (sc_buffer sc)
      in sc\<lparr>sc_signatures := sc_signatures sc @ [\<lparr>bs_rolling = rolling, bs_strong = strong\<rparr>],
            sc_buffer := []\<rparr>)"

function sc_push_loop ::
  "(bytes \<Rightarrow> bytes) \<Rightarrow> signature_calculator \<Rightarrow> bytes \<Rightarrow> signature_calculator option" where
  "sc_push_loop blake3 sc bytes =
     (if bytes = [] then Some sc
      else if sc_block_size sc \<le> length (sc_buffer sc) then None
      else let need = sc_block_size sc - length (sc_buffer sc);
               tk = min need (length bytes);
               sc1 = sc\<lparr>sc_buffer := sc_buffer sc @ take tk bytes\<rparr>;
               sc2 = (if length (sc_buffer sc1) = sc_block_size sc1
                      then sc_flush_block blake3 sc1 else sc1)
           in sc_push_loop blake3 sc2 (drop tk bytes))"
  by pat_completeness auto
termination
  by (relation "measure (\<lambda>(h, sc, bytes). length bytes)") auto

declare sc_push_loop.simps [simp del]

definition sc_push :: "(bytes \<Rightarrow> bytes) \<Rightarrow> signature_calculator \<Rightarrow> bytes \<Rightarrow> signature_calculator option" where
  "sc_push blake3 sc bytes = (if sc_block_size sc = 0 then Some sc else sc_push_loop blake3 sc bytes)"

definition sc_finish :: "(bytes \<Rightarrow> bytes) \<Rightarrow> signature_calculator \<Rightarrow> signature_calculator \<times> block_signature list" where
  "sc_finish blake3 sc =
     (let sc1 = (if sc_buffer sc \<noteq> [] then sc_flush_block blake3 sc else sc)
      in (sc1\<lparr>sc_signatures := []\<rparr>, sc_signatures sc1))"

definition compute_block_signatures :: "(bytes \<Rightarrow> bytes) \<Rightarrow> bytes \<Rightarrow> u32 \<Rightarrow> block_signature list option" where
  "compute_block_signatures blake3 data block_size =
     map_option (\<lambda>calc. snd (sc_finish blake3 calc)) (sc_push blake3 (sc_new block_size) data)"

subsection \<open>The staging buffer never fills\<close>

definition block_sig :: "(bytes \<Rightarrow> bytes) \<Rightarrow> bytes \<Rightarrow> block_signature" where
  "block_sig blake3 b = \<lparr>bs_rolling = checksum b, bs_strong = blake3_truncated blake3 b\<rparr>"

definition sc_inv :: "signature_calculator \<Rightarrow> bool" where
  "sc_inv sc \<longleftrightarrow> (if sc_block_size sc = 0 then sc_buffer sc = [] else length (sc_buffer sc) < sc_block_size sc)"

lemma sc_inv_new: "sc_inv (sc_new n)"
  by (simp add: sc_inv_def sc_new_def)

lemma sc_flush_simps [simp]:
  "sc_buffer (sc_flush_block h sc) = []"
  "sc_block_size (sc_flush_block h sc) = sc_block_size sc"
  "sc_signatures (sc_flush_block h sc) = sc_signatures sc @ [block_sig h (sc_buffer sc)]"
  by (simp_all add: sc_flush_block_def block_sig_def Let_def)

lemma push_loop_Nil [simp]: "sc_push_loop h sc [] = Some sc"
  by (simp add: sc_push_loop.simps)

text \<open>One turn of the loop: too little data only extends the buffer, enough data flushes a block.\<close>

lemma push_loop_short:
  assumes "length (sc_buffer sc) + length xs < sc_block_size sc"
  shows "sc_push_loop h sc xs = Some (sc\<lparr>sc_buffer := sc_buffer sc @ xs\<rparr>)"
proof (cases "xs = []")
  case False
  with assms show ?thesis
    by (simp add: sc_push_loop.simps [of h sc xs] min_def Let_def)
qed simp

lemma push_loop_block:
  assumes "length (sc_buffer sc) < sc_block_size sc"
    "sc_block_size sc \<le> length (sc_buffer sc) + length xs"
  defines "need \<equiv> sc_block_size sc - length (sc_buffer sc)"
  shows "sc_push_loop h sc xs =
    sc_push_loop h (sc_flush_block h (sc\<lparr>sc_buffer := sc_buffer sc @ take need xs\<rparr>)) (drop need xs)"
proof -
  have "min need (length xs) = need" "xs \<noteq> []"
    using assms by auto
  then show ?thesis
    using assms(1,2) by (subst sc_push_loop.simps) (simp add: Let_def need_def)
qed

lemma push_loop_total:
  "sc_inv sc \<Longrightarrow> sc_block_size sc \<noteq> 0 \<Longrightarrow>
    \<exists>sc'. sc_push_loop h sc xs = Some sc' \<and> sc_inv sc' \<and> sc_block_size sc' = sc_block_size sc"
proof (induction xs arbitrary: sc rule: length_induct)
  case (1 xs)
  show ?case
  proof (cases "length (sc_buffer sc) + length xs < sc_block_size sc")
    case True
    with "1.prems" show ?thesis by (simp add: push_loop_short sc_inv_def)
  next
    case False
    let ?need = "sc_block_size sc - length (sc_buffer sc)"
    let ?sc = "sc_flush_block h (sc\<lparr>sc_buffer := sc_buffer sc @ take ?need xs\<rparr>)"
    have lt: "length (drop ?need xs) < length xs"
      using False "1.prems" by (auto simp: sc_inv_def)
    have "\<exists>sc'. sc_push_loop h ?sc (drop ?need xs) = Some sc' \<and> sc_inv sc' \<and> sc_block_size sc' = sc_block_size ?sc"
      using "1.prems" by (intro "1.IH" [rule_format, OF lt]) (simp_all add: sc_inv_def)
    then show ?thesis
      using False "1.prems" by (simp add: push_loop_block sc_inv_def)
  qed
qed

lemma push_loop_append:
  "sc_inv sc \<Longrightarrow> sc_block_size sc \<noteq> 0 \<Longrightarrow>
    sc_push_loop h sc (xs @ ys) = Option.bind (sc_push_loop h sc xs) (\<lambda>sc'. sc_push_loop h sc' ys)"
proof (induction xs arbitrary: sc rule: length_induct)
  case (1 xs)
  let ?need = "sc_block_size sc - length (sc_buffer sc)"
  show ?case
  proof (cases "length (sc_buffer sc) + length xs < sc_block_size sc")
    case short: True
    let ?sc' = "sc\<lparr>sc_buffer := sc_buffer sc @ xs\<rparr>"
    have "sc_push_loop h sc (xs @ ys) = sc_push_loop h ?sc' ys"
    proof (cases "length (sc_buffer sc) + length (xs @ ys) < sc_block_size sc")
      case True
      then show ?thesis by (simp add: push_loop_short)
    next
      case False
      then show ?thesis
        using short by (simp add: push_loop_block)
    qed
    then show ?thesis using short by (simp add: push_loop_short)
  next
    case False
    let ?sc = "sc_flush_block h (sc\<lparr>sc_buffer := sc_buffer sc @ take ?need xs\<rparr>)"
    have lt: "length (drop ?need xs) < length xs"
      using False "1.prems" by (auto simp: sc_inv_def)
    have "sc_push_loop h ?sc (drop ?need xs @ ys) =
        Option.bind (sc_push_loop h ?sc (drop ?need xs)) (\<lambda>sc'. sc_push_loop h sc' ys)"
      using "1.prems" by (intro "1.IH" [rule_format, OF lt]) (simp_all add: sc_inv_def)
    then show ?thesis
      using False "1.prems" by (simp add: push_loop_block sc_inv_def)
  qed
qed

lemma sc_push_total: "sc_inv sc \<Longrightarrow> \<exists>sc'. sc_push h sc xs = Some sc' \<and> sc_inv sc'"
  using push_loop_total [of sc h xs] by (auto simp: sc_push_def)

lemma sc_push_append:
  "sc_inv sc \<Longrightarrow> sc_push h sc (xs @ ys) = Option.bind (sc_push h sc xs) (\<lambda>sc'. sc_push h sc' ys)"
  using push_loop_total [of sc h xs] push_loop_append [of sc h xs ys]
  by (auto simp: sc_push_def)

subsection \<open>What the calculator computes\<close>

lemma push_loop_signatures:
  "sc_inv sc \<Longrightarrow> sc_block_size sc \<noteq> 0 \<Longrightarrow> sc_push_loop h sc xs = Some sc' \<Longrightarrow>
    snd (sc_finish h sc') =
      sc_signatures sc @ map (block_sig h) (chunks (sc_block_size sc) (sc_buffer sc @ xs))"
proof (induction xs arbitrary: sc rule: length_induct)
  case (1 xs)
  let ?need = "sc_block_size sc - length (sc_buffer sc)"
  show ?case
  proof (cases "length (sc_buffer sc) + length xs < sc_block_size sc")
    case True
    with "1.prems" have "sc' = sc\<lparr>sc_buffer := sc_buffer sc @ xs\<rparr>"
      by (simp add: push_loop_short)
    then show ?thesis
      using True "1.prems"(2)
      by (cases "sc_buffer sc @ xs = []") (auto simp: sc_finish_def chunks_step Let_def)
  next
    case False
    let ?sc = "sc_flush_block h (sc\<lparr>sc_buffer := sc_buffer sc @ take ?need xs\<rparr>)"
    have lt: "length (drop ?need xs) < length xs"
      using False "1.prems" by (auto simp: sc_inv_def)
    have "sc_buffer sc @ xs \<noteq> []"
      using False "1.prems" by (auto simp: sc_inv_def)
    then have "chunks (sc_block_size sc) (sc_buffer sc @ xs) =
        (sc_buffer sc @ take ?need xs) # chunks (sc_block_size sc) (drop ?need xs)"
      using "1.prems" by (subst chunks_step) (auto simp: sc_inv_def)
    moreover have "snd (sc_finish h sc') =
        sc_signatures ?sc @ map (block_sig h) (chunks (sc_block_size ?sc) (sc_buffer ?sc @ drop ?need xs))"
      using False "1.prems"
      by (intro "1.IH" [rule_format, OF lt]) (simp_all add: push_loop_block sc_inv_def)
    ultimately show ?thesis by simp
  qed
qed

lemma compute_signatures_blocks:
  "compute_block_signatures h data n =
    Some (if n = 0 then [] else map (block_sig h) (chunks (unat n) data))"
proof (cases "n = 0")
  case True
  then show ?thesis
    by (simp add: compute_block_signatures_def sc_push_def sc_new_def sc_finish_def)
next
  case False
  then have bs: "sc_block_size (sc_new n) \<noteq> 0"
    by (simp add: sc_new_def unat_eq_0)
  then obtain sc' where "sc_push_loop h (sc_new n) data = Some sc'"
    using push_loop_total [OF sc_inv_new] by blast
  with push_loop_signatures [OF sc_inv_new bs this] False bs show ?thesis
    by (simp add: compute_block_signatures_def sc_push_def) (simp add: sc_new_def)
qed

text \<open>The calculator is a chunked consumer that emits everything at the end.\<close>

definition sc_stream_push ::
  "(bytes \<Rightarrow> bytes) \<Rightarrow> signature_calculator \<Rightarrow> bytes \<Rightarrow> (signature_calculator \<times> block_signature list) option" where
  "sc_stream_push h sc xs = map_option (\<lambda>sc'. (sc', [])) (sc_push h sc xs)"

lemma sc_push_Nil [simp]: "sc_push h sc [] = Some sc"
  by (simp add: sc_push_def)

interpretation signature: chunked_consumer sc_inv "\<lambda>sc. sc" "sc_stream_push h"
  "\<lambda>sc xs. (the (sc_push h sc xs), [])" "\<lambda>sc. snd (sc_finish h sc)" for h
proof (unfold_locales, goal_cases)
  case (1 s xs)
  then show ?case using sc_push_total [of s h xs] by (auto simp: sc_stream_push_def)
next
  case (2 s xs s' out)
  then show ?case using sc_push_total [of s h xs] by (auto simp: sc_stream_push_def)
next
  case (3 s xs s' out)
  then show ?case by (auto simp: sc_stream_push_def)
next
  case (5 s xs ys)
  then show ?case
    using sc_push_total [of s h xs] by (auto simp: sc_push_append)
qed auto

lemma streamed_signatures:
  assumes "concat cs = data" "n \<noteq> 0"
  shows "stream_result (sc_stream_push h) (\<lambda>sc. snd (sc_finish h sc)) (sc_new n) cs
    = Some (map (block_sig h) (chunks (unat n) data))"
proof -
  have "stream_result (sc_stream_push h) (\<lambda>sc. snd (sc_finish h sc)) (sc_new n) cs
      = stream_result (sc_stream_push h) (\<lambda>sc. snd (sc_finish h sc)) (sc_new n) [data]"
    by (rule signature.chunking_irrelevant [OF sc_inv_new]) (simp add: assms(1))
  also have "\<dots> = compute_block_signatures h data n"
    by (auto simp: stream_result_def sc_stream_push_def compute_block_signatures_def
        split: option.splits)
  finally show ?thesis
    by (simp add: compute_signatures_blocks assms(2))
qed

text \<open>
  Whatever way a basis file is cut into chunks, pushing the chunks through a new
  calculator and finishing gives one (rolling, strong) signature per block of
  \<open>block_size\<close> bytes of the whole file, in order, the last block possibly shorter.
\<close>

theorem signatures_of_blocks:
  assumes "concat cs = data" "n \<noteq> 0"
  shows "stream_result (sc_stream_push h) (\<lambda>sc. snd (sc_finish h sc)) (sc_new n) cs
    = Some (map (block_sig h) (chunks (unat n) data))"
  by (rule streamed_signatures [OF assms])

text \<open>
  A concrete function in the place of BLAKE3 for the witnesses: injective on the inputs
  of at most 15 bytes they use.
\<close>

definition pad_hash :: "bytes \<Rightarrow> bytes" where
  "pad_hash b = of_nat (length b) # b @ replicate 31 0"

lemma signatures_of_blocks_witness:
  "stream_result (sc_stream_push pad_hash) (\<lambda>sc. snd (sc_finish pad_hash sc)) (sc_new 2) [[1], [2, 3]]
    = Some [block_sig pad_hash [1, 2], block_sig pad_hash [3]]"
  using signatures_of_blocks [of "[[1], [2, 3]]" "[1, 2, 3]" 2 pad_hash]
  by (simp add: chunks.simps)

end
