(* ===== verification/Matcher.thy ===== *)
theory Matcher
  imports Signature
begin

section \<open>The sliding-window matcher (crates/sync-delta/src/matcher.rs)\<close>

text \<open>
  The sender's side of a delta transfer: the source file is fed in chunks, every window of
  \<open>block_size\<close> bytes is looked up in the receiver's block signatures, first by rolling
  checksum and then by the truncated BLAKE3, and the output is a list of \<open>Match\<close> and
  \<open>Data\<close> tokens. The state is the code's, the rolling checksum and the window flag
  included. A specification \<open>scan\<close> without them recomputes every checksum; the code's
  loop is shown to refine it.
\<close>

subsection \<open>The code\<close>

type_synonym sig_table = "u32 \<Rightarrow> (u32 \<times> block_signature) list option"

fun sig_table_loop :: "sig_table \<Rightarrow> nat \<Rightarrow> block_signature list \<Rightarrow> sig_table" where
  "sig_table_loop table idx [] = table"
| "sig_table_loop table idx (sig # rest) =
     (let old = (case table (bs_rolling sig) of None \<Rightarrow> [] | Some v \<Rightarrow> v)
      in sig_table_loop (table(bs_rolling sig \<mapsto> old @ [(of_nat idx, sig)])) (Suc idx) rest)"

definition build_sig_table :: "block_signature list \<Rightarrow> sig_table" where
  "build_sig_table signatures = sig_table_loop (\<lambda>_. None) 0 signatures"

record delta_matcher =
  dm_sig_table :: sig_table
  dm_bs :: nat
  dm_signatures :: "block_signature list"
  dm_consumed :: nat
  dm_carry :: bytes
  dm_pos :: nat
  dm_rc :: rolling_checksum
  dm_window_init :: bool
  dm_literal_buf :: bytes

definition LITERAL_LIMIT :: nat where
  "LITERAL_LIMIT = 1024 * 1024"

definition dm_new :: "block_signature list \<Rightarrow> u32 \<Rightarrow> delta_matcher" where
  "dm_new signatures block_size =
     \<lparr>dm_sig_table = build_sig_table signatures, dm_bs = unat block_size,
      dm_signatures = signatures, dm_consumed = 0, dm_carry = [], dm_pos = 0, dm_rc = rc_new,
      dm_window_init = False, dm_literal_buf = []\<rparr>"

text \<open>The block of the same position, if it is one and agrees in both checksums.\<close>

definition preferred_block ::
  "nat \<Rightarrow> block_signature list \<Rightarrow> nat \<Rightarrow> u32 \<Rightarrow> bytes \<Rightarrow> u32 option" where
  "preferred_block bs signatures position rolling strong =
     (if position mod bs = 0 then
        let index = position div bs in
        if index < 2 ^ 32 then
          if index < length signatures \<and> bs_rolling (signatures ! index) = rolling
             \<and> bs_strong (signatures ! index) = strong
          then Some (of_nat index) else None
        else None
      else None)"

definition select_block ::
  "(bytes \<Rightarrow> bytes) \<Rightarrow> sig_table \<Rightarrow> nat \<Rightarrow> block_signature list \<Rightarrow> nat \<Rightarrow> u32 \<Rightarrow> bytes \<Rightarrow> u32 option" where
  "select_block blake3 table bs signatures position rolling window =
     (case table rolling of
        None \<Rightarrow> None
      | Some candidates \<Rightarrow>
          (let strong = blake3_truncated blake3 window in
           case preferred_block bs signatures position rolling strong of
             Some index \<Rightarrow> Some index
           | None \<Rightarrow> map_option fst (find (\<lambda>(_, sig). bs_strong sig = strong) candidates)))"

text \<open>One turn of the \<open>while\<close> loop of \<open>process\<close>, its lazy initialisation first.\<close>

definition dm_ensure_window :: "delta_matcher \<Rightarrow> delta_matcher" where
  "dm_ensure_window dm =
     (if dm_window_init dm then dm
      else dm\<lparr>dm_rc := rc_init (take (dm_bs dm) (drop (dm_pos dm) (dm_carry dm))),
              dm_window_init := True\<rparr>)"

definition dm_match :: "u32 \<Rightarrow> delta_matcher \<Rightarrow> delta_matcher \<times> delta_token list" where
  "dm_match block_idx dm =
     (dm\<lparr>dm_literal_buf := [], dm_pos := dm_pos dm + dm_bs dm, dm_window_init := False\<rparr>,
      (if dm_literal_buf dm \<noteq> [] then [Data (dm_literal_buf dm)] else []) @ [Match block_idx])"

definition dm_literal :: "delta_matcher \<Rightarrow> delta_matcher \<times> delta_token list" where
  "dm_literal dm =
     (let lit = dm_literal_buf dm @ [dm_carry dm ! dm_pos dm];
          full = LITERAL_LIMIT \<le> length lit;
          dm1 = dm\<lparr>dm_literal_buf := (if full then [] else lit), dm_pos := dm_pos dm + 1\<rparr>;
          dm2 = (if dm_pos dm1 + dm_bs dm1 \<le> length (dm_carry dm1)
                 then dm1\<lparr>dm_rc := rc_update (dm_rc dm1) (dm_carry dm1 ! (dm_pos dm1 - 1))
                            (dm_carry dm1 ! (dm_pos dm1 + dm_bs dm1 - 1)) (of_nat (dm_bs dm1))\<rparr>
                 else dm1\<lparr>dm_window_init := False\<rparr>)
      in (dm2, if full then [Data lit] else []))"

definition dm_step :: "(bytes \<Rightarrow> bytes) \<Rightarrow> delta_matcher \<Rightarrow> delta_matcher \<times> delta_token list" where
  "dm_step blake3 dm =
     (let dm1 = dm_ensure_window dm; rolling = digest (dm_rc dm1)
      in case select_block blake3 (dm_sig_table dm1) (dm_bs dm1) (dm_signatures dm1)
                (dm_consumed dm1 + dm_pos dm1) rolling (take (dm_bs dm1) (drop (dm_pos dm1) (dm_carry dm1))) of
           Some block_idx \<Rightarrow> dm_match block_idx dm1
         | None \<Rightarrow> dm_literal dm1)"

lemma dm_ensure_window_simps [simp]:
  "dm_sig_table (dm_ensure_window dm) = dm_sig_table dm" "dm_bs (dm_ensure_window dm) = dm_bs dm"
  "dm_signatures (dm_ensure_window dm) = dm_signatures dm"
  "dm_consumed (dm_ensure_window dm) = dm_consumed dm" "dm_carry (dm_ensure_window dm) = dm_carry dm"
  "dm_pos (dm_ensure_window dm) = dm_pos dm" "dm_window_init (dm_ensure_window dm)"
  "dm_literal_buf (dm_ensure_window dm) = dm_literal_buf dm"
  by (simp_all add: dm_ensure_window_def)

lemma dm_step_pos:
  "dm_carry (fst (dm_step h dm)) = dm_carry dm" "dm_bs (fst (dm_step h dm)) = dm_bs dm"
  "0 < dm_bs dm \<Longrightarrow> dm_pos dm < dm_pos (fst (dm_step h dm))"
  by (simp_all add: dm_step_def dm_match_def dm_literal_def Let_def split: option.split)

text \<open>
  The loop itself. \<open>push\<close> and \<open>finish\<close> only enter it with a positive block size (with
  block size 0 it would not end), which is part of the guard here.
\<close>

function dm_process :: "(bytes \<Rightarrow> bytes) \<Rightarrow> delta_matcher \<Rightarrow> delta_matcher \<times> delta_token list" where
  "dm_process blake3 dm =
     (if dm_bs dm \<noteq> 0 \<and> dm_pos dm + dm_bs dm \<le> length (dm_carry dm) then
        let (dm1, toks) = dm_step blake3 dm; (dm2, toks') = dm_process blake3 dm1
        in (dm2, toks @ toks')
      else (dm, []))"
  by pat_completeness auto
termination
proof (relation "measure (\<lambda>(h, dm). length (dm_carry dm) - dm_pos dm)", goal_cases)
  case (2 h dm x dm1 toks)
  then show ?case
    using dm_step_pos [where h = h and dm = dm] by (cases "dm_step h dm") auto
qed simp

declare dm_process.simps [simp del]

definition dm_compact :: "delta_matcher \<Rightarrow> delta_matcher" where
  "dm_compact dm =
     (if 0 < dm_pos dm then
        dm\<lparr>dm_consumed := dm_consumed dm + dm_pos dm, dm_carry := drop (dm_pos dm) (dm_carry dm),
           dm_pos := 0\<rparr>
      else dm)"

definition dm_push ::
  "(bytes \<Rightarrow> bytes) \<Rightarrow> delta_matcher \<Rightarrow> bytes \<Rightarrow> delta_matcher \<times> delta_token list" where
  "dm_push blake3 dm bytes =
     (if dm_bs dm = 0 then (dm\<lparr>dm_literal_buf := dm_literal_buf dm @ bytes\<rparr>, [])
      else let (dm1, tokens) = dm_process blake3 (dm\<lparr>dm_carry := dm_carry dm @ bytes\<rparr>)
           in (dm_compact dm1, tokens))"

definition dm_finish :: "(bytes \<Rightarrow> bytes) \<Rightarrow> delta_matcher \<Rightarrow> delta_matcher \<times> delta_token list" where
  "dm_finish blake3 dm =
     (let (dm1, tokens) = (if dm_bs dm \<noteq> 0 then dm_process blake3 dm else (dm, []));
          lit = (if dm_pos dm1 < length (dm_carry dm1)
                 then dm_literal_buf dm1 @ drop (dm_pos dm1) (dm_carry dm1) else dm_literal_buf dm1)
      in (dm1\<lparr>dm_carry := [], dm_pos := 0, dm_literal_buf := []\<rparr>,
          tokens @ map Data (chunks LITERAL_LIMIT lit)))"

definition delta_match ::
  "(bytes \<Rightarrow> bytes) \<Rightarrow> bytes \<Rightarrow> block_signature list \<Rightarrow> u32 \<Rightarrow> delta_token list" where
  "delta_match blake3 src_data signatures block_size =
     (let (matcher, tokens) = dm_push blake3 (dm_new signatures block_size) src_data
      in tokens @ snd (dm_finish blake3 matcher))"

subsection \<open>The specification: a scan without rolling state\<close>

record scan_state =
  ss_position :: nat
  ss_rest :: bytes
  ss_literal :: bytes

definition scan_step ::
  "(bytes \<Rightarrow> bytes) \<Rightarrow> nat \<Rightarrow> block_signature list \<Rightarrow> scan_state \<Rightarrow> scan_state \<times> delta_token list" where
  "scan_step h bs sigs ss =
     (let window = take bs (ss_rest ss) in
      case select_block h (build_sig_table sigs) bs sigs (ss_position ss) (checksum window) window of
        Some idx \<Rightarrow>
          (\<lparr>ss_position = ss_position ss + bs, ss_rest = drop bs (ss_rest ss), ss_literal = []\<rparr>,
           (if ss_literal ss \<noteq> [] then [Data (ss_literal ss)] else []) @ [Match idx])
      | None \<Rightarrow>
          (let lit = ss_literal ss @ [hd (ss_rest ss)]; full = LITERAL_LIMIT \<le> length lit
           in (\<lparr>ss_position = ss_position ss + 1, ss_rest = tl (ss_rest ss),
                ss_literal = (if full then [] else lit)\<rparr>,
               if full then [Data lit] else [])))"

lemma scan_step_rest:
  "0 < bs \<Longrightarrow> bs \<le> length (ss_rest ss) \<Longrightarrow> scan_step h bs sigs ss = (ss', toks) \<Longrightarrow>
    length (ss_rest ss') < length (ss_rest ss)"
  by (auto simp: scan_step_def Let_def split: option.splits if_splits)

function scan ::
  "(bytes \<Rightarrow> bytes) \<Rightarrow> nat \<Rightarrow> block_signature list \<Rightarrow> scan_state \<Rightarrow> scan_state \<times> delta_token list" where
  "scan h bs sigs ss =
     (if bs \<noteq> 0 \<and> bs \<le> length (ss_rest ss) then
        let (ss1, toks) = scan_step h bs sigs ss; (ss2, toks') = scan h bs sigs ss1
        in (ss2, toks @ toks')
      else (ss, []))"
  by pat_completeness auto
termination
proof (relation "measure (\<lambda>(h, bs, sigs, ss). length (ss_rest ss))", goal_cases)
  case (2 h bs sigs ss x ss1 toks)
  then show ?case
    using scan_step_rest [of bs ss h sigs ss1 toks] by simp
qed simp

declare scan.simps [simp del]

lemma scan_stop: "length (ss_rest ss) < bs \<or> bs = 0 \<Longrightarrow> scan h bs sigs ss = (ss, [])"
  by (subst scan.simps) auto

lemma scan_go:
  "bs \<noteq> 0 \<Longrightarrow> bs \<le> length (ss_rest ss) \<Longrightarrow> scan_step h bs sigs ss = (ss1, toks) \<Longrightarrow>
    scan h bs sigs ss = (fst (scan h bs sigs ss1), toks @ snd (scan h bs sigs ss1))"
  by (subst scan.simps) (simp split: prod.split)

text \<open>More input behind the window changes neither the step nor what was scanned before.\<close>

definition more_input :: "bytes \<Rightarrow> scan_state \<Rightarrow> scan_state" where
  "more_input xs ss = ss\<lparr>ss_rest := ss_rest ss @ xs\<rparr>"

lemma more_input_simps [simp]:
  "ss_rest (more_input xs ss) = ss_rest ss @ xs" "ss_position (more_input xs ss) = ss_position ss"
  "ss_literal (more_input xs ss) = ss_literal ss" "more_input [] ss = ss"
  "more_input ys (more_input xs ss) = more_input (xs @ ys) ss"
  by (simp_all add: more_input_def)

lemma scan_step_more:
  "0 < bs \<Longrightarrow> bs \<le> length (ss_rest ss) \<Longrightarrow>
    scan_step h bs sigs (more_input ys ss) =
      (more_input ys (fst (scan_step h bs sigs ss)), snd (scan_step h bs sigs ss))"
  by (cases "ss_rest ss = []") (simp_all add: scan_step_def more_input_def Let_def split: option.split)

lemma scan_more:
  "bs \<noteq> 0 \<Longrightarrow> scan h bs sigs (more_input ys ss) =
    (let (ss1, t1) = scan h bs sigs ss; (ss2, t2) = scan h bs sigs (more_input ys ss1)
     in (ss2, t1 @ t2))"
proof (induction "length (ss_rest ss)" arbitrary: ss rule: less_induct)
  case less
  show ?case
  proof (cases "bs \<le> length (ss_rest ss)")
    case True
    obtain ss1 t1 where step: "scan_step h bs sigs ss = (ss1, t1)"
      by (cases "scan_step h bs sigs ss")
    have lt: "length (ss_rest ss1) < length (ss_rest ss)"
      using scan_step_rest [OF _ True step] less.prems by simp
    have more: "scan_step h bs sigs (more_input ys ss) = (more_input ys ss1, t1)"
      using scan_step_more [of bs ss h sigs ys] True less.prems by (simp add: step)
    have "scan h bs sigs (more_input ys ss) = (fst (scan h bs sigs (more_input ys ss1)),
        t1 @ snd (scan h bs sigs (more_input ys ss1)))"
      using True less.prems by (intro scan_go [OF _ _ more]) simp_all
    then show ?thesis
      unfolding scan_go [OF less.prems True step] less.hyps [OF lt less.prems]
      by (simp split: prod.split)
  next
    case False
    then show ?thesis by (simp add: scan_stop)
  qed
qed

lemma scan_rest_short: "bs \<noteq> 0 \<Longrightarrow> length (ss_rest (fst (scan h bs sigs ss))) < bs"
proof (induction h bs sigs ss rule: scan.induct)
  case (1 h bs sigs ss)
  show ?case
  proof (cases "bs \<le> length (ss_rest ss)")
    case True
    then show ?thesis
      using 1 by (cases "scan_step h bs sigs ss") (simp add: scan_go)
  next
    case False
    then show ?thesis by (simp add: scan_stop)
  qed
qed

subsection \<open>The code's loop refines the scan\<close>

definition dm_view :: "delta_matcher \<Rightarrow> scan_state" where
  "dm_view dm = \<lparr>ss_position = dm_consumed dm + dm_pos dm, ss_rest = drop (dm_pos dm) (dm_carry dm),
     ss_literal = dm_literal_buf dm\<rparr>"

definition dm_params :: "nat \<Rightarrow> block_signature list \<Rightarrow> delta_matcher \<Rightarrow> bool" where
  "dm_params bs sigs dm \<longleftrightarrow> dm_bs dm = bs \<and> dm_signatures dm = sigs \<and>
     dm_sig_table dm = build_sig_table sigs \<and> dm_pos dm \<le> length (dm_carry dm)"

text \<open>The documented meaning of \<open>window_init\<close>.\<close>

definition dm_window_ok :: "delta_matcher \<Rightarrow> bool" where
  "dm_window_ok dm \<longleftrightarrow> (dm_window_init dm \<longrightarrow>
     dm_pos dm + dm_bs dm \<le> length (dm_carry dm) \<and>
     dm_rc dm = rc_init (take (dm_bs dm) (drop (dm_pos dm) (dm_carry dm))))"

lemma slide_window:
  assumes "i + bs < length xs" "0 < bs" "bs < 2 ^ 32"
  shows "rc_update (rc_init (take bs (drop i xs))) (xs ! i) (xs ! (i + bs)) (of_nat bs)
    = rc_init (take bs (drop (Suc i) xs))"
proof -
  have "unat (of_nat bs :: u32) = bs"
    using assms(3) by (simp add: unat_of_nat take_bit_nat_eq_self)
  then have "unat (of_nat bs :: u32) = Suc (length (take (bs - 1) (drop (Suc i) xs)))"
    using assms by simp
  from rc_update_slides [OF this] show ?thesis
    by (simp only: window_Cons [OF assms(1,2)] window_snoc [OF assms(1,2)])
qed

lemma dm_match_refines:
  assumes "dm_params bs sigs dm" "dm_pos dm + bs \<le> length (dm_carry dm)" "dm_match idx dm = (dm', toks)"
  shows "dm_params bs sigs dm' \<and> dm_window_ok dm' \<and>
    dm_view dm' = \<lparr>ss_position = ss_position (dm_view dm) + bs, ss_rest = drop bs (ss_rest (dm_view dm)),
      ss_literal = []\<rparr>"
  using assms by (auto simp: dm_match_def dm_params_def dm_window_ok_def dm_view_def add.commute)

lemma dm_literal_refines:
  assumes "dm_params bs sigs dm" "dm_window_ok dm" "dm_window_init dm" "0 < bs" "bs < 2 ^ 32"
    "dm_pos dm + bs \<le> length (dm_carry dm)" "dm_literal dm = (dm', toks)"
  shows "dm_params bs sigs dm' \<and> dm_window_ok dm' \<and>
    dm_view dm' = \<lparr>ss_position = ss_position (dm_view dm) + 1, ss_rest = tl (ss_rest (dm_view dm)),
      ss_literal = ss_literal (dm_view dm')\<rparr>"
proof -
  have bs: "dm_bs dm = bs" and rc: "dm_rc dm = rc_init (take bs (drop (dm_pos dm) (dm_carry dm)))"
    using assms(1-3) by (simp_all add: dm_params_def dm_window_ok_def)
  have slide: "dm_pos dm + bs < length (dm_carry dm) \<Longrightarrow>
      rc_update (dm_rc dm) (dm_carry dm ! dm_pos dm) (dm_carry dm ! (dm_pos dm + bs)) (of_nat bs)
      = rc_init (take bs (drop (Suc (dm_pos dm)) (dm_carry dm)))"
    unfolding rc using assms(4,5) by (intro slide_window) simp_all
  have tl: "tl (drop (dm_pos dm) (dm_carry dm)) = drop (Suc (dm_pos dm)) (dm_carry dm)"
    by (simp add: drop_Suc tl_drop)
  show ?thesis
    using assms(1,3-7) slide
    by (cases "dm_pos dm + bs < length (dm_carry dm)")
      (auto simp: dm_literal_def dm_params_def dm_window_ok_def dm_view_def Let_def tl)
qed

lemma dm_step_refines:
  assumes "dm_params bs sigs dm" "dm_window_ok dm" "0 < bs" "bs < 2 ^ 32"
    "dm_pos dm + bs \<le> length (dm_carry dm)" "dm_step h dm = (dm', toks)"
  shows "dm_params bs sigs dm' \<and> dm_window_ok dm' \<and>
    scan_step h bs sigs (dm_view dm) = (dm_view dm', toks)"
proof -
  let ?dm = "dm_ensure_window dm" and ?w = "take bs (drop (dm_pos dm) (dm_carry dm))"
  have bs: "dm_bs dm = bs" "dm_sig_table dm = build_sig_table sigs" "dm_signatures dm = sigs"
    using assms(1) by (simp_all add: dm_params_def)
  have rc: "dm_rc ?dm = rc_init ?w"
    using assms(2) bs by (simp add: dm_ensure_window_def dm_window_ok_def)
  have v: "dm_view ?dm = dm_view dm" and pr: "dm_params bs sigs ?dm" and ok: "dm_window_ok ?dm"
    using assms(1,5) rc bs by (simp_all add: dm_view_def dm_params_def dm_window_ok_def)
  have hd: "hd (drop (dm_pos dm) (dm_carry dm)) = dm_carry dm ! dm_pos dm"
    using assms(3,5) by (simp add: hd_drop_conv_nth)
  let ?sel = "select_block h (build_sig_table sigs) bs sigs (dm_consumed dm + dm_pos dm) (checksum ?w) ?w"
  show ?thesis
  proof (cases ?sel)
    case (Some idx)
    then have "dm_match idx ?dm = (dm', toks)"
      using assms(6) by (simp add: dm_step_def bs rc digest_init)
    with dm_match_refines [OF pr, of idx dm' toks] assms(5) Some show ?thesis
      by (auto simp: scan_step_def v) (auto simp: dm_match_def dm_view_def)
  next
    case None
    then have lit: "dm_literal ?dm = (dm', toks)"
      using assms(6) by (simp add: dm_step_def bs rc digest_init)
    have "dm_params bs sigs dm' \<and> dm_window_ok dm' \<and> dm_view dm' =
      \<lparr>ss_position = ss_position (dm_view dm) + 1, ss_rest = tl (ss_rest (dm_view dm)),
        ss_literal = ss_literal (dm_view dm')\<rparr>"
      using dm_literal_refines [OF pr ok _ assms(3,4) _ lit] assms(5) by (simp add: v)
    moreover have "ss_literal (dm_view dm') = (let l = dm_literal_buf dm @ [dm_carry dm ! dm_pos dm]
        in if LITERAL_LIMIT \<le> length l then [] else l)"
      "toks = (let l = dm_literal_buf dm @ [dm_carry dm ! dm_pos dm]
        in if LITERAL_LIMIT \<le> length l then [Data l] else [])"
      using lit by (auto simp: dm_literal_def dm_view_def Let_def)
    ultimately show ?thesis
      using None by (simp add: scan_step_def Let_def hd dm_view_def)
  qed
qed

lemma dm_process_refines:
  "dm_params bs sigs dm \<Longrightarrow> dm_window_ok dm \<Longrightarrow> 0 < bs \<Longrightarrow> bs < 2 ^ 32 \<Longrightarrow>
    dm_process h dm = (dm', toks) \<Longrightarrow>
    dm_params bs sigs dm' \<and> \<not> dm_window_init dm' \<and> scan h bs sigs (dm_view dm) = (dm_view dm', toks)"
proof (induction h dm arbitrary: dm' toks rule: dm_process.induct)
  case (1 h dm)
  have bs: "dm_bs dm = bs" using "1.prems"(1) by (simp add: dm_params_def)
  show ?case
  proof (cases "dm_pos dm + bs \<le> length (dm_carry dm)")
    case True
    obtain dm1 t1 where step: "dm_step h dm = (dm1, t1)" by (cases "dm_step h dm")
    obtain dm2 t2 where rest: "dm_process h dm1 = (dm2, t2)" by (cases "dm_process h dm1")
    have res: "dm' = dm2" "toks = t1 @ t2"
      using "1.prems"(3,5) True bs step rest by (simp_all add: dm_process.simps [of h dm])
    note ref = dm_step_refines [OF "1.prems"(1-4) True step]
    have "dm_params bs sigs dm2 \<and> \<not> dm_window_init dm2 \<and>
        scan h bs sigs (dm_view dm1) = (dm_view dm2, t2)"
      by (rule "1.IH" [OF _ step [symmetric] refl]) (use ref rest "1.prems" True bs in simp_all)
    moreover have "bs \<le> length (ss_rest (dm_view dm))"
      using True by (simp add: dm_view_def)
    ultimately show ?thesis
      using scan_go [of bs "dm_view dm" h sigs "dm_view dm1" t1] ref "1.prems"(3) res by simp
  next
    case False
    have "dm' = dm" "toks = []"
      using "1.prems"(5) False bs by (simp_all add: dm_process.simps [of h dm])
    moreover have "scan h bs sigs (dm_view dm) = (dm_view dm, [])"
      using False using "1.prems"(3) by (intro scan_stop disjI1) (simp add: dm_view_def)
    ultimately show ?thesis
      using "1.prems" False bs by (simp add: dm_window_ok_def)
  qed
qed

text \<open>Between two pushes everything processed has been reclaimed and no window is kept.\<close>

definition dm_inv :: "nat \<Rightarrow> block_signature list \<Rightarrow> delta_matcher \<Rightarrow> bool" where
  "dm_inv bs sigs dm \<longleftrightarrow> dm_params bs sigs dm \<and> bs < 2 ^ 32 \<and> dm_pos dm = 0 \<and>
     \<not> dm_window_init dm \<and> (if bs = 0 then dm_carry dm = [] else length (dm_carry dm) < bs)"

definition scan_push ::
  "(bytes \<Rightarrow> bytes) \<Rightarrow> nat \<Rightarrow> block_signature list \<Rightarrow> scan_state \<Rightarrow> bytes \<Rightarrow> scan_state \<times> delta_token list" where
  "scan_push h bs sigs ss xs =
     (if bs = 0 then (ss\<lparr>ss_literal := ss_literal ss @ xs\<rparr>, []) else scan h bs sigs (more_input xs ss))"

lemma dm_inv_new: "dm_inv (unat n) sigs (dm_new sigs n)"
  using unsigned_less [of n, where 'a = nat] by (simp add: dm_inv_def dm_params_def dm_new_def)

lemma dm_compact_view:
  "dm_params bs sigs dm \<Longrightarrow> dm_view (dm_compact dm) = dm_view dm \<and> dm_params bs sigs (dm_compact dm) \<and>
    dm_pos (dm_compact dm) = 0 \<and> dm_window_init (dm_compact dm) = dm_window_init dm"
  by (simp add: dm_compact_def dm_view_def dm_params_def)

lemma dm_push_refines:
  assumes "dm_inv bs sigs dm" "dm_push h dm xs = (dm', toks)"
  shows "dm_inv bs sigs dm' \<and> scan_push h bs sigs (dm_view dm) xs = (dm_view dm', toks)"
proof (cases "bs = 0")
  case True
  with assms show ?thesis
    by (auto simp: dm_inv_def dm_params_def dm_push_def scan_push_def dm_view_def)
next
  case False
  let ?dm = "dm\<lparr>dm_carry := dm_carry dm @ xs\<rparr>"
  obtain dm1 where p: "dm_process h ?dm = (dm1, toks)" and dm': "dm' = dm_compact dm1"
    using assms False by (auto simp: dm_push_def dm_inv_def dm_params_def split: prod.splits)
  have v: "dm_view ?dm = more_input xs (dm_view dm)"
    using assms(1) by (simp add: dm_view_def more_input_def dm_inv_def)
  have ref: "dm_params bs sigs dm1 \<and> \<not> dm_window_init dm1 \<and>
      scan h bs sigs (dm_view ?dm) = (dm_view dm1, toks)"
    using assms(1) False by (intro dm_process_refines [OF _ _ _ _ p])
      (simp_all add: dm_inv_def dm_params_def dm_window_ok_def)
  have "length (ss_rest (dm_view dm1)) < bs"
    using scan_rest_short [OF False, of h sigs "dm_view ?dm"] ref by simp
  moreover have "dm_view dm' = dm_view dm1" "dm_params bs sigs dm'" "dm_pos dm' = 0" "\<not> dm_window_init dm'"
    using dm_compact_view [of bs sigs dm1] ref unfolding dm' by simp_all
  moreover from this have "length (ss_rest (dm_view dm1)) = length (dm_carry dm')"
    by (simp add: dm_view_def)
  ultimately show ?thesis
    using False assms(1) ref v by (simp add: dm_inv_def scan_push_def)
qed

lemma dm_finish_view:
  "dm_inv bs sigs dm \<Longrightarrow>
    snd (dm_finish h dm) = map Data (chunks LITERAL_LIMIT (ss_literal (dm_view dm) @ ss_rest (dm_view dm)))"
  by (auto simp: dm_finish_def dm_inv_def dm_params_def dm_view_def dm_process.simps split: if_splits)

lemma scan_push_Nil: "dm_inv bs sigs dm \<Longrightarrow> scan_push h bs sigs (dm_view dm) [] = (dm_view dm, [])"
  by (auto simp: scan_push_def dm_inv_def dm_view_def scan_stop split: if_splits)

lemma scan_push_append:
  "scan_push h bs sigs ss (xs @ ys) =
    (let (s1, o1) = scan_push h bs sigs ss xs; (s2, o2) = scan_push h bs sigs s1 ys in (s2, o1 @ o2))"
  using scan_more [of bs h sigs ys "more_input xs ss"] by (simp add: scan_push_def)

definition dm_stream_push ::
  "(bytes \<Rightarrow> bytes) \<Rightarrow> delta_matcher \<Rightarrow> bytes \<Rightarrow> (delta_matcher \<times> delta_token list) option" where
  "dm_stream_push h dm xs = Some (dm_push h dm xs)"

interpretation matcher: chunked_consumer "dm_inv bs sigs" dm_view "dm_stream_push h"
  "scan_push h bs sigs" "\<lambda>dm. snd (dm_finish h dm)" for h bs sigs
proof (unfold_locales, goal_cases)
  case (1 s xs)
  then show ?case by (simp add: dm_stream_push_def)
next
  case (6 s t)
  then show ?case by (simp add: dm_finish_view)
qed (simp_all add: dm_stream_push_def dm_push_refines scan_push_Nil scan_push_append)

lemma streamed_matches:
  assumes "concat cs = data"
  shows "stream_result (dm_stream_push h) (\<lambda>dm. snd (dm_finish h dm)) (dm_new sigs n) cs
    = Some (delta_match h data sigs n)"
proof -
  have "stream_result (dm_stream_push h) (\<lambda>dm. snd (dm_finish h dm)) (dm_new sigs n) cs
      = stream_result (dm_stream_push h) (\<lambda>dm. snd (dm_finish h dm)) (dm_new sigs n) [data]"
    by (rule matcher.chunking_irrelevant [OF dm_inv_new]) (simp add: assms)
  then show ?thesis
    by (simp add: stream_result_def dm_stream_push_def delta_match_def split: prod.split)
qed

text \<open>
  C12. The chunk borders do not matter: feeding a source file to the matcher in any pieces
  and finishing gives exactly the token sequence of \<open>delta_match\<close> on the whole file.
\<close>

theorem matcher_chunking_irrelevant:
  assumes "concat cs = data"
  shows "stream_result (dm_stream_push h) (\<lambda>dm. snd (dm_finish h dm)) (dm_new sigs n) cs
    = Some (delta_match h data sigs n)"
  by (rule streamed_matches [OF assms])

lemma matcher_chunking_irrelevant_witness:
  "stream_result (dm_stream_push pad_hash) (\<lambda>dm. snd (dm_finish pad_hash dm))
      (dm_new [block_sig pad_hash [1, 2]] 2) [[9], [1], [], [2, 3]]
    = Some (delta_match pad_hash [9, 1, 2, 3] [block_sig pad_hash [1, 2]] 2)"
  by (rule matcher_chunking_irrelevant) simp

subsection \<open>The lookup table\<close>

definition candidates_of :: "u32 \<Rightarrow> nat \<Rightarrow> block_signature list \<Rightarrow> (u32 \<times> block_signature) list" where
  "candidates_of r idx sigs =
     map (\<lambda>(j, sig). (of_nat j, sig)) (filter (\<lambda>(j, sig). bs_rolling sig = r) (enumerate idx sigs))"

lemma sig_table_loop_candidates:
  "sig_table_loop table idx sigs r =
    (if candidates_of r idx sigs = [] then table r
     else Some ((case table r of None \<Rightarrow> [] | Some v \<Rightarrow> v) @ candidates_of r idx sigs))"
proof (induction sigs arbitrary: table idx)
  case (Cons sig sigs)
  show ?case
    by (simp add: Cons.IH Let_def candidates_of_def split: option.split)
qed (simp add: candidates_of_def)

lemma build_sig_table_Some:
  "build_sig_table sigs r = Some cands \<longleftrightarrow> candidates_of r 0 sigs = cands \<and> cands \<noteq> []"
  by (auto simp: build_sig_table_def sig_table_loop_candidates)

lemma candidates_of_iff:
  "(i, sig) \<in> set (candidates_of r 0 sigs) \<longleftrightarrow>
    (\<exists>j < length sigs. i = of_nat j \<and> sig = sigs ! j \<and> bs_rolling (sigs ! j) = r)"
  by (force simp: candidates_of_def in_set_enumerate_eq)

lemma unat_of_nat_index: "j < n \<Longrightarrow> n \<le> 2 ^ 32 \<Longrightarrow> unat (of_nat j :: u32) = j"
  by (simp add: unat_of_nat take_bit_nat_eq_self)

text \<open>A selected block agrees in both checksums.\<close>

lemma select_block_sound:
  assumes "select_block h (build_sig_table sigs) bs sigs position r w = Some i" "length sigs \<le> 2 ^ 32"
  shows "unat i < length sigs \<and> bs_rolling (sigs ! unat i) = r
    \<and> bs_strong (sigs ! unat i) = blake3_truncated h w"
proof -
  obtain cands where c: "build_sig_table sigs r = Some cands"
    using assms(1) by (auto simp: select_block_def split: option.splits)
  then have cs: "cands = candidates_of r 0 sigs" by (auto simp: build_sig_table_Some)
  let ?s = "blake3_truncated h w"
  show ?thesis
  proof (cases "preferred_block bs sigs position r ?s")
    case (Some j)
    then have "i = j" using assms(1) c by (simp add: select_block_def)
    with Some assms(2) show ?thesis
      by (auto simp: preferred_block_def Let_def unat_of_nat_index split: if_splits)
  next
    case None
    then obtain sig where f: "find (\<lambda>(_, sig). bs_strong sig = ?s) cands = Some (i, sig)"
      using assms(1) c by (auto simp: select_block_def)
    then have "(i, sig) \<in> set cands" "bs_strong sig = ?s"
      by (auto simp: find_Some_iff set_conv_nth)
    then show ?thesis
      using assms(2) by (auto simp: cs candidates_of_iff unat_of_nat_index)
  qed
qed

text \<open>The same-position block is taken whenever it agrees.\<close>

lemma select_block_same_position:
  assumes "j < length sigs" "j < 2 ^ 32" "0 < bs" "sigs ! j = block_sig h w"
  shows "select_block h (build_sig_table sigs) bs sigs (j * bs) (checksum w) w = Some (of_nat j)"
proof -
  have "(of_nat j, sigs ! j) \<in> set (candidates_of (checksum w) 0 sigs)"
    using assms by (auto simp: candidates_of_iff block_sig_def)
  then have "candidates_of (checksum w) 0 sigs \<noteq> []" by auto
  then have "build_sig_table sigs (checksum w) = Some (candidates_of (checksum w) 0 sigs)"
    by (simp add: build_sig_table_Some)
  then show ?thesis
    using assms by (simp add: select_block_def preferred_block_def block_sig_def Let_def)
qed

subsection \<open>What the matcher emits\<close>

text \<open>The whole-file run as a scan.\<close>

lemma delta_match_scan:
  assumes "n \<noteq> 0"
  shows "delta_match h data sigs n =
    (let (ss, toks) = scan h (unat n) sigs \<lparr>ss_position = 0, ss_rest = data, ss_literal = []\<rparr>
     in toks @ map Data (chunks LITERAL_LIMIT (ss_literal ss @ ss_rest ss)))"
proof -
  have bs: "unat n \<noteq> 0" using assms by (simp add: unat_eq_0)
  obtain dm toks where p: "dm_push h (dm_new sigs n) data = (dm, toks)"
    by (cases "dm_push h (dm_new sigs n) data")
  have "dm_inv (unat n) sigs dm" "scan_push h (unat n) sigs (dm_view (dm_new sigs n)) data = (dm_view dm, toks)"
    using dm_push_refines [OF dm_inv_new p] by simp_all
  then show ?thesis
    using p bs by (simp add: delta_match_def dm_finish_view scan_push_def)
      (simp add: dm_view_def dm_new_def more_input_def)
qed

lemma delta_match_zero:
  "delta_match h data sigs 0 = map Data (chunks LITERAL_LIMIT data)"
  by (simp add: delta_match_def dm_push_def dm_new_def dm_finish_def)

text \<open>Data tokens are never empty and never longer than 1 MiB.\<close>

definition data_token_ok :: "delta_token \<Rightarrow> bool" where
  "data_token_ok tok = (case tok of Data d \<Rightarrow> 0 < length d \<and> length d \<le> LITERAL_LIMIT | Match _ \<Rightarrow> True)"

lemma data_token_ok_simps [simp]:
  "data_token_ok (Match i)" "data_token_ok (Data d) \<longleftrightarrow> 0 < length d \<and> length d \<le> LITERAL_LIMIT"
  by (simp_all add: data_token_ok_def)

lemma scan_step_tokens:
  "length (ss_literal ss) < LITERAL_LIMIT \<Longrightarrow> scan_step h bs sigs ss = (ss', toks) \<Longrightarrow>
    length (ss_literal ss') < LITERAL_LIMIT \<and> list_all data_token_ok toks"
  by (auto simp: scan_step_def Let_def LITERAL_LIMIT_def split: option.splits if_splits)

lemma scan_tokens:
  "length (ss_literal ss) < LITERAL_LIMIT \<Longrightarrow> scan h bs sigs ss = (ss', toks) \<Longrightarrow>
    length (ss_literal ss') < LITERAL_LIMIT \<and> list_all data_token_ok toks"
proof (induction h bs sigs ss arbitrary: ss' toks rule: scan.induct)
  case (1 h bs sigs ss)
  show ?case
  proof (cases "bs \<noteq> 0 \<and> bs \<le> length (ss_rest ss)")
    case True
    obtain ss1 t1 where step: "scan_step h bs sigs ss = (ss1, t1)" by (cases "scan_step h bs sigs ss")
    obtain ss2 t2 where rest: "scan h bs sigs ss1 = (ss2, t2)" by (cases "scan h bs sigs ss1")
    have "length (ss_literal ss1) < LITERAL_LIMIT" "list_all data_token_ok t1"
      using scan_step_tokens [OF "1.prems"(1) step] by simp_all
    with "1.IH" [OF True step [symmetric] refl _ rest] "1.prems"(2) show ?thesis
      using scan_go [of bs ss h sigs ss1 t1] True step rest by auto
  next
    case False
    then have "scan h bs sigs ss = (ss, [])" by (intro scan_stop) auto
    with "1.prems" show ?thesis by simp
  qed
qed

lemma chunk_tokens_ok: "list_all data_token_ok (map Data (chunks LITERAL_LIMIT xs))"
  using chunks_lengths [of LITERAL_LIMIT _ xs] by (auto simp: list_all_iff LITERAL_LIMIT_def)

lemma delta_match_tokens_ok:
  "list_all data_token_ok (delta_match h data sigs n)"
proof (cases "n = 0")
  case True
  then show ?thesis by (simp add: delta_match_zero chunk_tokens_ok)
next
  case False
  let ?ss = "\<lparr>ss_position = 0, ss_rest = data, ss_literal = []\<rparr>"
  have "length (ss_literal ?ss) < LITERAL_LIMIT" by (simp add: LITERAL_LIMIT_def)
  from scan_tokens [OF this] False show ?thesis
    by (simp add: delta_match_scan chunk_tokens_ok split: prod.split)
qed

text \<open>
  Every \<open>Data\<close> token the matcher emits carries at least one byte and at most 1 MiB,
  for every source, signature list and block size (0 included).
\<close>

theorem data_tokens_bounded:
  "list_all data_token_ok (delta_match h data sigs n)"
  by (rule delta_match_tokens_ok)

end
