(* ===== verification/Reconstruct.thy ===== *)
theory Reconstruct
  imports Matcher
begin

section \<open>Reconstruction from delta tokens (crates/sync-delta/src/reconstruct.rs)\<close>

text \<open>
  The receiver's side: every token is turned into bytes ready to write or into a range of
  the basis file to read. The round trip ties the three parts of the crate together: what
  the matcher emits against the signatures of a basis rebuilds the source file, provided
  that no window of the source collides with a different block of the basis under the
  truncated BLAKE3.
\<close>

subsection \<open>The code\<close>

datatype reconstruct_step = Ready bytes | NeedBasis u64 u32

record reconstructor =
  re_block_size :: u32
  re_basis_size :: u64

definition re_new :: "u32 \<Rightarrow> u64 \<Rightarrow> reconstructor" where
  "re_new block_size basis_size = \<lparr>re_block_size = block_size, re_basis_size = basis_size\<rparr>"

definition re_push :: "reconstructor \<Rightarrow> delta_token \<Rightarrow> reconstruct_step" where
  "re_push re token =
     (case token of
        Data data \<Rightarrow> Ready data
      | Match block_index \<Rightarrow>
          (let offset = ucast block_index * ucast (re_block_size re) :: u64 in
           if re_basis_size re \<le> offset then Ready []
           else let endp = min (offset + ucast (re_block_size re)) (re_basis_size re)
                in NeedBasis offset (ucast (endp - offset))))"

text \<open>Indexing a slice by a range panics out of bounds: \<open>None\<close>.\<close>

definition slice :: "'a list \<Rightarrow> nat \<Rightarrow> nat \<Rightarrow> 'a list option" where
  "slice xs start endp =
     (if start \<le> endp \<and> endp \<le> length xs then Some (take (endp - start) (drop start xs)) else None)"

fun reconstruct_loop :: "bytes \<Rightarrow> reconstructor \<Rightarrow> delta_token list \<Rightarrow> bytes \<Rightarrow> bytes option" where
  "reconstruct_loop basis_data re [] result = Some result"
| "reconstruct_loop basis_data re (token # tokens) result =
     (case re_push re token of
        Ready bs \<Rightarrow> reconstruct_loop basis_data re tokens (result @ bs)
      | NeedBasis offset len \<Rightarrow>
          (let start = unat offset; endp = start + unat len in
           case slice basis_data start endp of
             None \<Rightarrow> None
           | Some bs \<Rightarrow> reconstruct_loop basis_data re tokens (result @ bs)))"

definition reconstruct :: "bytes \<Rightarrow> delta_token list \<Rightarrow> u32 \<Rightarrow> bytes option" where
  "reconstruct basis_data tokens block_size =
     reconstruct_loop basis_data (re_new block_size (of_nat (length basis_data))) tokens []"

subsection \<open>What a token stands for\<close>

definition token_bytes :: "bytes \<Rightarrow> nat \<Rightarrow> delta_token \<Rightarrow> bytes" where
  "token_bytes basis bs tok =
     (case tok of Data d \<Rightarrow> d | Match i \<Rightarrow> take bs (drop (unat i * bs) basis))"

definition expand :: "bytes \<Rightarrow> nat \<Rightarrow> delta_token list \<Rightarrow> bytes" where
  "expand basis bs toks = concat (map (token_bytes basis bs) toks)"

lemma expand_simps [simp]:
  "expand basis bs [] = []" "expand basis bs (t # ts) = token_bytes basis bs t @ expand basis bs ts"
  "expand basis bs (ts @ us) = expand basis bs ts @ expand basis bs us"
  by (simp_all add: expand_def)

lemma token_bytes_simps [simp]:
  "token_bytes basis bs (Data d) = d"
  "token_bytes basis bs (Match i) = take bs (drop (unat i * bs) basis)"
  by (simp_all add: token_bytes_def)

lemma expand_Data [simp]: "expand basis bs (map Data ds) = concat ds"
  by (simp add: expand_def comp_def)

text \<open>A block's offset and end never wrap in 64 bits, its length never in 32.\<close>

lemma block_offset:
  fixes i n :: u32
  shows "unat (ucast i * ucast n :: u64) = unat i * unat n"
    "unat (ucast i * ucast n + ucast n :: u64) = unat i * unat n + unat n"
proof -
  have i: "unat i \<le> 2 ^ 32 - 1" and n: "unat n \<le> 2 ^ 32 - 1"
    using unsigned_less [of i, where 'a = nat] unsigned_less [of n, where 'a = nat] by simp_all
  have p: "unat i * unat n \<le> (2 ^ 32 - 1) * (2 ^ 32 - 1)"
    using i n by (rule mult_le_mono)
  show m: "unat (ucast i * ucast n :: u64) = unat i * unat n"
    using p by (subst unat_mult_small) (simp_all add: unat_ucast_wider)
  show "unat (ucast i * ucast n + ucast n :: u64) = unat i * unat n + unat n"
    using p n by (subst unat_add_small) (simp_all add: unat_ucast_wider m)
qed

lemma re_push_range:
  assumes "re_push re (Match i) = NeedBasis offset len"
  shows "unat offset = unat i * unat (re_block_size re)"
    "unat len = min (unat (re_block_size re)) (unat (re_basis_size re) - unat offset)"
    "unat offset + unat len \<le> unat (re_basis_size re)" "unat offset < unat (re_basis_size re)"
proof -
  let ?n = "re_block_size re" and ?z = "re_basis_size re"
  let ?o = "ucast i * ucast ?n :: u64"
  let ?e = "min (?o + ucast ?n) ?z"
  have lt: "unat ?o < unat ?z" and off: "offset = ?o" and len: "len = ucast (?e - ?o)"
    using assms by (auto simp: re_push_def Let_def word_le_nat_alt split: if_splits)
  show o: "unat offset = unat i * unat ?n" by (simp add: off block_offset)
  have e: "unat ?e = min (unat offset + unat ?n) (unat ?z)"
    by (simp only: unat_min block_offset o)
  have "?o \<le> ?e"
    using lt by (simp only: word_le_nat_alt e) (simp add: off)
  then have d: "unat (?e - ?o) = min (unat ?n) (unat ?z - unat offset)"
    by (simp only: unat_sub_small e) (use lt in \<open>simp add: off min_diff\<close>)
  have "unat (?e - ?o) < 2 ^ 32"
    unfolding d using unsigned_less [of ?n, where 'a = nat] by simp
  then show l: "unat len = min (unat ?n) (unat ?z - unat offset)"
    by (simp add: len unsigned_ucast_eq take_bit_nat_eq_self d)
  show "unat offset + unat len \<le> unat ?z" "unat offset < unat ?z"
    using lt l off by simp_all
qed

text \<open>
  A range the reconstructor asks the receiver to read starts at the block's offset,
  lies inside the basis file, is not empty and is at most one block long.
\<close>

theorem need_basis_within_basis:
  assumes "re_push (re_new n basis_size) tok = NeedBasis offset len" "n \<noteq> 0"
  shows "unat offset + unat len \<le> unat basis_size \<and> 0 < unat len \<and> unat len \<le> unat n \<and>
    (\<exists>i. tok = Match i \<and> unat offset = unat i * unat n)"
proof -
  obtain i where i: "tok = Match i"
    using assms(1) by (cases tok) (simp_all add: re_push_def)
  have "0 < unat n" using assms(2) by (simp add: unat_gt_0)
  with re_push_range [OF assms(1) [unfolded i]] i show ?thesis
    by (auto simp: re_new_def)
qed

lemma need_basis_within_basis_witness:
  "unat (2048 :: u64) + unat (452 :: u32) \<le> unat (2500 :: u64)"
  using need_basis_within_basis [of 1024 2500 "Match 2" 2048 452]
  by (simp add: re_push_def re_new_def)

lemma re_push_bytes:
  assumes "length basis < 2 ^ 64"
  shows "(case re_push (re_new n (of_nat (length basis))) tok of
      Ready b \<Rightarrow> Some b | NeedBasis off l \<Rightarrow> slice basis (unat off) (unat off + unat l))
    = Some (token_bytes basis (unat n) tok)"
proof (cases tok)
  case (Match i)
  let ?re = "re_new n (of_nat (length basis))"
  have len: "unat (of_nat (length basis) :: u64) = length basis"
    using assms by (simp add: unat_of_nat take_bit_nat_eq_self)
  have fields: "re_block_size ?re = n" "re_basis_size ?re = of_nat (length basis)"
    by (simp_all add: re_new_def)
  show ?thesis
  proof (cases "re_push ?re (Match i)")
    case (Ready b)
    then have "b = []" "length basis \<le> unat i * unat n"
      using len by (auto simp: re_push_def fields Let_def word_le_nat_alt block_offset split: if_splits)
    then show ?thesis using Ready Match by simp
  next
    case (NeedBasis off l)
    note r = re_push_range [OF NeedBasis, unfolded fields len]
    then show ?thesis
      using NeedBasis Match by (simp add: slice_def) (metis length_drop take_all_iff min_def nle_le)
  qed
qed (simp add: re_push_def)

lemma reconstruct_loop_expand:
  "length basis < 2 ^ 64 \<Longrightarrow>
    reconstruct_loop basis (re_new n (of_nat (length basis))) toks res =
      Some (res @ expand basis (unat n) toks)"
proof (induction toks arbitrary: res)
  case (Cons tok toks)
  show ?case
    using re_push_bytes [OF Cons.prems, of n tok] Cons
    by (cases "re_push (re_new n (of_nat (length basis))) tok") simp_all
qed simp

lemma reconstruct_expand:
  "length basis < 2 ^ 64 \<Longrightarrow> reconstruct basis toks n = Some (expand basis (unat n) toks)"
  by (simp add: reconstruct_def reconstruct_loop_expand)

subsection \<open>The round trip\<close>

text \<open>
  No window of the source is confused with a block of the basis by the truncated hash.
  This is what the protocol relies on BLAKE3 for; the rolling checksum needs no assumption.
\<close>

definition no_confusion :: "(bytes \<Rightarrow> bytes) \<Rightarrow> nat \<Rightarrow> bytes \<Rightarrow> bytes \<Rightarrow> bool" where
  "no_confusion h bs basis source \<longleftrightarrow>
     list_all (\<lambda>i. list_all (\<lambda>b. blake3_truncated h (take bs (drop i source)) = blake3_truncated h b
         \<longrightarrow> take bs (drop i source) = b) (chunks bs basis))
       [0..<Suc (length source) - bs]"

lemma no_confusion_iff:
  "no_confusion h bs basis source \<longleftrightarrow>
    (\<forall>i b. i + bs \<le> length source \<longrightarrow> b \<in> set (chunks bs basis) \<longrightarrow>
      blake3_truncated h (take bs (drop i source)) = blake3_truncated h b \<longrightarrow>
      take bs (drop i source) = b)"
proof -
  have "i < Suc (length source) - bs \<longleftrightarrow> i + bs \<le> length source" for i by linarith
  then show ?thesis by (auto simp: no_confusion_def list_all_iff)
qed

lemma no_confusion_drop:
  assumes "no_confusion h bs basis source"
  shows "no_confusion h bs basis (drop k source)"
  unfolding no_confusion_iff
proof (intro allI impI)
  fix i b
  assume i: "i + bs \<le> length (drop k source)" and b: "b \<in> set (chunks bs basis)"
    and eq: "blake3_truncated h (take bs (drop i (drop k source))) = blake3_truncated h b"
  show "take bs (drop i (drop k source)) = b"
  proof (cases "i + k + bs \<le> length source")
    case True
    with assms b eq show ?thesis by (simp add: no_confusion_iff)
  next
    case False
    with i have "bs = 0" by auto
    with b show ?thesis by (simp add: chunks.simps)
  qed
qed

lemma no_confusion_head:
  "no_confusion h bs basis source \<Longrightarrow> bs \<le> length source \<Longrightarrow> b \<in> set (chunks bs basis) \<Longrightarrow>
    blake3_truncated h (take bs source) = blake3_truncated h b \<Longrightarrow> take bs source = b"
  unfolding no_confusion_iff by (drule spec [of _ 0]) simp

lemma scan_step_expand:
  assumes "sigs = map (block_sig h) (chunks bs basis)" "length sigs \<le> 2 ^ 32" "0 < bs"
    "no_confusion h bs basis (ss_rest ss)" "bs \<le> length (ss_rest ss)"
    "scan_step h bs sigs ss = (ss', toks)"
  shows "expand basis bs toks @ ss_literal ss' @ ss_rest ss' = ss_literal ss @ ss_rest ss
    \<and> no_confusion h bs basis (ss_rest ss')"
proof -
  let ?w = "take bs (ss_rest ss)"
  let ?sel = "select_block h (build_sig_table sigs) bs sigs (ss_position ss) (checksum ?w) ?w"
  show ?thesis
  proof (cases ?sel)
    case (Some i)
    have i: "unat i < length sigs" and "bs_strong (sigs ! unat i) = blake3_truncated h ?w"
      using select_block_sound [OF Some assms(2)] by simp_all
    then have "blake3_truncated h ?w = blake3_truncated h (chunks bs basis ! unat i)"
      by (simp add: assms(1) block_sig_def)
    then have "?w = chunks bs basis ! unat i"
      using i by (intro no_confusion_head [OF assms(4,5)]) (simp_all add: assms(1))
    then have "?w = take bs (drop (unat i * bs) basis)"
      using i by (simp add: assms(1) chunks_nth [OF assms(3)])
    then have "take bs (drop (unat i * bs) basis) @ drop bs (ss_rest ss) = ss_rest ss"
      by (metis append_take_drop_id)
    then show ?thesis
      using Some assms(4,6) by (auto simp: scan_step_def no_confusion_drop)
  next
    case None
    have "ss_rest ss \<noteq> []" using assms(3,5) by auto
    then show ?thesis
      using None assms(6) no_confusion_drop [OF assms(4), of 1]
      by (auto simp: scan_step_def Let_def drop_Suc split: if_splits)
  qed
qed

lemma scan_expand:
  "sigs = map (block_sig h) (chunks bs basis) \<Longrightarrow> length sigs \<le> 2 ^ 32 \<Longrightarrow> 0 < bs \<Longrightarrow>
    no_confusion h bs basis (ss_rest ss) \<Longrightarrow> scan h bs sigs ss = (ss', toks) \<Longrightarrow>
    expand basis bs toks @ ss_literal ss' @ ss_rest ss' = ss_literal ss @ ss_rest ss"
proof (induction h bs sigs ss arbitrary: ss' toks rule: scan.induct)
  case (1 h bs sigs ss)
  show ?case
  proof (cases "bs \<le> length (ss_rest ss)")
    case True
    obtain ss1 t1 where step: "scan_step h bs sigs ss = (ss1, t1)" by (cases "scan_step h bs sigs ss")
    obtain ss2 t2 where rest: "scan h bs sigs ss1 = (ss2, t2)" by (cases "scan h bs sigs ss1")
    note ex = scan_step_expand [OF "1.prems"(1-4) True step]
    have "expand basis bs t2 @ ss_literal ss2 @ ss_rest ss2 = ss_literal ss1 @ ss_rest ss1"
      by (rule "1.IH" [OF _ step [symmetric] refl "1.prems"(1-3) _ rest])
        (use True "1.prems"(3) ex in auto)
    moreover have "ss' = ss2" "toks = t1 @ t2"
      using scan_go [of bs ss h sigs ss1 t1] True "1.prems"(3,5) step rest by simp_all
    ultimately show ?thesis using ex by simp
  next
    case False
    with "1.prems"(5) show ?thesis by (simp add: scan_stop)
  qed
qed

lemma chunks_count: "0 < n \<Longrightarrow> length (chunks n xs) \<le> k \<Longrightarrow> length xs \<le> k * n"
  using chunks_length [of n xs] mult_le_mono1 [of "length (chunks n xs)" k n] by linarith

lemma delta_match_expand:
  assumes "n \<noteq> 0" "length (chunks (unat n) basis) \<le> 2 ^ 32" "no_confusion h (unat n) basis source"
  shows "expand basis (unat n) (delta_match h source (map (block_sig h) (chunks (unat n) basis)) n) = source"
proof -
  let ?sigs = "map (block_sig h) (chunks (unat n) basis)"
  let ?ss = "\<lparr>ss_position = 0, ss_rest = source, ss_literal = []\<rparr>"
  have bs: "0 < unat n" using assms(1) by (simp add: unat_gt_0)
  obtain ss toks where sc: "scan h (unat n) ?sigs ?ss = (ss, toks)" by (cases "scan h (unat n) ?sigs ?ss")
  have "expand basis (unat n) toks @ ss_literal ss @ ss_rest ss = source"
    using scan_expand [OF refl _ bs _ sc] assms by simp
  then show ?thesis
    by (simp add: delta_match_scan [OF assms(1)] sc concat_chunks LITERAL_LIMIT_def)
qed

lemma basis_below_u64:
  fixes n :: u32
  assumes "n \<noteq> 0" "length (chunks (unat n) basis) \<le> 2 ^ 32"
  shows "length basis < 2 ^ 64"
proof -
  have "0 < unat n" "unat n \<le> 2 ^ 32 - 1"
    using assms(1) unsigned_less [of n, where 'a = nat] by (simp_all add: unat_gt_0)
  then have "length basis \<le> 2 ^ 32 * (2 ^ 32 - 1)"
    using chunks_count [OF _ assms(2)] mult_le_mono2 [of "unat n" "2 ^ 32 - 1" "2 ^ 32"] by linarith
  then show ?thesis by simp
qed

text \<open>
  C5. The delta round trip: cut the source into any chunks, feed them to a matcher that
  holds the signatures computed from the basis, and reconstruct from the tokens: the
  reconstruction never reads outside the basis and is the source file, byte for byte, as
  long as the basis has at most \<open>2 ^ 32\<close> blocks (the width of a block index) and the
  truncated hash confuses no source window with a different basis block.
\<close>

theorem delta_roundtrip:
  assumes "n \<noteq> 0" "length (chunks (unat n) basis) \<le> 2 ^ 32" "no_confusion h (unat n) basis source"
    "compute_block_signatures h basis n = Some sigs" "concat cs = source"
    "stream_result (dm_stream_push h) (\<lambda>dm. snd (dm_finish h dm)) (dm_new sigs n) cs = Some toks"
  shows "reconstruct basis toks n = Some source"
proof -
  have sigs: "sigs = map (block_sig h) (chunks (unat n) basis)"
    using assms(1,4) by (simp add: compute_signatures_blocks)
  have "Some toks = Some (delta_match h source sigs n)"
    using assms(5,6) matcher.chunking_irrelevant [OF dm_inv_new, where cs = cs and ds = "[source]" and h = h]
    by (simp add: stream_result_def dm_stream_push_def delta_match_def split: prod.splits)
  then show ?thesis
    using delta_match_expand [OF assms(1-3)] basis_below_u64 [OF assms(1,2)]
    by (simp add: sigs reconstruct_expand)
qed

lemma delta_roundtrip_witness:
  "reconstruct [1, 2, 3, 4, 5] (delta_match pad_hash [9, 3, 4, 1, 2, 5]
      (map (block_sig pad_hash) [[1, 2], [3, 4], [5]]) 2) 2 = Some [9, 3, 4, 1, 2, 5]"
proof -
  let ?src = "[9, 3, 4, 1, 2, 5] :: bytes" and ?basis = "[1, 2, 3, 4, 5] :: bytes"
  let ?sigs = "map (block_sig pad_hash) [[1, 2], [3, 4], [5]]"
  have ch: "chunks 2 ?basis = [[1, 2], [3, 4], [5]]"
    by (simp add: chunks.simps)
  show ?thesis
  proof (rule delta_roundtrip [where h = pad_hash and sigs = ?sigs and cs = "[?src]"])
    show "no_confusion pad_hash (unat (2 :: u32)) ?basis ?src"
      by (simp add: no_confusion_def ch) (simp add: blake3_truncated_def STRONG_HASH_LEN_def pad_hash_def)
  qed (simp_all add: ch compute_signatures_blocks stream_result_def dm_stream_push_def delta_match_def
      split: prod.split)
qed

subsection \<open>An unchanged file\<close>

lemma scan_unchanged:
  assumes "0 < bs" "length basis div bs \<le> 2 ^ 32" "sigs = map (block_sig h) (chunks bs basis)"
  shows "k \<le> length basis div bs \<Longrightarrow>
    scan h bs sigs \<lparr>ss_position = (length basis div bs - k) * bs,
        ss_rest = drop ((length basis div bs - k) * bs) basis, ss_literal = []\<rparr> =
      (\<lparr>ss_position = length basis div bs * bs, ss_rest = drop (length basis div bs * bs) basis,
        ss_literal = []\<rparr>,
       map (\<lambda>i. Match (of_nat i)) [length basis div bs - k ..< length basis div bs])"
proof (induction k)
  case 0
  have "length basis - length basis div bs * bs < bs"
    using assms(1) by (metis minus_div_mult_eq_mod mod_less_divisor)
  then show ?case by (simp add: scan_stop)
next
  case (Suc k)
  let ?m = "length basis div bs" and ?j = "length basis div bs - Suc k"
  have j: "?j < ?m" "Suc ?j = ?m - k" using Suc.prems by simp_all
  let ?ss = "\<lparr>ss_position = ?j * bs, ss_rest = drop (?j * bs) basis, ss_literal = []\<rparr>"
  have "Suc ?j * bs \<le> ?m * bs" using j(1) by (intro mult_le_mono1) simp
  also have "?m * bs \<le> length basis" by simp
  finally have fits: "?j * bs + bs \<le> length basis" by (simp add: add.commute)
  have len: "?j < length (chunks bs basis)"
  proof (rule ccontr)
    assume "\<not> ?j < length (chunks bs basis)"
    then have "length (chunks bs basis) * bs \<le> ?j * bs" by simp
    then show False
      using chunks_length [OF assms(1), of basis] fits assms(1) by linarith
  qed
  have "sigs ! ?j = block_sig h (take bs (drop (?j * bs) basis))"
    using len by (simp add: assms(3) chunks_nth [OF assms(1)])
  then have "select_block h (build_sig_table sigs) bs sigs (?j * bs)
      (checksum (take bs (drop (?j * bs) basis))) (take bs (drop (?j * bs) basis)) = Some (of_nat ?j)"
    using len j assms by (intro select_block_same_position) simp_all
  then have "scan_step h bs sigs ?ss = (\<lparr>ss_position = Suc ?j * bs, ss_rest = drop (Suc ?j * bs) basis,
      ss_literal = []\<rparr>, [Match (of_nat ?j)])"
    by (simp add: scan_step_def add.commute)
  then have "scan h bs sigs ?ss = (let (s, t) = scan h bs sigs \<lparr>ss_position = Suc ?j * bs,
      ss_rest = drop (Suc ?j * bs) basis, ss_literal = []\<rparr> in (s, Match (of_nat ?j) # t))"
    using fits assms(1) scan_go [of bs ?ss h sigs] by (simp split: prod.split)
  moreover have "[?j..<?m] = ?j # [Suc ?j..<?m]"
    using j(1) by (simp add: upt_conv_Cons)
  ultimately show ?case
    using Suc.IH Suc.prems unfolding j(2) by simp
qed

text \<open>
  C40. Nothing but block references is sent for unchanged blocks: matching a file against
  its own signatures gives \<open>Match 0, Match 1, ...\<close> for its whole blocks, in order and each
  at its own position, then the incomplete last block as data. No property of the hash is
  needed, and duplicated blocks do not disturb the order.
\<close>

theorem unchanged_file_matches_in_place:
  assumes "n \<noteq> 0" "length basis div unat n \<le> 2 ^ 32" "compute_block_signatures h basis n = Some sigs"
  shows "delta_match h basis sigs n =
    map (\<lambda>i. Match (of_nat i)) [0..<length basis div unat n]
      @ map Data (chunks LITERAL_LIMIT (drop (length basis div unat n * unat n) basis))"
proof -
  have bs: "0 < unat n" using assms(1) by (simp add: unat_gt_0)
  have sigs: "sigs = map (block_sig h) (chunks (unat n) basis)"
    using assms(1,3) by (simp add: compute_signatures_blocks)
  show ?thesis
    using scan_unchanged [OF bs assms(2) sigs, of "length basis div unat n"]
    by (simp add: delta_match_scan [OF assms(1)])
qed

lemma unchanged_file_matches_in_place_witness:
  "delta_match pad_hash [7, 7, 7, 7, 1] (map (block_sig pad_hash) [[7, 7], [7, 7], [1]]) 2
    = [Match 0, Match 1, Data [1]]"
  using unchanged_file_matches_in_place [of 2 "[7, 7, 7, 7, 1]" pad_hash]
  by (simp add: compute_signatures_blocks chunks.simps upt_rec LITERAL_LIMIT_def)

end
