(* ===== verification/ByteResume.thy ===== *)
theory ByteResume
  imports Prelude
begin

section \<open>Byte-level resume (crates/app/src/byte_resume.rs)\<close>

text \<open>
  The interval set of the committed byte ranges of one large file and the store that
  persists it. Offsets are 64-bit words compared as unsigned numbers; the specification
  reads an interval list as the set of offsets it covers. The state file is the state it
  deserialises to, \<open>None\<close> where it is missing or does not parse; serialisation and the file
  system answer through the outcome of a flush.
\<close>

subsection \<open>The interval set\<close>

type_synonym interval_set = "(u64 \<times> u64) list"

fun insert_loop :: "u64 \<Rightarrow> u64 \<Rightarrow> bool \<Rightarrow> (u64 \<times> u64) list \<Rightarrow> interval_set \<Rightarrow> interval_set" where
  "insert_loop ns ne placed result [] = (if placed then result else result @ [(ns, ne)])"
| "insert_loop ns ne placed result ((s, e) # rest) =
     (if e < ns then insert_loop ns ne placed (result @ [(s, e)]) rest
      else if ne < s then
        insert_loop ns ne True ((if placed then result else result @ [(ns, ne)]) @ [(s, e)]) rest
      else insert_loop (min ns s) (max ne e) placed result rest)"

definition is_insert :: "interval_set \<Rightarrow> u64 \<Rightarrow> u64 \<Rightarrow> interval_set" where
  "is_insert set0 start endp = (if endp \<le> start then set0 else insert_loop start endp False [] set0)"


fun missing_loop :: "u64 \<Rightarrow> u64 \<Rightarrow> (u64 \<times> u64) list \<Rightarrow> interval_set \<Rightarrow> (u64 \<times> u64) list" where
  "missing_loop tot cur res [] = (if cur < tot then res @ [(cur, tot)] else res)"
| "missing_loop tot cur res ((s, e) # rest) =
     (if tot \<le> cur then (if cur < tot then res @ [(cur, tot)] else res)
      else let res' = (if cur < s then let endp = min s tot in (if cur < endp then res @ [(cur, endp)] else res)
                       else res)
           in missing_loop tot (max cur e) res' rest)"

definition is_missing :: "interval_set \<Rightarrow> u64 \<Rightarrow> (u64 \<times> u64) list" where
  "is_missing ivs tot = missing_loop tot 0 [] ivs"

definition is_covers :: "interval_set \<Rightarrow> u64 \<Rightarrow> bool" where
  "is_covers ivs tot \<longleftrightarrow> is_missing ivs tot = []"

subsection \<open>Its meaning\<close>

definition ivs_set :: "(u64 \<times> u64) list \<Rightarrow> u64 set" where
  "ivs_set ivs = (\<Union>(s, e) \<in> set ivs. {s..<e})"

definition ivs_ok :: "(u64 \<times> u64) list \<Rightarrow> bool" where
  "ivs_ok ivs \<longleftrightarrow> sorted_wrt (\<lambda>(_, e) (s', _). e < s') ivs \<and> list_all (\<lambda>(s, e). s < e) ivs"

lemma ivs_set_simps [simp]:
  "ivs_set [] = {}" "ivs_set ((s, e) # ivs) = {s..<e} \<union> ivs_set ivs"
  "ivs_set (xs @ ys) = ivs_set xs \<union> ivs_set ys"
  by (simp_all add: ivs_set_def)

lemma ivs_ok_simps [simp]:
  "ivs_ok []" "ivs_ok ((s, e) # ivs) \<longleftrightarrow> s < e \<and> list_all (\<lambda>(s', _). e < s') ivs \<and> ivs_ok ivs"
  by (auto simp: ivs_ok_def list_all_iff)

lemma ivs_ok_snoc:
  "ivs_ok (ivs @ [(s, e)]) \<longleftrightarrow> ivs_ok ivs \<and> list_all (\<lambda>(_, e'). e' < s) ivs \<and> s < e"
  by (auto simp: ivs_ok_def sorted_wrt_append list_all_iff)

text \<open>The loop of \<open>insert\<close> without its accumulator and flag.\<close>

fun insert_spec :: "u64 \<Rightarrow> u64 \<Rightarrow> interval_set \<Rightarrow> interval_set" where
  "insert_spec ns ne [] = [(ns, ne)]"
| "insert_spec ns ne ((s, e) # rest) =
     (if e < ns then (s, e) # insert_spec ns ne rest
      else if ne < s then (ns, ne) # (s, e) # rest
      else insert_spec (min ns s) (max ne e) rest)"

lemma insert_loop_placed:
  "ivs_ok ivs \<Longrightarrow> list_all (\<lambda>(s, _). ne < s) ivs \<Longrightarrow> ns < ne \<Longrightarrow>
    insert_loop ns ne True result ivs = result @ ivs"
proof (induction ivs arbitrary: result)
  case (Cons iv ivs)
  obtain s e where iv: "iv = (s, e)" by (cases iv)
  have "\<not> e < ns" using Cons.prems by (auto simp: iv)
  with Cons show ?case by (simp add: iv)
qed simp

lemma insert_loop_spec:
  "ivs_ok ivs \<Longrightarrow> ns < ne \<Longrightarrow> insert_loop ns ne False result ivs = result @ insert_spec ns ne ivs"
proof (induction ivs arbitrary: ns ne result)
  case (Cons iv ivs)
  obtain s e where iv: "iv = (s, e)" by (cases iv)
  have placed: "ne < s \<Longrightarrow> list_all (\<lambda>(s', _). ne < s') ivs"
    using Cons.prems by (auto simp: iv list_all_iff)
  have "min ns s < max ne e" using Cons.prems by (auto simp: min_def max_def)
  then show ?case
    using Cons placed by (simp add: iv insert_loop_placed)
qed simp

lemma insert_spec_ok:
  "ivs_ok ivs \<Longrightarrow> ns < ne \<Longrightarrow>
    ivs_ok (insert_spec ns ne ivs) \<and> ivs_set (insert_spec ns ne ivs) = {ns..<ne} \<union> ivs_set ivs \<and>
    (\<forall>lo. lo < ns \<longrightarrow> list_all (\<lambda>(s, _). lo < s) ivs \<longrightarrow> list_all (\<lambda>(s, _). lo < s) (insert_spec ns ne ivs))"
proof (induction ivs arbitrary: ns ne)
  case (Cons iv ivs)
  obtain s e where iv: "iv = (s, e)" by (cases iv)
  consider (left) "e < ns" | (right) "\<not> e < ns" "ne < s" | (merge) "\<not> e < ns" "\<not> ne < s" by blast
  then show ?case
  proof cases
    case left
    with Cons show ?thesis by (auto simp: iv)
  next
    case right
    with Cons.prems show ?thesis by (auto simp: iv list_all_iff)
  next
    case merge
    have lt: "min ns s < max ne e" using Cons.prems by (auto simp: min_def max_def)
    have ok: "ivs_ok ivs" "s < e" using Cons.prems by (auto simp: iv)
    have "{min ns s..<max ne e} = {ns..<ne} \<union> {s..<e}"
      using merge Cons.prems ok by (auto simp: min_def max_def)
    with Cons.IH [OF ok(1) lt] merge show ?thesis by (auto simp: iv)
  qed
qed auto

lemma is_insert_ok: "ivs_ok ivs \<Longrightarrow> ivs_ok (is_insert ivs s e)"
  using insert_spec_ok [of ivs s e] by (simp add: is_insert_def insert_loop_spec)

lemma is_insert_set: "ivs_ok ivs \<Longrightarrow> ivs_set (is_insert ivs s e) = ivs_set ivs \<union> {s..<e}"
  using insert_spec_ok [of ivs s e] by (auto simp: is_insert_def insert_loop_spec)



text \<open>
  C39. The interval set stays sorted, disjoint and merged (no two intervals even touch), and
  inserting a range adds exactly its offsets; an empty or reversed range adds nothing.
\<close>

theorem interval_insert:
  assumes "ivs_ok ivs"
  shows "ivs_ok (is_insert ivs s e) \<and> ivs_set (is_insert ivs s e) = ivs_set ivs \<union> {s..<e}"
  using assms by (simp add: is_insert_ok is_insert_set)

lemma interval_insert_witness:
  "ivs_set (is_insert [(0, 4), (8, 12)] 4 8) = ivs_set [(0, 4), (8, 12)] \<union> {4..<8}
    \<and> is_insert [(0, 4), (8, 12)] 4 8 = [(0, 12)]"
  using interval_insert [of "[(0, 4), (8, 12)]" 4 8] by (simp add: is_insert_def)

lemma missing_loop_spec:
  "ivs_ok ivs \<Longrightarrow> list_all (\<lambda>(s, _). cur \<le> s) ivs \<Longrightarrow> ivs_ok res \<Longrightarrow> list_all (\<lambda>(_, e). e < cur) res \<or> res = [] \<Longrightarrow>
    ivs_set (missing_loop tot cur res ivs) = ivs_set res \<union> ({cur..<tot} - ivs_set ivs)"
proof (induction ivs arbitrary: cur res)
  case (Cons iv ivs)
  obtain s e where iv: "iv = (s, e)" by (cases iv)
  show ?case
  proof (cases "tot \<le> cur")
    case True
    then show ?thesis by (auto simp: iv)
  next
    case False
    have cs: "cur \<le> s" "s < e" and ok: "ivs_ok ivs" and later: "list_all (\<lambda>(s', _). e < s') ivs"
      using Cons.prems by (auto simp: iv)
    have m: "max cur e = e" using order_trans [OF cs(1) less_imp_le [OF cs(2)]] by (rule max.absorb2)
    let ?res = "if cur < s then (if cur < min s tot then res @ [(cur, min s tot)] else res) else res"
    have step: "missing_loop tot cur res (iv # ivs) = missing_loop tot e ?res ivs"
      using False by (simp add: iv m Let_def)
    have okres: "ivs_ok ?res" "list_all (\<lambda>(_, e'). e' < e) ?res \<or> ?res = []"
      using Cons.prems(3,4) cs by (auto simp: ivs_ok_snoc list_all_iff min_def)
    have "ivs_set (missing_loop tot e ?res ivs) = ivs_set ?res \<union> ({e..<tot} - ivs_set ivs)"
      using later by (intro Cons.IH ok okres) (auto simp: list_all_iff)
    moreover have "ivs_set ?res = ivs_set res \<union> {cur..<min s tot}"
      using False cs by auto
    moreover have "{cur..<min s tot} \<union> ({e..<tot} - ivs_set ivs) = {cur..<tot} - ivs_set (iv # ivs)"
      using cs later by (auto simp: iv ivs_set_def list_all_iff) (force simp: min_def)+
    ultimately show ?thesis by (simp add: step Un_assoc)
  qed
qed auto

text \<open>
  \<open>missing(total)\<close> is exactly the offsets below \<open>total\<close> that no committed interval
  covers, and \<open>covers\<close> holds exactly when every offset of the file is committed.
\<close>

theorem missing_is_the_complement:
  assumes "ivs_ok ivs"
  shows "ivs_set (is_missing ivs tot) = {0..<tot} - ivs_set ivs
    \<and> (is_covers ivs tot = ({0..<tot} \<subseteq> ivs_set ivs))"
proof -
  have set0: "ivs_set (is_missing ivs tot) = {0..<tot} - ivs_set ivs"
    using missing_loop_spec [OF assms, of 0 "[]" tot] by (simp add: is_missing_def list_all_iff)
  have "is_missing ivs tot = [] \<longleftrightarrow> ivs_set (is_missing ivs tot) = {}"
  proof -
    have pos: "list_all (\<lambda>(s, e). s < e) (missing_loop tot cur res xs)"
      if "list_all (\<lambda>(s, e). s < e) res" for cur res xs
      using that by (induction tot cur res xs rule: missing_loop.induct) (auto simp: Let_def min_def)
    have "list_all (\<lambda>(s, e). s < e) (is_missing ivs tot)"
      unfolding is_missing_def by (rule pos) simp
    then show ?thesis
      by (cases "is_missing ivs tot") auto
  qed
  then show ?thesis
    using set0 by (auto simp: is_covers_def)
qed

lemma missing_is_the_complement_witness:
  "ivs_set (is_missing [(2, 5), (9, 20)] 12) = {0..<12} - ivs_set [(2, 5), (9, 20)]
    \<and> is_missing [(2, 5), (9, 20)] 12 = [(0, 2), (5, 9)]"
  using missing_is_the_complement [of "[(2, 5), (9, 20)]" 12] by (simp add: is_missing_def min_def)

subsection \<open>The store\<close>



definition PART_SUFFIX :: string where
  "PART_SUFFIX = ''.terrasync-part''"


definition is_part_file :: "string \<Rightarrow> bool" where
  "is_part_file path \<longleftrightarrow>
     length PART_SUFFIX \<le> length path \<and> drop (length path - length PART_SUFFIX) path = PART_SUFFIX"

record byte_resume_state =
  br_version :: u32
  br_part_path :: string
  br_src_relative_path :: string
  br_src_size :: u64
  br_src_mtime :: u64
  br_block_size :: u64
  br_completed :: "(u64 \<times> u64) list"

record byte_resume_store =
  bs_part_relative_path :: string
  bs_src_relative_path :: string
  bs_src_size :: u64
  bs_src_mtime :: u64
  bs_block_size :: u64
  bs_completed :: interval_set
  bs_dirty :: nat




definition is_complete :: "byte_resume_store \<Rightarrow> bool" where
  "is_complete store = is_covers (bs_completed store) (bs_src_size store)"



text \<open>\<open>finalize_done\<close> removes the state file; the temporary file is never read.\<close>

definition finalize_done :: "byte_resume_state option \<Rightarrow> byte_resume_state option" where
  "finalize_done file = None"

subsection \<open>Crashes between commits\<close>















end
