(* ===== verification/Observation.thy ===== *)
theory Observation
  imports Prelude
begin

section \<open>Observed entries (crates/task-model/src)\<close>

text \<open>
  The source only sees an \<open>ObservedEntry\<close>, its metadata and its version records through
  accessor methods of the crate data-mover-model, which is not part of the repository. The
  types of entries, metadata and version records are therefore type variables and the
  accessors are the fields of a record \<open>data_model\<close> that every definition takes as its
  first argument. Timestamps are nanoseconds as unbounded integers (\<open>i128\<close>), clamped to
  64 bits exactly where the code clamps them.
\<close>

datatype entry_kind = File | Directory | Symlink | Special

datatype principal = Numeric u32 | Named string

record permission_facts =
  pf_mode :: "u32 option"
  pf_owner :: "principal option"
  pf_group :: "principal option"

record owner_mode =
  om_mode :: u32
  om_uid :: u32
  om_gid :: u32

record ('e, 'v, 'm) data_model =
  path_of :: "'e \<Rightarrow> string"
  kind_of :: "'e \<Rightarrow> entry_kind"
  size_of :: "'e \<Rightarrow> u64 option"
  modified_of :: "'e \<Rightarrow> int option"
  permissions_of :: "'e \<Rightarrow> permission_facts option"
  metadata_of :: "'e \<Rightarrow> 'm"
  history_of :: "'e \<Rightarrow> 'v list option"
  history_latest :: "'e \<Rightarrow> 'v option"
  marker_object_of :: "'e \<Rightarrow> 'e option"
  names_directory_object :: "'e \<Rightarrow> bool"
  same_backend :: "'e \<Rightarrow> 'e \<Rightarrow> bool"
  m_modified :: "'m \<Rightarrow> int option"
  m_accessed :: "'m \<Rightarrow> int option"
  m_created :: "'m \<Rightarrow> int option"
  m_ownership :: "'m \<Rightarrow> owner_mode option"
  m_same_ownership :: "'m \<Rightarrow> 'm \<Rightarrow> bool"
  m_tags :: "'m \<Rightarrow> (string \<times> string) list option"
  m_same_tags :: "'m \<Rightarrow> 'm \<Rightarrow> bool"
  m_default :: 'm
  v_size :: "'v \<Rightarrow> u64 option"
  v_modified :: "'v \<Rightarrow> int option"
  v_metadata :: "'v \<Rightarrow> 'm option"
  v_is_latest :: "'v \<Rightarrow> bool"
  v_is_delete_marker :: "'v \<Rightarrow> bool"
  v_version_id :: "'v \<Rightarrow> string option"

subsection \<open>Items and views (observation.rs)\<close>

record 'e observed_item =
  oi_entry :: 'e
  oi_version_index :: "nat option"

record 'e observed_view =
  ov_entry :: 'e
  ov_version_index :: "nat option"

definition item_view :: "'e observed_item \<Rightarrow> 'e observed_view" where
  "item_view item = \<lparr>ov_entry = oi_entry item, ov_version_index = oi_version_index item\<rparr>"

definition history_count :: "('e, 'v, 'm) data_model \<Rightarrow> 'e \<Rightarrow> nat" where
  "history_count dm e = (case history_of dm e of None \<Rightarrow> 1 | Some records \<Rightarrow> length records)"

definition item_all :: "('e, 'v, 'm) data_model \<Rightarrow> 'e \<Rightarrow> 'e observed_item list" where
  "item_all dm e =
     map (\<lambda>index. \<lparr>oi_entry = e, oi_version_index = map_option (\<lambda>_. index) (history_of dm e)\<rparr>)
       [0..<history_count dm e]"

fun position :: "('a \<Rightarrow> bool) \<Rightarrow> 'a list \<Rightarrow> nat option" where
  "position P [] = None"
| "position P (x # xs) = (if P x then Some 0 else map_option Suc (position P xs))"

definition item_from_entry :: "('e, 'v, 'm) data_model \<Rightarrow> 'e \<Rightarrow> 'e observed_item" where
  "item_from_entry dm e =
     \<lparr>oi_entry = e,
      oi_version_index =
        (case history_of dm e of
           None \<Rightarrow> None
         | Some records \<Rightarrow> if length records = 1 then Some 0 else position (v_is_latest dm) records)\<rparr>"

definition view_payload :: "('e, 'v, 'm) data_model \<Rightarrow> 'e observed_view \<Rightarrow> 'e observed_view" where
  "view_payload dm v =
     (case (ov_version_index v, marker_object_of dm (ov_entry v)) of
        (None, Some marker) \<Rightarrow> \<lparr>ov_entry = marker, ov_version_index = None\<rparr>
      | _ \<Rightarrow> v)"

definition view_all :: "('e, 'v, 'm) data_model \<Rightarrow> 'e \<Rightarrow> 'e observed_view list" where
  "view_all dm e =
     map (\<lambda>index. \<lparr>ov_entry = e, ov_version_index = map_option (\<lambda>_. index) (history_of dm e)\<rparr>)
       [0..<history_count dm e]"

definition view_version :: "('e, 'v, 'm) data_model \<Rightarrow> 'e observed_view \<Rightarrow> 'v option" where
  "view_version dm v =
     (case ov_version_index v of
        None \<Rightarrow> None
      | Some index \<Rightarrow>
          (case history_of dm (ov_entry v) of
             None \<Rightarrow> None
           | Some records \<Rightarrow> if index < length records then Some (records ! index) else None))"

definition view_version_id :: "('e, 'v, 'm) data_model \<Rightarrow> 'e observed_view \<Rightarrow> string" where
  "view_version_id dm v =
     (case view_version dm v of
        None \<Rightarrow> ''''
      | Some record \<Rightarrow> (case v_version_id dm record of None \<Rightarrow> ''null'' | Some i \<Rightarrow> i))"

definition view_path_key :: "('e, 'v, 'm) data_model \<Rightarrow> 'e observed_view \<Rightarrow> string" where
  "view_path_key dm v =
     (if view_version dm v \<noteq> None \<and> kind_of dm (ov_entry v) = Directory
      then path_of dm (ov_entry v) @ ''/'' else path_of dm (ov_entry v))"

definition view_metadata :: "('e, 'v, 'm) data_model \<Rightarrow> 'e observed_view \<Rightarrow> 'm" where
  "view_metadata dm v =
     (case view_version dm v of
        Some version \<Rightarrow> (case v_metadata dm version of Some m \<Rightarrow> m | None \<Rightarrow> m_default dm)
      | None \<Rightarrow> metadata_of dm (ov_entry v))"

definition view_mode :: "('e, 'v, 'm) data_model \<Rightarrow> 'e observed_view \<Rightarrow> u32 option" where
  "view_mode dm v =
     (case m_ownership dm (view_metadata dm v) of
        Some owner \<Rightarrow> Some (om_mode owner)
      | None \<Rightarrow>
          if ov_version_index v = None
          then Option.bind (permissions_of dm (ov_entry v)) pf_mode else None)"

definition numeric_principal :: "principal option \<Rightarrow> u32 option" where
  "numeric_principal p = (case p of Some (Numeric n) \<Rightarrow> Some n | _ \<Rightarrow> None)"

definition view_uid :: "('e, 'v, 'm) data_model \<Rightarrow> 'e observed_view \<Rightarrow> u32 option" where
  "view_uid dm v =
     (case m_ownership dm (view_metadata dm v) of
        Some owner \<Rightarrow> Some (om_uid owner)
      | None \<Rightarrow>
          if ov_version_index v \<noteq> None then None
          else Option.bind (permissions_of dm (ov_entry v)) (\<lambda>p. numeric_principal (pf_owner p)))"

definition view_gid :: "('e, 'v, 'm) data_model \<Rightarrow> 'e observed_view \<Rightarrow> u32 option" where
  "view_gid dm v =
     (case m_ownership dm (view_metadata dm v) of
        Some owner \<Rightarrow> Some (om_gid owner)
      | None \<Rightarrow>
          if ov_version_index v \<noteq> None then None
          else Option.bind (permissions_of dm (ov_entry v)) (\<lambda>p. numeric_principal (pf_group p)))"

definition timestamp_nanos :: "int option \<Rightarrow> int" where
  "timestamp_nanos time =
     (case time of None \<Rightarrow> 0 | Some value \<Rightarrow> max (- (2 ^ 63)) (min value (2 ^ 63 - 1)))"

definition or_else :: "'a option \<Rightarrow> 'a option \<Rightarrow> 'a option" where
  "or_else x y = (case x of Some a \<Rightarrow> Some a | None \<Rightarrow> y)"

definition unwrap_or_default :: "u64 option \<Rightarrow> u64" where
  "unwrap_or_default x = (case x of Some n \<Rightarrow> n | None \<Rightarrow> 0)"

definition view_get_size :: "('e, 'v, 'm) data_model \<Rightarrow> 'e observed_view \<Rightarrow> u64" where
  "view_get_size dm v =
     (case view_version dm v of
        None \<Rightarrow> unwrap_or_default (size_of dm (ov_entry v))
      | Some record \<Rightarrow> unwrap_or_default (v_size dm record))"

definition view_get_is_dir :: "('e, 'v, 'm) data_model \<Rightarrow> 'e observed_view \<Rightarrow> bool" where
  "view_get_is_dir dm v \<longleftrightarrow> kind_of dm (ov_entry v) = Directory"

definition view_get_is_symlink :: "('e, 'v, 'm) data_model \<Rightarrow> 'e observed_view \<Rightarrow> bool" where
  "view_get_is_symlink dm v \<longleftrightarrow> kind_of dm (ov_entry v) = Symlink"

definition view_get_is_regular_file :: "('e, 'v, 'm) data_model \<Rightarrow> 'e observed_view \<Rightarrow> bool" where
  "view_get_is_regular_file dm v \<longleftrightarrow> kind_of dm (ov_entry v) = File"

definition view_get_mtime :: "('e, 'v, 'm) data_model \<Rightarrow> 'e observed_view \<Rightarrow> int" where
  "view_get_mtime dm v =
     timestamp_nanos
       (case view_version dm v of
          None \<Rightarrow> or_else (m_modified dm (metadata_of dm (ov_entry v))) (modified_of dm (ov_entry v))
        | Some record \<Rightarrow> v_modified dm record)"

subsection \<open>Queries on whole entries and items (facts.rs)\<close>

definition ext_get_size :: "('e, 'v, 'm) data_model \<Rightarrow> 'e \<Rightarrow> u64" where
  "ext_get_size dm e = unwrap_or_default (size_of dm e)"

definition ext_get_is_dir :: "('e, 'v, 'm) data_model \<Rightarrow> 'e \<Rightarrow> bool" where
  "ext_get_is_dir dm e \<longleftrightarrow> kind_of dm e = Directory"

definition ext_get_is_symlink :: "('e, 'v, 'm) data_model \<Rightarrow> 'e \<Rightarrow> bool" where
  "ext_get_is_symlink dm e \<longleftrightarrow> kind_of dm e = Symlink"

definition ext_get_is_regular_file :: "('e, 'v, 'm) data_model \<Rightarrow> 'e \<Rightarrow> bool" where
  "ext_get_is_regular_file dm e \<longleftrightarrow> kind_of dm e = File"

definition ext_get_mtime :: "('e, 'v, 'm) data_model \<Rightarrow> 'e \<Rightarrow> int" where
  "ext_get_mtime dm e = timestamp_nanos (or_else (m_modified dm (metadata_of dm e)) (modified_of dm e))"

definition ext_get_atime :: "('e, 'v, 'm) data_model \<Rightarrow> 'e \<Rightarrow> int" where
  "ext_get_atime dm e = timestamp_nanos (m_accessed dm (metadata_of dm e))"

definition ext_get_ctime :: "('e, 'v, 'm) data_model \<Rightarrow> 'e \<Rightarrow> int" where
  "ext_get_ctime dm e = timestamp_nanos (m_created dm (metadata_of dm e))"

definition ext_get_mode :: "('e, 'v, 'm) data_model \<Rightarrow> 'e \<Rightarrow> u32 option" where
  "ext_get_mode dm e =
     or_else (map_option om_mode (m_ownership dm (metadata_of dm e)))
       (Option.bind (permissions_of dm e) pf_mode)"

definition ext_get_uid :: "('e, 'v, 'm) data_model \<Rightarrow> 'e \<Rightarrow> u32 option" where
  "ext_get_uid dm e = view_uid dm \<lparr>ov_entry = e, ov_version_index = None\<rparr>"

definition ext_get_gid :: "('e, 'v, 'm) data_model \<Rightarrow> 'e \<Rightarrow> u32 option" where
  "ext_get_gid dm e = view_gid dm \<lparr>ov_entry = e, ov_version_index = None\<rparr>"

definition ext_get_tags :: "('e, 'v, 'm) data_model \<Rightarrow> 'e \<Rightarrow> (string \<times> string) list option" where
  "ext_get_tags dm e = m_tags dm (metadata_of dm e)"

definition ext_get_version_id :: "('e, 'v, 'm) data_model \<Rightarrow> 'e \<Rightarrow> string option" where
  "ext_get_version_id dm e =
     (case history_of dm e of
        None \<Rightarrow> None
      | Some records \<Rightarrow>
          map_option (\<lambda>record. case v_version_id dm record of None \<Rightarrow> ''null'' | Some i \<Rightarrow> i)
            (if length records = 1 then Some (hd records) else history_latest dm e))"

definition ext_get_is_latest :: "('e, 'v, 'm) data_model \<Rightarrow> 'e \<Rightarrow> bool" where
  "ext_get_is_latest dm e =
     (case history_of dm e of Some (record # _) \<Rightarrow> v_is_latest dm record | _ \<Rightarrow> True)"

definition ext_get_is_delete_marker :: "('e, 'v, 'm) data_model \<Rightarrow> 'e \<Rightarrow> bool" where
  "ext_get_is_delete_marker dm e =
     (case history_of dm e of Some (record # _) \<Rightarrow> v_is_delete_marker dm record | _ \<Rightarrow> False)"

definition item_get_size :: "('e, 'v, 'm) data_model \<Rightarrow> 'e observed_item \<Rightarrow> u64" where
  "item_get_size dm item = view_get_size dm (item_view item)"

definition item_get_is_dir :: "('e, 'v, 'm) data_model \<Rightarrow> 'e observed_item \<Rightarrow> bool" where
  "item_get_is_dir dm item \<longleftrightarrow> kind_of dm (oi_entry item) = Directory"

definition item_get_is_symlink :: "('e, 'v, 'm) data_model \<Rightarrow> 'e observed_item \<Rightarrow> bool" where
  "item_get_is_symlink dm item \<longleftrightarrow> kind_of dm (oi_entry item) = Symlink"

definition item_get_is_regular_file :: "('e, 'v, 'm) data_model \<Rightarrow> 'e observed_item \<Rightarrow> bool" where
  "item_get_is_regular_file dm item \<longleftrightarrow> kind_of dm (oi_entry item) = File"

definition item_get_mtime :: "('e, 'v, 'm) data_model \<Rightarrow> 'e observed_item \<Rightarrow> int" where
  "item_get_mtime dm item = view_get_mtime dm (item_view item)"

definition item_get_atime :: "('e, 'v, 'm) data_model \<Rightarrow> 'e observed_item \<Rightarrow> int" where
  "item_get_atime dm item = timestamp_nanos (m_accessed dm (view_metadata dm (item_view item)))"

definition item_get_ctime :: "('e, 'v, 'm) data_model \<Rightarrow> 'e observed_item \<Rightarrow> int" where
  "item_get_ctime dm item = timestamp_nanos (m_created dm (view_metadata dm (item_view item)))"

definition item_get_mode :: "('e, 'v, 'm) data_model \<Rightarrow> 'e observed_item \<Rightarrow> u32 option" where
  "item_get_mode dm item = view_mode dm (item_view item)"

definition item_get_uid :: "('e, 'v, 'm) data_model \<Rightarrow> 'e observed_item \<Rightarrow> u32 option" where
  "item_get_uid dm item = view_uid dm (item_view item)"

definition item_get_gid :: "('e, 'v, 'm) data_model \<Rightarrow> 'e observed_item \<Rightarrow> u32 option" where
  "item_get_gid dm item = view_gid dm (item_view item)"

definition item_get_tags :: "('e, 'v, 'm) data_model \<Rightarrow> 'e observed_item \<Rightarrow> (string \<times> string) list option" where
  "item_get_tags dm item = m_tags dm (view_metadata dm (item_view item))"

definition item_get_version_id :: "('e, 'v, 'm) data_model \<Rightarrow> 'e observed_item \<Rightarrow> string option" where
  "item_get_version_id dm item =
     map_option (\<lambda>record. case v_version_id dm record of None \<Rightarrow> ''null'' | Some i \<Rightarrow> i)
       (view_version dm (item_view item))"

definition item_get_is_latest :: "('e, 'v, 'm) data_model \<Rightarrow> 'e observed_item \<Rightarrow> bool" where
  "item_get_is_latest dm item =
     (case view_version dm (item_view item) of None \<Rightarrow> True | Some record \<Rightarrow> v_is_latest dm record)"

definition item_get_is_delete_marker :: "('e, 'v, 'm) data_model \<Rightarrow> 'e observed_item \<Rightarrow> bool" where
  "item_get_is_delete_marker dm item =
     (case view_version dm (item_view item) of None \<Rightarrow> False | Some record \<Rightarrow> v_is_delete_marker dm record)"

subsection \<open>Changes and scan events (event.rs, observation.rs, transfer.rs)\<close>

datatype change_kind = DirectoryMarkerRemoved | DataOnly | MetadataOnlyChange | Both

definition as_state_str :: "change_kind \<Rightarrow> string" where
  "as_state_str kind =
     (case kind of
        DirectoryMarkerRemoved \<Rightarrow> ''directory_marker_removed''
      | DataOnly \<Rightarrow> ''data_changed''
      | MetadataOnlyChange \<Rightarrow> ''metadata_changed''
      | Both \<Rightarrow> ''both_changed'')"

definition from_entry_diff :: "('e, 'v, 'm) data_model \<Rightarrow> 'e \<Rightarrow> 'e \<Rightarrow> change_kind option" where
  "from_entry_diff dm from to =
     (let data_changed = ext_get_size dm from \<noteq> ext_get_size dm to \<or> ext_get_mtime dm from \<noteq> ext_get_mtime dm to;
          meta_changed = ext_get_mode dm from \<noteq> ext_get_mode dm to \<or> ext_get_uid dm from \<noteq> ext_get_uid dm to
            \<or> ext_get_gid dm from \<noteq> ext_get_gid dm to
      in case (data_changed, meta_changed) of
           (True, True) \<Rightarrow> Some Both
         | (True, False) \<Rightarrow> Some DataOnly
         | (False, True) \<Rightarrow> Some MetadataOnlyChange
         | (False, False) \<Rightarrow> None)"

datatype error_event = ScanError | CopyError | CopyAclError | CopyXattrError | DeleteError | RenameError
  | SymlinkOpError | PackError | IntegrityCheckError

definition error_event_str :: "error_event \<Rightarrow> string" where
  "error_event_str e =
     (case e of
        ScanError \<Rightarrow> ''scan'' | CopyError \<Rightarrow> ''copy'' | CopyAclError \<Rightarrow> ''copy_acl''
      | CopyXattrError \<Rightarrow> ''copy_xattr'' | DeleteError \<Rightarrow> ''delete'' | RenameError \<Rightarrow> ''rename''
      | SymlinkOpError \<Rightarrow> ''symlink_op'' | PackError \<Rightarrow> ''pack''
      | IntegrityCheckError \<Rightarrow> ''integrity_check'')"

datatype entry_change = ChangeNew | ChangeChanged change_kind

datatype 'e storage_entry_message =
    MsgScanned 'e
  | MsgNew "'e observed_item"
  | MsgChanged "'e observed_item" change_kind
  | MsgDeleted 'e
  | MsgRenamed 'e 'e
  | MsgIntegrityChecked 'e
  | MsgPackaged 'e
  | MsgTarManifest string "'e list"
  | MsgError error_event string "'e option" string

definition change_message :: "entry_change \<Rightarrow> 'e observed_item \<Rightarrow> 'e storage_entry_message" where
  "change_message change item =
     (case change of ChangeNew \<Rightarrow> MsgNew item | ChangeChanged kind \<Rightarrow> MsgChanged item kind)"

datatype 'e scan_event =
    EvNew "'e observed_item"
  | EvCandidate "'e observed_item"
  | EvChanged "'e observed_item" change_kind
  | EvDeleted "'e observed_item"
  | EvRenamed "'e observed_item" "'e observed_item"

definition event_item :: "'e scan_event \<Rightarrow> 'e observed_item" where
  "event_item ev =
     (case ev of
        EvCandidate item \<Rightarrow> item | EvNew item \<Rightarrow> item | EvChanged item _ \<Rightarrow> item
      | EvDeleted item \<Rightarrow> item | EvRenamed _ to \<Rightarrow> to)"

definition event_operation :: "'e scan_event \<Rightarrow> string" where
  "event_operation ev =
     (case ev of
        EvNew _ \<Rightarrow> ''new'' | EvCandidate _ \<Rightarrow> ''candidate_new'' | EvChanged _ kind \<Rightarrow> as_state_str kind
      | EvDeleted _ \<Rightarrow> ''deleted'' | EvRenamed _ _ \<Rightarrow> ''rename'')"

datatype transfer_mode = Checkpoint | Atomic | Direct

definition transfer_mode_from_flags :: "bool \<Rightarrow> bool \<Rightarrow> transfer_mode" where
  "transfer_mode_from_flags resume in_place =
     (if resume then Checkpoint else if in_place then Atomic else Direct)"

subsection \<open>Facts about items and versions\<close>

lemma position_Some:
  "position P xs = Some i \<Longrightarrow> i < length xs \<and> P (xs ! i) \<and> list_all (\<lambda>x. \<not> P x) (take i xs)"
proof (induction xs arbitrary: i)
  case (Cons x xs)
  then show ?case by (cases i) (auto split: if_splits)
qed simp

lemma position_None: "position P xs = None \<longleftrightarrow> list_all (\<lambda>x. \<not> P x) xs"
  by (induction xs) auto

text \<open>
  An item made from an entry always selects a record that exists, and \<open>item_all\<close>
  enumerates exactly the records of the history, in order.
\<close>

lemma item_from_entry_in_range:
  "history_of dm e = Some records \<Longrightarrow> oi_version_index (item_from_entry dm e) = Some i \<Longrightarrow> i < length records"
  by (auto simp: item_from_entry_def dest: position_Some split: if_splits)

lemma item_all_versions:
  "map (\<lambda>item. view_version dm (item_view item)) (item_all dm e) =
    (case history_of dm e of None \<Rightarrow> [None] | Some records \<Rightarrow> map Some records)"
  by (cases "history_of dm e")
    (auto simp: item_all_def history_count_def item_view_def view_version_def intro!: nth_equalityI)

lemma timestamp_nanos_range: "- (2 ^ 63) \<le> timestamp_nanos t \<and> timestamp_nanos t < 2 ^ 63"
  by (simp add: timestamp_nanos_def min_def max_def split: option.split)

lemma from_entry_diff_None:
  "from_entry_diff dm from to = None \<longleftrightarrow>
    ext_get_size dm from = ext_get_size dm to \<and> ext_get_mtime dm from = ext_get_mtime dm to \<and>
    ext_get_mode dm from = ext_get_mode dm to \<and> ext_get_uid dm from = ext_get_uid dm to \<and>
    ext_get_gid dm from = ext_get_gid dm to"
  by (auto simp: from_entry_diff_def Let_def split: bool.split)

lemma version_facts_never_inherited:
  "view_version dm v \<noteq> None \<Longrightarrow> m_ownership dm (view_metadata dm v) = None \<Longrightarrow>
    view_mode dm v = None \<and> view_uid dm v = None \<and> view_gid dm v = None"
  by (auto simp: view_version_def view_mode_def view_uid_def view_gid_def split: option.splits)

text \<open>A concrete entry type for the witnesses: path, directory flag, size and time.\<close>

type_synonym toy_entry = "string \<times> bool \<times> u64 \<times> int"

definition toy_model :: "(toy_entry, unit, unit) data_model" where
  "toy_model = \<lparr>path_of = fst, kind_of = (\<lambda>(_, d, _). if d then Directory else File),
     size_of = (\<lambda>(_, _, z, _). Some z), modified_of = (\<lambda>(_, _, _, t). Some t),
     permissions_of = (\<lambda>_. None), metadata_of = (\<lambda>_. ()), history_of = (\<lambda>_. None),
     history_latest = (\<lambda>_. None), marker_object_of = (\<lambda>_. None),
     names_directory_object = (\<lambda>_. False), same_backend = (\<lambda>_ _. True),
     m_modified = (\<lambda>_. None), m_accessed = (\<lambda>_. None), m_created = (\<lambda>_. None),
     m_ownership = (\<lambda>_. None), m_same_ownership = (\<lambda>_ _. True), m_tags = (\<lambda>_. None),
     m_same_tags = (\<lambda>_ _. True), m_default = (), v_size = (\<lambda>_. None), v_modified = (\<lambda>_. None),
     v_metadata = (\<lambda>_. None), v_is_latest = (\<lambda>_. True), v_is_delete_marker = (\<lambda>_. False),
     v_version_id = (\<lambda>_. None)\<rparr>"

end
