(* ===== verification/Messages.thy ===== *)
theory Messages
  imports Observation
begin

section \<open>The wire messages (crates/transport/src/message.rs, chunk.rs, directory.rs)\<close>

text \<open>
  The two message types of a remote session and the data they carry, with the source's
  constructors in the source's order. A constructor that would clash between the two
  directions carries the prefix \<open>S\<close> (sender to receiver) or \<open>R\<close>. Observed entries are the
  type variable \<open>'e\<close> of theory \<open>Observation\<close>; an \<open>Arc\<close> is the value it shares. An \<open>i32\<close>
  index is a 32-bit word; floats of the session configuration and the progress snapshot
  are only passed along and kept as the opaque type \<open>float_bits\<close> of their 64 bits.
\<close>

type_synonym i32 = "32 word"
type_synonym float_bits = "64 word"
type_synonym session_ndx = u64

subsection \<open>Advertisement and remote transfer\<close>

record data_chunk =
  dc_offset :: u64
  dc_data :: bytes

record 'e ndx_entry =
  ne_ndx :: i32
  ne_entry :: "'e observed_item"

record 'e dir_page =
  dp_dir_path :: string
  dp_ndx_start :: i32
  dp_files :: "'e ndx_entry list"
  dp_subdirs :: "'e ndx_entry list"
  dp_gap_ndx :: i32

record advertised_observation =
  ao_ndx :: session_ndx
  ao_snapshot :: bytes

record observation_page =
  op_sequence :: u64
  op_entries :: "advertised_observation list"

datatype advertisement_failure_scope = EntryScope | BackendSessionScope | RuntimeScope

record advertisement_failure =
  af_scope :: advertisement_failure_scope
  af_path :: "string option"
  af_identity :: "bytes option"
  af_operation :: "string option"
  af_class :: "string option"
  af_transience :: "string option"
  af_diagnostic :: string

datatype advertisement_terminal =
    AdvCompleted u64 u64
  | AdvCancelled u64 u64
  | AdvFailed u64 u64 advertisement_failure

datatype advertisement_event =
    AdvPage observation_page
  | AdvEntryFailure advertisement_failure
  | AdvTerminal advertisement_terminal

record source_qos_snapshot =
  qs_logical_bytes :: u64
  qs_client_streamed_shaped_bytes :: u64
  qs_native_bytes :: u64
  qs_source_read_operations :: u64
  qs_native_requests :: u64
  qs_native_payload_shaped :: bool

datatype remote_transfer_phase = Preflight | Describe | Prepare | RecoveryRegistration
  | RecoveryCompletion | Transfer | CheckpointPhase | Verify | Publish | Metadata

datatype remote_transfer_side = SourceSide | DestinationSide | OrchestrationSide

datatype remote_stage_disposition = NoStage | UnpublishedEphemeral | Recoverable | PublishedCleanupPending

record remote_transfer_failure =
  rf_phase :: remote_transfer_phase
  rf_side :: remote_transfer_side
  rf_stage :: remote_stage_disposition
  rf_final_destination_changed :: bool
  rf_source_qos :: source_qos_snapshot
  rf_diagnostic :: string

datatype remote_source_event =
    RsOffer session_ndx u64 u64 bytes
  | RsPayload session_ndx u64 bytes
  | RsCompleted session_ndx u64 bytes bytes source_qos_snapshot
  | RsFailed session_ndx remote_transfer_failure
  | RsCancelled session_ndx

datatype remote_transfer_terminal =
    RtCompleted session_ndx u64 bytes
  | RtFailed session_ndx remote_transfer_failure
  | RtCancelled session_ndx

datatype remote_destination_event =
    RdTransferRequested session_ndx
  | RdPayloadRequested session_ndx u64 u64
  | RdTerminal remote_transfer_terminal

subsection \<open>Protocol negotiation\<close>

definition PROTOCOL_VERSION :: u32 where
  "PROTOCOL_VERSION = 12"

definition MIN_SUPPORTED_PROTOCOL_VERSION :: u32 where
  "MIN_SUPPORTED_PROTOCOL_VERSION = 12"

datatype hash_algorithm = Blake3

record feature_flags =
  ff_delta :: bool
  ff_acl :: bool
  ff_delete :: bool
  ff_resume :: bool
  ff_xattr :: bool
  ff_rename :: bool
  ff_compression :: bool

definition features_current :: feature_flags where
  "features_current = \<lparr>ff_delta = True, ff_acl = True, ff_delete = True, ff_resume = True,
     ff_xattr = False, ff_rename = False, ff_compression = False\<rparr>"

definition features_intersect :: "feature_flags \<Rightarrow> feature_flags \<Rightarrow> feature_flags" where
  "features_intersect self remote =
     \<lparr>ff_delta = ff_delta self \<and> ff_delta remote, ff_acl = ff_acl self \<and> ff_acl remote,
      ff_delete = ff_delete self \<and> ff_delete remote, ff_resume = ff_resume self \<and> ff_resume remote,
      ff_xattr = False, ff_rename = False, ff_compression = False\<rparr>"

record protocol_handshake =
  ph_protocol_version :: u32
  ph_min_supported_version :: u32
  ph_features :: feature_flags
  ph_hash_algorithm :: hash_algorithm

definition handshake_current :: protocol_handshake where
  "handshake_current = \<lparr>ph_protocol_version = PROTOCOL_VERSION,
     ph_min_supported_version = MIN_SUPPORTED_PROTOCOL_VERSION,
     ph_features = features_current, ph_hash_algorithm = Blake3\<rparr>"

datatype handshake_result = Accepted feature_flags bool | Rejected string

definition negotiate :: "protocol_handshake \<Rightarrow> protocol_handshake \<Rightarrow> handshake_result" where
  "negotiate self remote =
     (if ph_protocol_version remote < ph_min_supported_version self
      then Rejected (''Peer protocol version '' @ show_nat (unat (ph_protocol_version remote))
             @ '' is older than the minimum supported version ''
             @ show_nat (unat (ph_min_supported_version self)))
      else if ph_protocol_version self < ph_min_supported_version remote
      then Rejected (''Local protocol version '' @ show_nat (unat (ph_protocol_version self))
             @ '' is older than the peer'' @ [CHR 0x27] @ ''s minimum supported version ''
             @ show_nat (unat (ph_min_supported_version remote)))
      else Accepted (features_intersect (ph_features self) (ph_features remote)) False)"

record session_config =
  cf_transfer_mode :: transfer_mode
  cf_src_path :: string
  cf_qos :: "string option"
  cf_peak_qos_rate :: float_bits
  cf_iops :: "u32 option"
  cf_enable_integrity_check :: bool
  cf_enable_acl :: bool
  cf_is_source_reserved :: bool
  cf_block_size :: "string option"
  cf_delete_target :: bool
  cf_delta_size_threshold :: "string option"

record wire_signature =
  ws_rolling :: u32
  ws_strong :: bytes

record progress_snapshot =
  ps_receiver_id :: string
  ps_files_transferred :: u64
  ps_dirs_created :: u64
  ps_bytes_transferred :: u64
  ps_files_skipped :: u64
  ps_metadata_only :: u64
  ps_error_count :: u64
  ps_elapsed_secs :: float_bits
  ps_speed_bytes_per_sec :: float_bits

datatype transfer_decision = FullTransfer | DeltaTransfer | MetadataOnly | Skip | Deleted

subsection \<open>The messages\<close>

datatype 'e sender_msg =
    SHandshake protocol_handshake
  | SAuth string
  | SSessionConfig session_config
  | SFilePage "'e dir_page"
  | SFileListError string string
  | SFileListDone
  | SCopyEntry 'e
  | SCreateDir 'e
  | SCreateSymlink 'e string
  | SFileBegin i32
  | SWriteDeleteMarker i32
  | SFileData i32 data_chunk
  | SEndOfFile i32 "string option"
  | SDeltaData i32 bytes
  | SDeltaMatch i32 u32
  | STarPacked 'e "'e list"
  | SSetAcl 'e bytes
  | SEntryError string string "i32 option"
  | STransferDone
  | SAdvertisement advertisement_event
  | SRemoteSource remote_source_event

datatype 'e receiver_msg =
    RHandshakeAck handshake_result
  | RAuthResult bool "string option"
  | RTransferRequest i32 transfer_decision
  | RDeltaTransferRequest i32 u32 "wire_signature list"
  | RMetadataUpdateRequest i32
  | RRequestsDone
  | RClassified 'e transfer_decision
  | REntrySuccess 'e
  | REntryError 'e string
  | RTarSuccess 'e "'e list"
  | RClassifiedObservation i32 transfer_decision
  | RSuccess i32
  | RRedo i32
  | RError i32 string
  | RProgress progress_snapshot
  | RAllDone
  | RCreditGrant u64 "i32 option"
  | RRemoteDestination remote_destination_event

datatype 'e disk_commit_msg =
    DCreateDir 'e
  | DCreateSymlink 'e string
  | DWriteDeleteMarker i32 "'e observed_item"
  | DFileBegin i32 "'e observed_item"
  | DFileChunk i32 data_chunk
  | DFileCommit i32 'e "string option"
  | DDeltaBegin i32 'e u32
  | DDeltaData 'e bytes
  | DDeltaMatch 'e u32
  | DDeltaCommit i32 'e "string option"
  | DTarPacked 'e "'e list"
  | DAbortFile
  | DShutdown

datatype file_outcome = OutcomeSuccess | HashMismatch | SizeMismatch | HardError string

datatype 'e dc_ack = AckEntry "'e receiver_msg" | AckFileOutcome i32 file_outcome

subsection \<open>Logical streams (quic/mux.rs)\<close>

datatype stream_kind = ControlStream | FileListStream | DataStream | AckProgressStream

definition stream_index :: "stream_kind \<Rightarrow> nat" where
  "stream_index kind =
     (case kind of ControlStream \<Rightarrow> 0 | FileListStream \<Rightarrow> 1 | DataStream \<Rightarrow> 2 | AckProgressStream \<Rightarrow> 3)"

definition CLIENT_INITIATED :: "stream_kind list" where
  "CLIENT_INITIATED = [ControlStream, FileListStream, DataStream]"

definition sender_stream_kind :: "'e sender_msg \<Rightarrow> stream_kind" where
  "sender_stream_kind msg =
     (case msg of
        SHandshake _ \<Rightarrow> ControlStream | SAuth _ \<Rightarrow> ControlStream | SSessionConfig _ \<Rightarrow> ControlStream
      | STransferDone \<Rightarrow> ControlStream | SEntryError _ _ _ \<Rightarrow> ControlStream
      | SFilePage _ \<Rightarrow> FileListStream | SFileListError _ _ \<Rightarrow> FileListStream
      | SFileListDone \<Rightarrow> FileListStream | SAdvertisement _ \<Rightarrow> FileListStream
      | SRemoteSource (RsOffer _ _ _ _) \<Rightarrow> FileListStream
      | SCopyEntry _ \<Rightarrow> DataStream | SCreateDir _ \<Rightarrow> DataStream | SCreateSymlink _ _ \<Rightarrow> DataStream
      | SWriteDeleteMarker _ \<Rightarrow> DataStream | SFileBegin _ \<Rightarrow> DataStream | SFileData _ _ \<Rightarrow> DataStream
      | SEndOfFile _ _ \<Rightarrow> DataStream | SDeltaData _ _ \<Rightarrow> DataStream | SDeltaMatch _ _ \<Rightarrow> DataStream
      | STarPacked _ _ \<Rightarrow> DataStream | SSetAcl _ _ \<Rightarrow> DataStream
      | SRemoteSource (RsPayload _ _ _) \<Rightarrow> DataStream
      | SRemoteSource (RsCompleted _ _ _ _ _) \<Rightarrow> DataStream
      | SRemoteSource (RsFailed _ _) \<Rightarrow> DataStream
      | SRemoteSource (RsCancelled _) \<Rightarrow> DataStream)"

definition receiver_stream_kind :: "'e receiver_msg \<Rightarrow> stream_kind" where
  "receiver_stream_kind msg =
     (case msg of
        RHandshakeAck _ \<Rightarrow> ControlStream | RAuthResult _ _ \<Rightarrow> ControlStream
      | RTransferRequest _ _ \<Rightarrow> FileListStream | RDeltaTransferRequest _ _ _ \<Rightarrow> FileListStream
      | RMetadataUpdateRequest _ \<Rightarrow> FileListStream | RClassified _ _ \<Rightarrow> FileListStream
      | RClassifiedObservation _ _ \<Rightarrow> FileListStream | RRequestsDone \<Rightarrow> FileListStream
      | RRemoteDestination (RdTransferRequested _) \<Rightarrow> FileListStream
      | RRemoteDestination (RdPayloadRequested _ _ _) \<Rightarrow> FileListStream
      | REntrySuccess _ \<Rightarrow> AckProgressStream | REntryError _ _ \<Rightarrow> AckProgressStream
      | RTarSuccess _ _ \<Rightarrow> AckProgressStream | RSuccess _ \<Rightarrow> AckProgressStream
      | RRedo _ \<Rightarrow> AckProgressStream | RError _ _ \<Rightarrow> AckProgressStream
      | RProgress _ \<Rightarrow> AckProgressStream | RAllDone \<Rightarrow> AckProgressStream
      | RCreditGrant _ _ \<Rightarrow> AckProgressStream
      | RRemoteDestination (RdTerminal _) \<Rightarrow> AckProgressStream)"

lemma sender_streams_client_initiated: "sender_stream_kind msg \<in> set CLIENT_INITIATED"
  by (simp add: sender_stream_kind_def CLIENT_INITIATED_def split: sender_msg.split remote_source_event.split)

lemma stream_index_inj: "stream_index k = stream_index l \<longleftrightarrow> k = l"
  by (cases k; cases l) (simp_all add: stream_index_def)

subsection \<open>Negotiation\<close>

lemma features_intersect_comm: "features_intersect a b = features_intersect b a"
  by (auto simp: features_intersect_def)

text \<open>
  Negotiation succeeds exactly when each side's version reaches the other's minimum,
  it succeeds for both sides or for none, and both sides compute the same feature set, in
  which a feature is enabled only if both declared it and the reserved ones never.
\<close>

theorem negotiate_symmetric:
  "(\<exists>f. negotiate a b = Accepted f False \<and> negotiate b a = Accepted f False \<and>
      (ff_delta f = (ff_delta (ph_features a) \<and> ff_delta (ph_features b))) \<and>
      (ff_delete f = (ff_delete (ph_features a) \<and> ff_delete (ph_features b))) \<and>
      (ff_acl f = (ff_acl (ph_features a) \<and> ff_acl (ph_features b))) \<and>
      (ff_resume f = (ff_resume (ph_features a) \<and> ff_resume (ph_features b))) \<and>
      \<not> ff_xattr f \<and> \<not> ff_rename f \<and> \<not> ff_compression f)
    = (ph_min_supported_version a \<le> ph_protocol_version b \<and> ph_min_supported_version b \<le> ph_protocol_version a)
   \<and> (ph_min_supported_version a \<le> ph_protocol_version b \<and> ph_min_supported_version b \<le> ph_protocol_version a
    \<or> (\<exists>r r'. negotiate a b = Rejected r \<and> negotiate b a = Rejected r'))"
  by (auto simp: negotiate_def features_intersect_def not_less)

end
