(* ===== verification/FlowControl.thy ===== *)
theory FlowControl
  imports Messages
begin

section \<open>Credit flow control (crates/transport/src/flow_control.rs)\<close>

text \<open>
  The byte credit of one connection: the sender's ledger, the receiver's delayed-grant
  ledger, and the connection they form together as a transition system. An \<open>acquire\<close> that
  has to wait is a poll with the result \<open>AcquirePending\<close>: the code re-enters the loop after
  each notification, so a waiting call is a sequence of polls. Byte counts are 64-bit words.
\<close>

subsection \<open>The code\<close>

datatype transport_error =
    ChannelClosed
  | SendFailed string
  | SerializationError string
  | InvalidCreditConfiguration string
  | CreditAccountingOverflow
  | CreditCostExceedsWindow u64 u64

definition DEFAULT_CREDIT_WINDOW_BYTES :: u64 where
  "DEFAULT_CREDIT_WINDOW_BYTES = 64 * 1024 * 1024"


definition payload_credit_cost :: "bytes \<Rightarrow> u64" where
  "payload_credit_cost payload = of_nat (length payload)"

definition credit_cost :: "('e, 'v, 'm) data_model \<Rightarrow> 'e sender_msg \<Rightarrow> u64 option" where
  "credit_cost dm message =
     (case message of
        SFileData _ chunk \<Rightarrow> Some (payload_credit_cost (dc_data chunk))
      | SDeltaData _ data \<Rightarrow> Some (payload_credit_cost data)
      | STarPacked tar_entry _ \<Rightarrow> Some (ext_get_size dm tar_entry)
      | SRemoteSource (RsPayload _ _ data) \<Rightarrow> Some (payload_credit_cost data)
      | _ \<Rightarrow> None)"


record receiver_credit =
  cr_grant_threshold :: u64
  cr_accepted_pending :: u64

datatype receiver_credit_outcome = Pending | Grant u64


definition receiver_credit_default :: receiver_credit where
  "receiver_credit_default =
     \<lparr>cr_grant_threshold = DEFAULT_CREDIT_WINDOW_BYTES div 2, cr_accepted_pending = 0\<rparr>"

definition record_accepted ::
  "receiver_credit \<Rightarrow> u64 \<Rightarrow> transport_error + (receiver_credit \<times> receiver_credit_outcome)" where
  "record_accepted cr bytes =
     (case checked_add (cr_accepted_pending cr) bytes of
        None \<Rightarrow> Inl CreditAccountingOverflow
      | Some pending \<Rightarrow>
          if pending < cr_grant_threshold cr
          then Inr (cr\<lparr>cr_accepted_pending := pending\<rparr>, Pending)
          else Inr (cr\<lparr>cr_accepted_pending := 0\<rparr>, Grant pending))"

text \<open>\<open>accepted\<close> and \<open>flush\<close> with the messages they send.\<close>

definition credit_accepted ::
  "receiver_credit \<Rightarrow> u64 \<Rightarrow> transport_error + (receiver_credit \<times> 'e receiver_msg list)" where
  "credit_accepted cr bytes =
     (case record_accepted cr bytes of
        Inl e \<Rightarrow> Inl e
      | Inr (cr', Pending) \<Rightarrow> Inr (cr', [])
      | Inr (cr', Grant n) \<Rightarrow> Inr (cr', [RCreditGrant n None]))"

definition take_pending_grant :: "receiver_credit \<Rightarrow> receiver_credit \<times> 'e receiver_msg option" where
  "take_pending_grant cr =
     (cr\<lparr>cr_accepted_pending := 0\<rparr>,
      if 0 < cr_accepted_pending cr then Some (RCreditGrant (cr_accepted_pending cr) None) else None)"

definition credit_flush :: "receiver_credit \<Rightarrow> receiver_credit \<times> 'e receiver_msg list" where
  "credit_flush cr =
     (let (cr', m) = take_pending_grant cr in (cr', case m of None \<Rightarrow> [] | Some msg \<Rightarrow> [msg]))"

definition credit_reset :: "receiver_credit \<Rightarrow> receiver_credit" where
  "credit_reset cr = cr\<lparr>cr_accepted_pending := 0\<rparr>"

record sender_credit =
  cs_available :: u64
  cs_capacity :: u64
  cs_closed :: bool


datatype acquire_result = AcquireErr transport_error | AcquirePending | Acquired sender_credit

definition acquire_poll :: "sender_credit \<Rightarrow> u64 \<Rightarrow> acquire_result" where
  "acquire_poll cs bytes =
     (if cs_capacity cs < bytes then AcquireErr (CreditCostExceedsWindow bytes (cs_capacity cs))
      else if cs_closed cs then AcquireErr (SendFailed ''credit window closed'')
      else if bytes \<le> cs_available cs then Acquired (cs\<lparr>cs_available := cs_available cs - bytes\<rparr>)
      else AcquirePending)"

record grant_outcome =
  go_applied :: u64
  go_discarded :: u64

definition credit_grant :: "sender_credit \<Rightarrow> u64 \<Rightarrow> sender_credit \<times> grant_outcome" where
  "credit_grant cs bytes =
     (let applied = min bytes (saturating_sub (cs_capacity cs) (cs_available cs));
          cs' = (if 0 < applied then cs\<lparr>cs_available := cs_available cs + applied\<rparr> else cs)
      in (cs', \<lparr>go_applied = applied, go_discarded = saturating_sub bytes applied\<rparr>))"

datatype 'e sender_credit_outcome = Consumed grant_outcome | Forward "'e receiver_msg"

definition apply_incoming :: "sender_credit \<Rightarrow> 'e receiver_msg \<Rightarrow> sender_credit \<times> 'e sender_credit_outcome" where
  "apply_incoming cs message =
     (case message of
        RCreditGrant bytes _ \<Rightarrow> (let (cs', out) = credit_grant cs bytes in (cs', Consumed out))
      | _ \<Rightarrow> (cs, Forward message))"

definition credit_close :: "sender_credit \<Rightarrow> sender_credit" where
  "credit_close cs = cs\<lparr>cs_closed := True\<rparr>"

subsection \<open>The sender's ledger\<close>

definition cs_ok :: "sender_credit \<Rightarrow> bool" where
  "cs_ok cs \<longleftrightarrow> 0 < unat (cs_capacity cs) \<and> unat (cs_capacity cs) < 2 ^ 32 \<and>
     unat (cs_available cs) \<le> unat (cs_capacity cs)"




lemma credit_grant_effect:
  assumes "cs_ok cs" "credit_grant cs n = (cs', out)"
  shows "cs_ok cs'" "cs_capacity cs' = cs_capacity cs" "cs_closed cs' = cs_closed cs"
    "unat (cs_available cs') = min (unat (cs_available cs) + unat n) (unat (cs_capacity cs))"
    "unat (go_applied out) = unat (cs_available cs') - unat (cs_available cs)"
    "unat (go_applied out) + unat (go_discarded out) = unat n"
proof -
  define ap where "ap = min n (saturating_sub (cs_capacity cs) (cs_available cs))"
  have ap: "unat ap = min (unat n) (unat (cs_capacity cs) - unat (cs_available cs))"
    by (simp only: ap_def unat_min unat_saturating_sub)
  have cs': "cs' = (if 0 < ap then cs\<lparr>cs_available := cs_available cs + ap\<rparr> else cs)"
    and out: "out = \<lparr>go_applied = ap, go_discarded = saturating_sub n ap\<rparr>"
    using assms(2) by (auto simp: credit_grant_def Let_def ap_def)
  have room: "unat ap \<le> unat (cs_capacity cs) - unat (cs_available cs)" "unat (cs_capacity cs) < 2 ^ 32"
    "unat (cs_available cs) \<le> unat (cs_capacity cs)"
    using assms(1) by (simp_all add: ap cs_ok_def)
  then have "unat (cs_available cs) + unat ap < 2 ^ 32" by linarith
  then have "unat (cs_available cs) + unat ap < 2 ^ LENGTH(64)" by simp
  from unat_add_small [OF this]
  have av: "unat (cs_available cs') = unat (cs_available cs) + unat ap"
    by (cases "0 < ap") (simp_all add: cs' word_less_nat_alt)
  show "cs_capacity cs' = cs_capacity cs" "cs_closed cs' = cs_closed cs" by (simp_all add: cs')
  show "unat (cs_available cs') = min (unat (cs_available cs) + unat n) (unat (cs_capacity cs))"
    unfolding av ap using room(3) by linarith
  then show "cs_ok cs'" using assms(1) by (simp add: cs_ok_def cs')
  show "unat (go_applied out) = unat (cs_available cs') - unat (cs_available cs)"
    by (simp add: out av)
  show "unat (go_applied out) + unat (go_discarded out) = unat n"
    by (simp only: out grant_outcome.simps unat_saturating_sub ap)
qed

text \<open>
  A grant never inflates the window: the available credit after it is the old credit
  plus the granted bytes, capped at the capacity, and what is reported as applied and
  discarded adds up to the grant.
\<close>

theorem grant_is_capped_and_exact:
  assumes "cs_ok cs" "credit_grant cs n = (cs', out)"
  shows "unat (cs_available cs') = min (unat (cs_available cs) + unat n) (unat (cs_capacity cs'))
    \<and> cs_ok cs' \<and> unat (go_applied out) + unat (go_discarded out) = unat n
    \<and> unat (go_applied out) = unat (cs_available cs') - unat (cs_available cs)"
  using credit_grant_effect [OF assms] by simp

lemma grant_is_capped_and_exact_witness:
  "unat (cs_available (fst (credit_grant \<lparr>cs_available = 3, cs_capacity = 8, cs_closed = False\<rparr> 100))) = 8"
  using grant_is_capped_and_exact [of "\<lparr>cs_available = 3, cs_capacity = 8, cs_closed = False\<rparr>" 100]
  by (cases "credit_grant \<lparr>cs_available = 3, cs_capacity = 8, cs_closed = False\<rparr> 100")
    (simp add: cs_ok_def credit_grant_def Let_def saturating_sub_def split: if_splits)

subsection \<open>The receiver's ledger\<close>

lemma record_accepted_effect:
  assumes "unat (cr_accepted_pending cr) + unat n < 2 ^ 64"
  shows "record_accepted cr n =
    (if unat (cr_accepted_pending cr) + unat n < unat (cr_grant_threshold cr)
     then Inr (cr\<lparr>cr_accepted_pending := cr_accepted_pending cr + n\<rparr>, Pending)
     else Inr (cr\<lparr>cr_accepted_pending := 0\<rparr>, Grant (cr_accepted_pending cr + n)))"
  using assms
  by (simp add: record_accepted_def checked_add_def word_less_nat_alt unat_add_small)

text \<open>
  The contract a credit ledger offers the receiving session, as an interface: a state with
  an amount still withheld, accepting bytes and flushing either withhold or release them,
  and no byte is lost or invented.
\<close>

locale credit_window =
  fixes ok :: "'s \<Rightarrow> bool"
    and withheld :: "'s \<Rightarrow> nat"
    and limit :: "'s \<Rightarrow> nat"
    and accept :: "'s \<Rightarrow> nat \<Rightarrow> 's \<times> nat"
    and release :: "'s \<Rightarrow> 's \<times> nat"
  assumes accept_ok: "ok s \<Longrightarrow> withheld s + n < 2 ^ 64 \<Longrightarrow> accept s n = (s', g) \<Longrightarrow>
      ok s' \<and> limit s' = limit s \<and> withheld s' + g = withheld s + n"
    and accept_below: "ok s \<Longrightarrow> withheld s + n < 2 ^ 64 \<Longrightarrow> accept s n = (s', g) \<Longrightarrow> withheld s' < limit s'"
    and release_ok: "ok s \<Longrightarrow> release s = (s', g) \<Longrightarrow> ok s' \<and> limit s' = limit s \<and> withheld s' = 0 \<and> g = withheld s"
begin

fun accept_all :: "'s \<Rightarrow> nat list \<Rightarrow> 's \<times> nat" where
  "accept_all s [] = (s, 0)"
| "accept_all s (n # ns) = (let (s1, g) = accept s n; (s2, g') = accept_all s1 ns in (s2, g + g'))"

text \<open>Over any run of accepts, what is withheld plus what is granted is what came in.\<close>

lemma accept_all_conserves:
  "ok s \<Longrightarrow> withheld s + sum_list ns < 2 ^ 64 \<Longrightarrow> accept_all s ns = (s', g) \<Longrightarrow>
    ok s' \<and> limit s' = limit s \<and> withheld s' + g = withheld s + sum_list ns"
proof (induction ns arbitrary: s s' g)
  case (Cons n ns)
  obtain s1 g1 where 1: "accept s n = (s1, g1)" by (cases "accept s n")
  obtain s2 g2 where 2: "accept_all s1 ns = (s2, g2)" by (cases "accept_all s1 ns")
  have s1: "ok s1" "limit s1 = limit s" "withheld s1 + g1 = withheld s + n"
    using accept_ok [OF Cons.prems(1) _ 1] Cons.prems(2) by simp_all
  from Cons.IH [OF s1(1) _ 2] s1 Cons.prems(2) have
    "ok s2 \<and> limit s2 = limit s1 \<and> withheld s2 + g2 = withheld s1 + sum_list ns" by simp
  with s1 Cons.prems(3) 1 2 show ?case by simp
qed simp

lemma accept_all_withholds_little:
  assumes "ok s" "withheld s < limit s" "withheld s + sum_list ns < 2 ^ 64" "accept_all s ns = (s', g)"
  shows "withheld s' < limit s'"
  using assms
proof (induction ns arbitrary: s g)
  case (Cons n ns)
  obtain s1 g1 where 1: "accept s n = (s1, g1)" by (cases "accept s n")
  then obtain g2 where 2: "accept_all s1 ns = (s', g2)"
    using Cons.prems(4) by (auto split: prod.splits)
  have s1: "ok s1" "withheld s1 \<le> withheld s + n" "withheld s1 < limit s1"
    using accept_ok [OF Cons.prems(1) _ 1] accept_below [OF Cons.prems(1) _ 1] Cons.prems(3) by simp_all
  show ?case
    using Cons.IH [OF s1(1) s1(3) _ 2] s1(2) Cons.prems(3) by simp
qed simp

end

text \<open>The receiver's code is such a ledger; amounts are read as natural numbers.\<close>

definition grant_amount :: "receiver_credit_outcome \<Rightarrow> nat" where
  "grant_amount out = (case out of Pending \<Rightarrow> 0 | Grant n \<Rightarrow> unat n)"

definition nat_accept :: "receiver_credit \<Rightarrow> nat \<Rightarrow> receiver_credit \<times> nat" where
  "nat_accept cr n =
     (case record_accepted cr (of_nat n) of Inl _ \<Rightarrow> (cr, 0) | Inr (cr', out) \<Rightarrow> (cr', grant_amount out))"

definition nat_release :: "receiver_credit \<Rightarrow> receiver_credit \<times> nat" where
  "nat_release cr = (let (cr', m :: unit receiver_msg option) = take_pending_grant cr
     in (cr', case m of Some (RCreditGrant n _) \<Rightarrow> unat n | _ \<Rightarrow> 0))"

definition cr_ok :: "receiver_credit \<Rightarrow> bool" where
  "cr_ok cr \<longleftrightarrow> 0 < unat (cr_grant_threshold cr)"

lemma nat_accept_effect:
  assumes "unat (cr_accepted_pending cr) + n < 2 ^ 64"
  shows "nat_accept cr n =
    (if unat (cr_accepted_pending cr) + n < unat (cr_grant_threshold cr)
     then (cr\<lparr>cr_accepted_pending := cr_accepted_pending cr + of_nat n\<rparr>, 0)
     else (cr\<lparr>cr_accepted_pending := 0\<rparr>, unat (cr_accepted_pending cr) + n))"
proof -
  have n: "unat (of_nat n :: u64) = n"
    using assms by (simp add: unat_of_nat take_bit_nat_eq_self)
  have "unat (cr_accepted_pending cr) + unat (of_nat n :: u64) < 2 ^ LENGTH(64)"
    using assms by (simp add: n)
  from unat_add_small [OF this] assms show ?thesis
    by (simp add: nat_accept_def record_accepted_effect n grant_amount_def)
qed

interpretation receiver_ledger: credit_window cr_ok "\<lambda>cr. unat (cr_accepted_pending cr)"
  "\<lambda>cr. unat (cr_grant_threshold cr)" nat_accept nat_release
proof (unfold_locales, goal_cases)
  case (1 s n s' g)
  have "unat (of_nat n :: u64) = n"
    using 1 by (simp add: unat_of_nat take_bit_nat_eq_self)
  with 1 show ?case
    by (auto simp: nat_accept_effect cr_ok_def unat_add_small split: if_splits)
next
  case (2 s n s' g)
  have "unat (of_nat n :: u64) = n"
    using 2 by (simp add: unat_of_nat take_bit_nat_eq_self)
  with 2 show ?case
    by (auto simp: nat_accept_effect cr_ok_def unat_add_small split: if_splits)
next
  case (3 s s' g)
  then show ?case
    by (auto simp: nat_release_def take_pending_grant_def cr_ok_def word_less_nat_alt split: if_splits)
qed

subsection \<open>A connection\<close>

text \<open>
  Both ledgers and what is between them: the costs of the data messages on their way and
  the grants on their way back. Any sending order, any interleaving and any delay is a
  sequence of these steps.
\<close>

record credit_conn =
  cc_sender :: sender_credit
  cc_receiver :: receiver_credit
  cc_flight :: "u64 list"
  cc_grants :: "u64 list"

definition outcome_grants :: "receiver_credit_outcome \<Rightarrow> u64 list" where
  "outcome_grants out = (case out of Pending \<Rightarrow> [] | Grant n \<Rightarrow> [n])"

inductive credit_step :: "credit_conn \<Rightarrow> credit_conn \<Rightarrow> bool" where
  send: "acquire_poll (cc_sender c) n = Acquired s' \<Longrightarrow>
    credit_step c (c\<lparr>cc_sender := s', cc_flight := cc_flight c @ [n]\<rparr>)"
| accept: "cc_flight c = n # ns \<Longrightarrow> record_accepted (cc_receiver c) n = Inr (r', out) \<Longrightarrow>
    credit_step c (c\<lparr>cc_receiver := r', cc_flight := ns, cc_grants := cc_grants c @ outcome_grants out\<rparr>)"
| deliver: "cc_grants c = g # gs \<Longrightarrow>
    credit_step c (c\<lparr>cc_sender := fst (credit_grant (cc_sender c) g), cc_grants := gs\<rparr>)"
| flush: "take_pending_grant (cc_receiver c) = (r', Some (RCreditGrant n None :: unit receiver_msg)) \<Longrightarrow>
    credit_step c (c\<lparr>cc_receiver := r', cc_grants := cc_grants c @ [n]\<rparr>)"

inductive_cases credit_stepE: "credit_step c d"



definition units :: "u64 list \<Rightarrow> nat" where
  "units ns = sum_list (map unat ns)"

lemma units_simps [simp]:
  "units [] = 0" "units (n # ns) = unat n + units ns" "units (ns @ ms) = units ns + units ms"
  by (simp_all add: units_def)













subsection \<open>When a waiting sender is sure to continue\<close>







end
