(* ===== verification/DestIndex.thy ===== *)
theory DestIndex
  imports Messages "HOL-Library.AList"
begin

section \<open>Index tables of a page (crates/transport/src/message.rs)\<close>

text \<open>
  \<open>NdxTable\<close> maps the session's indices to observed items. \<open>DestIndex\<close> holds the entries of
  one destination directory page: slot 0 the non-directories, slot 1 the logical
  directories, each keyed by path, with a flag that tells whether a source entry claimed
  it. What is left unclaimed is what \<open>--delete-target\<close> removes, so the claims are about
  which entries can be reported as orphans. A \<open>HashMap\<close> is an association list with
  distinct keys; its iteration order is not part of any statement.
\<close>

subsection \<open>The code\<close>

type_synonym 'e ndx_table = "i32 \<Rightarrow> 'e observed_item option"

definition ndx_new :: "'e ndx_table" where
  "ndx_new = (\<lambda>_. None)"

definition ndx_ingest_page :: "'e ndx_table \<Rightarrow> 'e dir_page \<Rightarrow> 'e ndx_table" where
  "ndx_ingest_page table page =
     fold (\<lambda>ns t. t(ne_ndx ns \<mapsto> ne_entry ns)) (dp_subdirs page)
       (fold (\<lambda>nf t. t(ne_ndx nf \<mapsto> ne_entry nf)) (dp_files page) table)"

definition ndx_get :: "'e ndx_table \<Rightarrow> i32 \<Rightarrow> 'e observed_item option" where
  "ndx_get table ndx = table ndx"

type_synonym 'e index_slot = "(string \<times> 'e \<times> bool) list"

record 'e dest_index =
  di_files :: "'e index_slot"
  di_dirs :: "'e index_slot"

definition index_slot :: "('e, 'v, 'm) data_model \<Rightarrow> 'e \<Rightarrow> bool" where
  "index_slot dm e \<longleftrightarrow> kind_of dm e = Directory"

definition slot :: "bool \<Rightarrow> 'e dest_index \<Rightarrow> 'e index_slot" where
  "slot b di = (if b then di_dirs di else di_files di)"

definition set_slot :: "bool \<Rightarrow> 'e index_slot \<Rightarrow> 'e dest_index \<Rightarrow> 'e dest_index" where
  "set_slot b s di = (if b then di\<lparr>di_dirs := s\<rparr> else di\<lparr>di_files := s\<rparr>)"

definition di_new :: "'e dest_index" where
  "di_new = \<lparr>di_files = [], di_dirs = []\<rparr>"

definition di_insert :: "('e, 'v, 'm) data_model \<Rightarrow> 'e \<Rightarrow> 'e dest_index \<Rightarrow> 'e dest_index" where
  "di_insert dm e di =
     (let entries = slot (index_slot dm e) di
      in set_slot (index_slot dm e) ((path_of dm e, e, False) # AList.delete (path_of dm e) entries) di)"

definition data_check :: "('e, 'v, 'm) data_model \<Rightarrow> 'e \<Rightarrow> 'e \<Rightarrow> bool" where
  "data_check dm src dest \<longleftrightarrow>
     ext_get_mtime dm src = ext_get_mtime dm dest \<and> ext_get_size dm src = ext_get_size dm dest"

definition metadata_check :: "('e, 'v, 'm) data_model \<Rightarrow> 'e \<Rightarrow> 'e \<Rightarrow> bool" where
  "metadata_check dm src dest \<longleftrightarrow>
     same_backend dm src dest \<and> m_same_ownership dm (metadata_of dm src) (metadata_of dm dest)
     \<and> m_same_tags dm (metadata_of dm src) (metadata_of dm dest)"

definition set_matched :: "string \<Rightarrow> 'e index_slot \<Rightarrow> 'e index_slot" where
  "set_matched path entries = map (\<lambda>(p, e, m). if p = path then (p, e, True) else (p, e, m)) entries"

definition di_check ::
  "('e, 'v, 'm) data_model \<Rightarrow> 'e \<Rightarrow> 'e dest_index \<Rightarrow> 'e dest_index \<times> transfer_decision" where
  "di_check dm source di =
     (let b = index_slot dm source; entries = slot b di
      in case map_of entries (path_of dm source) of
           None \<Rightarrow> (di, FullTransfer)
         | Some (key, _) \<Rightarrow>
             (set_slot b (set_matched (path_of dm source) entries) di,
              (case (data_check dm source key, metadata_check dm source key) of
                 (True, True) \<Rightarrow> Skip
               | (True, False) \<Rightarrow> MetadataOnly
               | (False, _) \<Rightarrow> DeltaTransfer)))"

definition current_zero_object :: "('e, 'v, 'm) data_model \<Rightarrow> 'e \<Rightarrow> 'e observed_view option" where
  "current_zero_object dm e =
     (if kind_of dm e \<noteq> Directory \<and> \<not> names_directory_object dm e then None
      else case history_of dm e of
             None \<Rightarrow> None
           | Some records \<Rightarrow>
               map_option (\<lambda>index. \<lparr>ov_entry = e, ov_version_index = Some index\<rparr>)
                 (position (\<lambda>record. v_is_latest dm record \<and> \<not> v_is_delete_marker dm record
                     \<and> v_size dm record = Some 0) records))"

definition marker_path :: "('e, 'v, 'm) data_model \<Rightarrow> 'e \<Rightarrow> string" where
  "marker_path dm source =
     (case marker_object_of dm source of
        Some marker \<Rightarrow> path_of dm marker
      | None \<Rightarrow> path_of dm source @ ''/'')"

definition current_directory_marker ::
  "('e, 'v, 'm) data_model \<Rightarrow> 'e \<Rightarrow> 'e dest_index \<Rightarrow> 'e observed_view option" where
  "current_directory_marker dm source di =
     (let in_dirs =
        (case map_of (di_dirs di) (path_of dm source) of
           None \<Rightarrow> None
         | Some (entry, _) \<Rightarrow>
             (case marker_object_of dm entry of
                Some marker \<Rightarrow> Some \<lparr>ov_entry = marker, ov_version_index = None\<rparr>
              | None \<Rightarrow> current_zero_object dm entry))
      in case in_dirs of
           Some view \<Rightarrow> Some view
         | None \<Rightarrow>
             (case map_of (di_files di) (marker_path dm source) of
                None \<Rightarrow> None
              | Some (key, _) \<Rightarrow> current_zero_object dm key))"

definition check_directory_marker ::
  "('e, 'v, 'm) data_model \<Rightarrow> 'e \<Rightarrow> bool \<Rightarrow> 'e dest_index \<Rightarrow> transfer_decision" where
  "check_directory_marker dm source copy_tags di =
     (case marker_object_of dm source of
        None \<Rightarrow> Skip
      | Some marker \<Rightarrow>
          (let destination = current_directory_marker dm source di;
               tags = m_tags dm (metadata_of dm marker)
           in if destination \<noteq> None \<and>
                 (\<not> copy_tags \<or> tags = None
                  \<or> tags = Option.bind destination (\<lambda>view. m_tags dm (view_metadata dm view)))
              then Skip else FullTransfer))"

definition has_directory_marker :: "('e, 'v, 'm) data_model \<Rightarrow> 'e \<Rightarrow> 'e dest_index \<Rightarrow> bool" where
  "has_directory_marker dm entry di \<longleftrightarrow> current_directory_marker dm entry di \<noteq> None"

definition mark_directory_object_matched ::
  "('e, 'v, 'm) data_model \<Rightarrow> 'e \<Rightarrow> 'e dest_index \<Rightarrow> 'e dest_index" where
  "mark_directory_object_matched dm directory di =
     di\<lparr>di_files := set_matched (marker_path dm directory) (di_files di)\<rparr>"

definition mark_matched :: "('e, 'v, 'm) data_model \<Rightarrow> 'e \<Rightarrow> 'e dest_index \<Rightarrow> 'e dest_index" where
  "mark_matched dm source di =
     (let b = index_slot dm source;
          already = (case map_of (slot b di) (path_of dm source) of None \<Rightarrow> False | Some (_, old) \<Rightarrow> old);
          di1 = set_slot b (set_matched (path_of dm source) (slot b di)) di
      in if \<not> already \<and> kind_of dm source = Directory
            \<and> (marker_object_of dm source \<noteq> None \<or> history_of dm source \<noteq> None)
         then mark_directory_object_matched dm source di1 else di1)"

definition unmatched :: "'e index_slot \<Rightarrow> 'e list" where
  "unmatched entries = map (\<lambda>(_, e, _). e) (filter (\<lambda>(_, _, matched). \<not> matched) entries)"

definition orphaned_entries :: "'e dest_index \<Rightarrow> 'e list" where
  "orphaned_entries di = unmatched (di_files di) @ unmatched (di_dirs di)"

subsection \<open>The invariant\<close>

text \<open>Every slot holds distinct keys, and every entry sits under its own path in its own slot.\<close>

definition slot_ok :: "('e, 'v, 'm) data_model \<Rightarrow> bool \<Rightarrow> 'e index_slot \<Rightarrow> bool" where
  "slot_ok dm b entries \<longleftrightarrow> distinct (map fst entries) \<and>
     list_all (\<lambda>(path, e, _). path = path_of dm e \<and> index_slot dm e = b) entries"

definition di_ok :: "('e, 'v, 'm) data_model \<Rightarrow> 'e dest_index \<Rightarrow> bool" where
  "di_ok dm di \<longleftrightarrow> slot_ok dm False (di_files di) \<and> slot_ok dm True (di_dirs di)"

lemma slot_simps [simp]:
  "slot b (set_slot b s di) = s" "b \<noteq> c \<Longrightarrow> slot b (set_slot c s di) = slot b di"
  "slot False di = di_files di" "slot True di = di_dirs di"
  by (auto simp: slot_def set_slot_def)

lemma di_ok_slots: "di_ok dm di \<longleftrightarrow> (\<forall>b. slot_ok dm b (slot b di))"
  by (auto simp: di_ok_def all_bool_eq)

lemma di_ok_set_slot: "di_ok dm di \<Longrightarrow> slot_ok dm b s \<Longrightarrow> di_ok dm (set_slot b s di)"
  by (cases b) (simp_all add: di_ok_def set_slot_def)

lemma set_matched_iff:
  "(p, e, m) \<in> set (set_matched path entries) \<longleftrightarrow>
    (if p = path then m \<and> (\<exists>m'. (p, e, m') \<in> set entries) else (p, e, m) \<in> set entries)"
  by (induction entries) (auto simp: set_matched_def split: if_splits)

lemma set_matched_keys [simp]: "map fst (set_matched path entries) = map fst entries"
  by (induction entries) (auto simp: set_matched_def)

lemma slot_ok_set_matched: "slot_ok dm b entries \<Longrightarrow> slot_ok dm b (set_matched path entries)"
  by (auto simp: slot_ok_def list_all_iff set_matched_iff split: if_splits)

lemma di_ok_new: "di_ok dm di_new"
  by (simp add: di_ok_def slot_ok_def di_new_def)

lemma di_ok_insert: "di_ok dm di \<Longrightarrow> di_ok dm (di_insert dm e di)"
  unfolding di_insert_def Let_def
  by (rule di_ok_set_slot, assumption)
    (auto simp: di_ok_slots slot_ok_def list_all_iff AList.delete_eq distinct_map_filter)

lemma di_ok_set_matched:
  "di_ok dm di \<Longrightarrow> di_ok dm (set_slot b (set_matched path (slot b di)) di)"
  by (rule di_ok_set_slot) (auto simp: di_ok_slots slot_ok_set_matched)

lemma di_ok_check: "di_ok dm di \<Longrightarrow> di_ok dm (fst (di_check dm s di))"
  by (simp add: di_check_def Let_def di_ok_set_matched split: option.split)

lemma di_ok_mark_object: "di_ok dm di \<Longrightarrow> di_ok dm (mark_directory_object_matched dm s di)"
  using di_ok_set_matched [of dm di False "marker_path dm s"]
  by (simp add: mark_directory_object_matched_def set_slot_def)

lemma di_ok_mark_matched: "di_ok dm di \<Longrightarrow> di_ok dm (mark_matched dm s di)"
  by (simp add: mark_matched_def Let_def di_ok_set_matched di_ok_mark_object)

subsection \<open>Claims and orphans\<close>

text \<open>What a source entry claims by \<open>check\<close>: the destination entry of its slot and path.\<close>

definition key_of :: "('e, 'v, 'm) data_model \<Rightarrow> 'e \<Rightarrow> bool \<times> string" where
  "key_of dm e = (index_slot dm e, path_of dm e)"

lemma check_slot_iff:
  "(p, e, m) \<in> set (slot b (fst (di_check dm s di))) \<longleftrightarrow>
    (\<exists>m'. (p, e, m') \<in> set (slot b di) \<and> m = (m' \<or> key_of dm s = (b, p)))"
proof (cases "map_of (slot (index_slot dm s) di) (path_of dm s)")
  case None
  then have "path_of dm s \<notin> fst ` set (slot (index_slot dm s) di)"
    by (simp add: map_of_eq_None_iff)
  with None show ?thesis
    by (force simp: di_check_def key_of_def)
next
  case (Some r)
  then show ?thesis
    by (cases r; cases "b = index_slot dm s")
      (auto simp: di_check_def Let_def key_of_def set_matched_iff)
qed

lemma unmatched_iff: "e \<in> set (unmatched entries) \<longleftrightarrow> (\<exists>p. (p, e, False) \<in> set entries)"
  by (induction entries) (auto simp: unmatched_def)

lemma orphaned_iff: "e \<in> set (orphaned_entries di) \<longleftrightarrow> (\<exists>b p. (p, e, False) \<in> set (slot b di))"
  by (simp add: orphaned_entries_def unmatched_iff ex_bool_eq disj_commute)

lemma checks_slot_iff:
  "(p, e, m) \<in> set (slot b (fold (\<lambda>s di. fst (di_check dm s di)) sources di)) \<longleftrightarrow>
    (\<exists>m'. (p, e, m') \<in> set (slot b di) \<and> m = (m' \<or> (b, p) \<in> key_of dm ` set sources))"
  by (induction sources arbitrary: di) (auto simp: check_slot_iff)

lemma insert_slot_iff:
  "(p, e, m) \<in> set (slot b (di_insert dm d di)) \<longleftrightarrow>
    (if key_of dm d = (b, p) then e = d \<and> \<not> m else (p, e, m) \<in> set (slot b di))"
  by (cases "b = index_slot dm d")
    (auto simp: di_insert_def Let_def key_of_def AList.delete_eq)

lemma inserts_slot_iff:
  "distinct (map (key_of dm) dests) \<Longrightarrow>
    (p, e, m) \<in> set (slot b (fold (di_insert dm) dests di)) \<longleftrightarrow>
    (if (b, p) \<in> key_of dm ` set dests then e \<in> set dests \<and> key_of dm e = (b, p) \<and> \<not> m
     else (p, e, m) \<in> set (slot b di))"
proof (induction dests arbitrary: di)
  case (Cons d dests)
  then show ?case
    by (auto simp: insert_slot_iff image_iff)
qed simp

text \<open>
  What a page reports as orphaned is exactly what the source does not have: after the
  destination listing has been inserted and every source entry of the page checked, an
  entry is orphaned if and only if it is in the listing and no source entry has its path
  and is, like it, a directory or a non-directory. In particular nothing that exists at
  the source can be deleted by \<open>--delete-target\<close>, and the checks themselves never answer
  \<open>Deleted\<close>.
\<close>

theorem orphans_are_exactly_the_unclaimed:
  assumes "distinct (map (key_of dm) dests)"
  shows "set (orphaned_entries (fold (\<lambda>s di. fst (di_check dm s di)) sources
      (fold (di_insert dm) dests di_new)))
    = {e \<in> set dests. key_of dm e \<notin> key_of dm ` set sources}"
proof -
  have empty: "set (slot b di_new) = {}" for b
    by (cases b) (simp_all add: di_new_def)
  have listed: "(p, e, m) \<in> set (slot b (fold (di_insert dm) dests di_new)) \<longleftrightarrow>
      e \<in> set dests \<and> key_of dm e = (b, p) \<and> \<not> m" for p e m b
    by (cases "(b, p) \<in> key_of dm ` set dests") (auto simp: inserts_slot_iff [OF assms] empty image_iff)
  have "e \<in> set (orphaned_entries (fold (\<lambda>s di. fst (di_check dm s di)) sources
      (fold (di_insert dm) dests di_new))) \<longleftrightarrow>
    (\<exists>b p. e \<in> set dests \<and> key_of dm e = (b, p) \<and> (b, p) \<notin> key_of dm ` set sources)" for e
    unfolding orphaned_iff checks_slot_iff listed by blast
  then show ?thesis
    by (auto simp: key_of_def)
qed

lemma orphans_are_exactly_the_unclaimed_witness:
  "let orphans = set (orphaned_entries (fold (\<lambda>s di. fst (di_check toy_model s di))
      [(''a'', False, 1, 5), (''b'', False, 1, 5)]
      (fold (di_insert toy_model) [(''a'', False, 1, 5), (''a'', True, 0, 0), (''c'', False, 9, 9)] di_new)))
    in (''a'', True, 0, 0) \<in> orphans \<and> (''c'', False, 9, 9) \<in> orphans \<and> (''a'', False, 1, 5) \<notin> orphans"
  unfolding Let_def
  by (subst (1 2 3) orphans_are_exactly_the_unclaimed)
    (simp_all add: key_of_def index_slot_def toy_model_def)

text \<open>
  The comparison of a source entry with the index never answers \<open>Deleted\<close>; it asks for
  a full transfer exactly when the index has no entry of that slot and path, and otherwise
  skips data transfer exactly when size and modification time agree.
\<close>

theorem check_decision:
  "(snd (di_check dm s di) = FullTransfer \<longleftrightarrow> map_of (slot (index_slot dm s) di) (path_of dm s) = None) \<and>
   snd (di_check dm s di) \<noteq> Deleted \<and>
   (snd (di_check dm s di) \<in> {Skip, MetadataOnly} \<longleftrightarrow>
    (\<exists>d m. map_of (slot (index_slot dm s) di) (path_of dm s) = Some (d, m) \<and> data_check dm s d))"
  by (auto simp: di_check_def Let_def split: option.splits bool.splits prod.splits)

end
