(* ===== verification/FileCommit.thy ===== *)
theory FileCommit
  imports Messages Reconstruct
begin

section \<open>The file committer (crates/app/src/file_commit.rs, disk_commit.rs)\<close>

text \<open>
  The disk-commit side of the receiver: one file is active at a time, its chunks go to a
  writer task, delta tokens are turned into chunks with adjacent basis references merged
  into one bounded read, and every accepted file reports one outcome. The storage engine
  (data-mover) answers through parameters: the observation of the basis, the preparation
  of the stream, the basis reads, whether the writer still takes chunks, and what the
  finished write reports. The chunks handed to the writer are recorded in \<open>af_sent\<close>.
\<close>

subsection \<open>Safe relative paths (receiver.rs)\<close>

fun path_components :: "string \<Rightarrow> string list" where
  "path_components [] = [[]]"
| "path_components (c # cs) =
     (if c = CHR ''/'' then [] # path_components cs
      else case path_components cs of [] \<Rightarrow> [[c]] | p # ps \<Rightarrow> (c # p) # ps)"

definition validate_relative_path :: "string \<Rightarrow> bool" where
  "validate_relative_path path \<longleftrightarrow>
     \<not> ((case path of c # _ \<Rightarrow> c = CHR ''/'' | [] \<Rightarrow> False)
        \<or> list_ex (\<lambda>c. c = ''..'') (path_components path))"

text \<open>The text of the error, for a path whose \<open>Debug\<close> rendering escapes nothing.\<close>

definition unsafe_path_reason :: "string \<Rightarrow> string" where
  "unsafe_path_reason path = ''Unsafe relative path: '' @ [CHR 0x22] @ path @ [CHR 0x22]"

subsection \<open>State\<close>

record stream_chunk =
  sk_offset :: u64
  sk_data :: bytes
  sk_unchanged_basis :: bool

record delta_ctx =
  dx_reconstructor :: reconstructor
  dx_write_pos :: u64
  dx_pending_basis :: "(u64 \<times> u32 \<times> u64) option"

datatype active_file_mode = ModeFull | ModeDelta delta_ctx

datatype file_transfer_mode = TransferFull | TransferDelta

definition mode_transfer_mode :: "active_file_mode \<Rightarrow> file_transfer_mode" where
  "mode_transfer_mode m = (case m of ModeFull \<Rightarrow> TransferFull | ModeDelta _ \<Rightarrow> TransferDelta)"

record 'e active_file =
  af_ndx :: i32
  af_entry :: "'e observed_item"
  af_size :: u64
  af_mode :: active_file_mode
  af_sent :: "stream_chunk list"

datatype 'e commit_state =
    FcIdle
  | FcFullActive "'e active_file"
  | FcDeltaActive "'e active_file"
  | FcCommitting
  | FcFailed
  | FcCompleted

subsection \<open>Operations\<close>

datatype basis_observation = BasisFound u64 | BasisNotFound | BasisError string

record begin_env =
  be_basis :: basis_observation
  be_prepare_error :: "string option"

text \<open>\<open>begin\<close>: the new state and the outcome reported at once, if any.\<close>

definition fc_begin ::
  "('e, 'v, 'm) data_model \<Rightarrow> begin_env \<Rightarrow> i32 \<Rightarrow> 'e observed_item \<Rightarrow> u32 option \<Rightarrow>
    'e commit_state \<Rightarrow> 'e commit_state \<times> (i32 \<times> file_outcome) list" where
  "fc_begin dm env ndx entry delta_block_size state =
     (case state of
        FcFullActive _ \<Rightarrow> (state, [])
      | FcDeltaActive _ \<Rightarrow> (state, [])
      | FcCommitting \<Rightarrow> (state, [])
      | _ \<Rightarrow>
          if \<not> validate_relative_path (path_of dm (oi_entry entry))
          then (FcFailed, [(ndx, HardError (unsafe_path_reason (path_of dm (oi_entry entry))))])
          else
            (let basis_size = (case delta_block_size of
                   None \<Rightarrow> Inr 0
                 | Some _ \<Rightarrow> (case be_basis env of
                       BasisFound n \<Rightarrow> Inr n | BasisNotFound \<Rightarrow> Inr (item_get_size dm entry)
                     | BasisError e \<Rightarrow> Inl e))
             in case basis_size of
                  Inl e \<Rightarrow> (FcFailed, [(ndx, HardError (''File commit basis describe: '' @ e))])
                | Inr bsize \<Rightarrow>
                    (case be_prepare_error env of
                       Some e \<Rightarrow> (FcFailed, [(ndx, HardError e)])
                     | None \<Rightarrow>
                         (case delta_block_size of
                            None \<Rightarrow>
                              (FcFullActive \<lparr>af_ndx = ndx, af_entry = entry, af_size = item_get_size dm entry,
                                 af_mode = ModeFull, af_sent = []\<rparr>, [])
                          | Some block_size \<Rightarrow>
                              (FcDeltaActive \<lparr>af_ndx = ndx, af_entry = entry, af_size = item_get_size dm entry,
                                 af_mode = ModeDelta \<lparr>dx_reconstructor = re_new block_size bsize,
                                   dx_write_pos = 0, dx_pending_basis = None\<rparr>, af_sent = []\<rparr>, [])))))"

definition send_chunk :: "bool \<Rightarrow> stream_chunk \<Rightarrow> 'e active_file \<Rightarrow> 'e active_file" where
  "send_chunk writer_open chunk af =
     (if writer_open then af\<lparr>af_sent := af_sent af @ [chunk]\<rparr> else af)"

definition fc_push_full :: "bool \<Rightarrow> i32 \<Rightarrow> data_chunk \<Rightarrow> 'e commit_state \<Rightarrow> 'e commit_state" where
  "fc_push_full writer_open ndx chunk state =
     (case state of
        FcFullActive af \<Rightarrow>
          if af_ndx af \<noteq> ndx then state
          else FcFullActive (send_chunk writer_open
                 \<lparr>sk_offset = dc_offset chunk, sk_data = dc_data chunk, sk_unchanged_basis = False\<rparr> af)
      | _ \<Rightarrow> state)"

definition MERGE_LIMIT :: u64 where
  "MERGE_LIMIT = 2 * 1024 * 1024"

text \<open>\<open>flush_basis\<close>: the pending range is read and sent; \<open>Inl\<close> is its error.\<close>

definition flush_basis ::
  "(u64 \<Rightarrow> u32 \<Rightarrow> string + bytes) \<Rightarrow> bool \<Rightarrow> delta_ctx \<Rightarrow> 'e active_file \<Rightarrow>
    string + (delta_ctx \<times> 'e active_file)" where
  "flush_basis read_basis writer_open dx af =
     (case dx_pending_basis dx of
        None \<Rightarrow> Inr (dx, af)
      | Some (offset, len, write_offset) \<Rightarrow>
          (case read_basis offset len of
             Inl e \<Rightarrow> Inl e
           | Inr data \<Rightarrow>
               if \<not> writer_open then Inl ''Delta destination writer closed''
               else Inr (dx\<lparr>dx_pending_basis := None\<rparr>,
                      send_chunk True \<lparr>sk_offset = write_offset, sk_data = data,
                        sk_unchanged_basis = (offset = write_offset)\<rparr> af)))"

definition mergeable :: "delta_ctx \<Rightarrow> reconstruct_step \<Rightarrow> bool" where
  "mergeable dx step =
     (case (step, dx_pending_basis dx) of
        (NeedBasis offset len, Some (start, pending_len, _)) \<Rightarrow>
          start + ucast pending_len = offset \<and> ucast pending_len + ucast len \<le> MERGE_LIMIT
      | _ \<Rightarrow> False)"

definition merge_pending :: "u32 \<Rightarrow> delta_ctx \<Rightarrow> delta_ctx" where
  "merge_pending len dx =
     dx\<lparr>dx_pending_basis := map_option (\<lambda>(start, pending_len, w). (start, pending_len + len, w)) (dx_pending_basis dx),
        dx_write_pos := dx_write_pos dx + ucast len\<rparr>"

definition delta_emit :: "bool \<Rightarrow> reconstruct_step \<Rightarrow> delta_ctx \<Rightarrow> 'e active_file \<Rightarrow> delta_ctx \<times> 'e active_file" where
  "delta_emit writer_open step dx af =
     (case step of
        NeedBasis offset len \<Rightarrow>
          (dx\<lparr>dx_pending_basis := Some (offset, len, dx_write_pos dx),
              dx_write_pos := dx_write_pos dx + ucast len\<rparr>, af)
      | Ready data \<Rightarrow>
          (dx\<lparr>dx_write_pos := dx_write_pos dx + of_nat (length data)\<rparr>,
           send_chunk writer_open \<lparr>sk_offset = dx_write_pos dx, sk_data = data, sk_unchanged_basis = False\<rparr> af))"

definition fc_push_delta ::
  "('e, 'v, 'm) data_model \<Rightarrow> (u64 \<Rightarrow> u32 \<Rightarrow> string + bytes) \<Rightarrow> bool \<Rightarrow> 'e \<Rightarrow> delta_token \<Rightarrow>
    'e commit_state \<Rightarrow> 'e commit_state \<times> (i32 \<times> file_outcome) list" where
  "fc_push_delta dm read_basis writer_open entry token state =
     (case state of
        FcDeltaActive af \<Rightarrow>
          if path_of dm (oi_entry (af_entry af)) \<noteq> path_of dm entry then (state, [])
          else (case af_mode af of
                  ModeFull \<Rightarrow> (state, [])
                | ModeDelta dx \<Rightarrow>
                    (let step = re_push (dx_reconstructor dx) token in
                     if mergeable dx step then
                       (case step of
                          NeedBasis _ len \<Rightarrow> (FcDeltaActive (af\<lparr>af_mode := ModeDelta (merge_pending len dx)\<rparr>), [])
                        | Ready _ \<Rightarrow> (state, []))
                     else
                       (case flush_basis read_basis writer_open dx af of
                          Inl e \<Rightarrow> (FcFailed, [(af_ndx af, HardError (''File commit basis read: '' @ e))])
                        | Inr (dx1, af1) \<Rightarrow>
                            (let (dx2, af2) = delta_emit writer_open step dx1 af1
                             in (FcDeltaActive (af2\<lparr>af_mode := ModeDelta dx2\<rparr>), [])))))
      | _ \<Rightarrow> (state, []))"

text \<open>What the writer and the engine report when the input has been closed.\<close>

record finish_env =
  fe_write_error :: "string option"
  fe_received_size :: u64
  fe_input_ended :: bool
  fe_received_hash :: string
  fe_commit_error :: "string option"

definition finalize_file ::
  "bool \<Rightarrow> finish_env \<Rightarrow> u64 \<Rightarrow> string option \<Rightarrow> file_outcome" where
  "finalize_file enable_integrity_check env sz source_hash =
     (case fe_write_error env of
        Some e \<Rightarrow>
          if sz < fe_received_size env \<or> (fe_input_ended env \<and> fe_received_size env < sz)
          then SizeMismatch else HardError e
      | None \<Rightarrow>
          if fe_received_size env \<noteq> sz then SizeMismatch
          else if enable_integrity_check \<and> source_hash \<noteq> None \<and> Some (fe_received_hash env) \<noteq> source_hash
          then HashMismatch
          else (case fe_commit_error env of Some e \<Rightarrow> HardError e | None \<Rightarrow> OutcomeSuccess))"

definition fc_commit ::
  "('e, 'v, 'm) data_model \<Rightarrow> (u64 \<Rightarrow> u32 \<Rightarrow> string + bytes) \<Rightarrow> bool \<Rightarrow> bool \<Rightarrow> ('e active_file \<Rightarrow> finish_env) \<Rightarrow>
    i32 \<Rightarrow> 'e \<Rightarrow> string option \<Rightarrow> file_transfer_mode \<Rightarrow> 'e commit_state \<Rightarrow>
    'e commit_state \<times> (i32 \<times> file_outcome) list" where
  "fc_commit dm read_basis writer_open integrity finish ndx entry source_hash expected state =
     (let active = (case state of FcFullActive af \<Rightarrow> Some af | FcDeltaActive af \<Rightarrow> Some af | _ \<Rightarrow> None) in
      case active of
        None \<Rightarrow> (state, [])
      | Some af \<Rightarrow>
          if af_ndx af \<noteq> ndx \<or> path_of dm (oi_entry (af_entry af)) \<noteq> path_of dm entry
             \<or> mode_transfer_mode (af_mode af) \<noteq> expected
          then (state, [])
          else
            (let flushed =
               (case (state, af_mode af) of
                  (FcDeltaActive _, ModeDelta dx) \<Rightarrow>
                    (case flush_basis read_basis writer_open dx af of
                       Inl e \<Rightarrow> Inl e | Inr (dx1, af1) \<Rightarrow> Inr (af1\<lparr>af_mode := ModeDelta dx1\<rparr>))
                | _ \<Rightarrow> Inr af)
             in case flushed of
                  Inl e \<Rightarrow> (FcFailed, [(ndx, HardError (''File commit basis read: '' @ e))])
                | Inr af1 \<Rightarrow>
                    (let outcome = finalize_file integrity (finish af1) (af_size af1) source_hash
                     in (case outcome of OutcomeSuccess \<Rightarrow> FcCompleted | _ \<Rightarrow> FcFailed, [(ndx, outcome)]))))"

definition fc_abort :: "'e commit_state \<Rightarrow> 'e commit_state" where
  "fc_abort state = FcIdle"

subsection \<open>What the writer receives\<close>

text \<open>
  The chunks sent so far, followed by the basis range still pending, are the bytes of the
  tokens pushed so far, at consecutive offsets; a chunk marked as unchanged carries what the
  basis already has at that offset.
\<close>

fun chunks_from :: "bytes \<Rightarrow> nat \<Rightarrow> stream_chunk list \<Rightarrow> bool" where
  "chunks_from basis p [] = True"
| "chunks_from basis p (c # cs) =
     (unat (sk_offset c) = p \<and> (sk_unchanged_basis c \<longrightarrow> take (length (sk_data c)) (drop p basis) = sk_data c)
      \<and> chunks_from basis (p + length (sk_data c)) cs)"

definition sent_bytes :: "stream_chunk list \<Rightarrow> bytes" where
  "sent_bytes cs = concat (map sk_data cs)"

lemma sent_bytes_simps [simp]:
  "sent_bytes [] = []" "sent_bytes (cs @ ds) = sent_bytes cs @ sent_bytes ds" "sent_bytes (c # cs) = sk_data c @ sent_bytes cs"
  by (simp_all add: sent_bytes_def)

lemma chunks_from_append:
  "chunks_from basis p (cs @ ds) \<longleftrightarrow> chunks_from basis p cs \<and> chunks_from basis (p + length (sent_bytes cs)) ds"
  by (induction cs arbitrary: p) (auto simp: add.assoc)

definition pending_bytes :: "bytes \<Rightarrow> delta_ctx \<Rightarrow> bytes" where
  "pending_bytes basis dx =
     (case dx_pending_basis dx of None \<Rightarrow> [] | Some (start, len, _) \<Rightarrow> take (unat len) (drop (unat start) basis))"

definition virtual_output :: "bytes \<Rightarrow> delta_ctx \<Rightarrow> 'e active_file \<Rightarrow> bytes" where
  "virtual_output basis dx af = sent_bytes (af_sent af) @ pending_bytes basis dx"

definition delta_ok :: "bytes \<Rightarrow> delta_ctx \<Rightarrow> 'e active_file \<Rightarrow> bool" where
  "delta_ok basis dx af \<longleftrightarrow>
     chunks_from basis 0 (af_sent af) \<and>
     re_basis_size (dx_reconstructor dx) = of_nat (length basis) \<and>
     unat (dx_write_pos dx) = length (virtual_output basis dx af) \<and>
     (case dx_pending_basis dx of
        None \<Rightarrow> True
      | Some (start, len, w) \<Rightarrow> unat w = length (sent_bytes (af_sent af)) \<and> unat start + unat len \<le> length basis)"

definition reads_basis :: "bytes \<Rightarrow> (u64 \<Rightarrow> u32 \<Rightarrow> string + bytes) \<Rightarrow> bool" where
  "reads_basis basis read_basis \<longleftrightarrow>
     (\<forall>offset len. unat offset + unat len \<le> length basis \<longrightarrow>
        read_basis offset len = Inr (take (unat len) (drop (unat offset) basis)))"

lemma flush_basis_ok:
  assumes "delta_ok basis dx af" "reads_basis basis rd"
  obtains dx1 af1 where "flush_basis rd True dx af = Inr (dx1, af1)" "delta_ok basis dx1 af1"
    "dx_pending_basis dx1 = None" "dx_reconstructor dx1 = dx_reconstructor dx"
    "virtual_output basis dx1 af1 = virtual_output basis dx af" "af_mode af1 = af_mode af"
    "af_entry af1 = af_entry af" "af_ndx af1 = af_ndx af" "af_size af1 = af_size af"
proof (cases "dx_pending_basis dx")
  case None
  then show ?thesis
    using assms(1) by (intro that [of dx af]) (simp_all add: flush_basis_def)
next
  case (Some p)
  obtain start len w where p: "p = (start, len, w)" by (cases p) auto
  have w: "unat w = length (sent_bytes (af_sent af))" and range: "unat start + unat len \<le> length basis"
    using assms(1) by (simp_all add: delta_ok_def Some p)
  let ?d = "take (unat len) (drop (unat start) basis)"
  have rd: "rd start len = Inr ?d"
    using assms(2) range by (simp add: reads_basis_def)
  have ld: "length ?d = unat len" using range by simp
  let ?dx = "dx\<lparr>dx_pending_basis := None\<rparr>"
  let ?af = "send_chunk True \<lparr>sk_offset = w, sk_data = ?d, sk_unchanged_basis = (start = w)\<rparr> af"
  have out: "virtual_output basis ?dx ?af = virtual_output basis dx af"
    by (simp add: virtual_output_def pending_bytes_def Some p send_chunk_def)
  have "delta_ok basis ?dx ?af"
    using assms(1) out w ld by (auto simp: delta_ok_def chunks_from_append send_chunk_def Some p)
  then show ?thesis
    by (intro that [of ?dx ?af]) (simp_all add: flush_basis_def Some p rd out send_chunk_def
        virtual_output_def pending_bytes_def)
qed

lemma re_push_token:
  assumes "re_basis_size re = of_nat (length basis)" "length basis < 2 ^ 64" "bs = unat (re_block_size re)"
  shows "case re_push re tok of
      Ready b \<Rightarrow> token_bytes basis bs tok = b
    | NeedBasis off l \<Rightarrow> unat off + unat l \<le> length basis \<and>
        token_bytes basis bs tok = take (unat l) (drop (unat off) basis)"
proof -
  have re: "re = re_new (re_block_size re) (of_nat (length basis))"
    using assms(1) by (simp add: re_new_def)
  from re_push_bytes [OF assms(2), of "re_block_size re" tok] show ?thesis
    unfolding re [symmetric] assms(3)
    by (auto simp: slice_def split: reconstruct_step.splits if_splits)
qed

lemma take_extend:
  "take m (drop i xs) @ take n (drop (i + m) xs) = take (m + n) (drop i xs)"
  by (simp add: take_add add.commute)

lemma merge_ok:
  assumes "delta_ok basis dx af" "mergeable dx (NeedBasis off l)" "unat off + unat l \<le> length basis"
    "length (virtual_output basis dx af) + unat l < 2 ^ 64" "length basis < 2 ^ 64"
  shows "delta_ok basis (merge_pending l dx) af \<and>
    virtual_output basis (merge_pending l dx) af =
      virtual_output basis dx af @ take (unat l) (drop (unat off) basis)"
proof -
  obtain start pl w where p: "dx_pending_basis dx = Some (start, pl, w)"
    and adj: "start + ucast pl = off" and lim: "ucast pl + ucast l \<le> MERGE_LIMIT"
    using assms(2) by (auto simp: mergeable_def split: option.splits)
  have b: "unat start + unat pl \<le> length basis" "unat w = length (sent_bytes (af_sent af))"
    using assms(1) by (simp_all add: delta_ok_def p)
  have ul: "unat (ucast pl :: u64) = unat pl" "unat (ucast l :: u64) = unat l"
    by (simp_all add: unat_ucast_wider)
  have "unat pl < 2 ^ 32" "unat l < 2 ^ 32"
    using unsigned_less [of pl, where 'a = nat] unsigned_less [of l, where 'a = nat] by simp_all
  then have s: "unat (ucast pl + ucast l :: u64) = unat pl + unat l"
    by (subst unat_add_small) (simp_all add: ul)
  have "unat pl + unat l \<le> 2 * 1024 * 1024"
    using lim unfolding word_le_nat_alt s by (simp add: MERGE_LIMIT_def)
  then have pll: "unat (pl + l) = unat pl + unat l"
    by (subst unat_add_small) simp_all
  have off: "unat off = unat start + unat pl"
    using b(1) assms(5) by (subst adj [symmetric], subst unat_add_small) (simp_all add: ul)
  have vo: "virtual_output basis (merge_pending l dx) af =
      virtual_output basis dx af @ take (unat l) (drop (unat off) basis)"
    by (simp add: virtual_output_def pending_bytes_def merge_pending_def p pll off take_extend)
  have wp: "unat (dx_write_pos dx + ucast l) = unat (dx_write_pos dx) + unat l"
    using assms(1,4) by (subst unat_add_small) (simp_all add: ul delta_ok_def)
  have "delta_ok basis (merge_pending l dx) af"
    using assms(1,3) b vo wp off
    by (simp add: delta_ok_def) (simp add: merge_pending_def p pll)
  with vo show ?thesis by simp
qed

lemma delta_emit_ok:
  assumes "delta_ok basis dx af" "dx_pending_basis dx = None" "length basis < 2 ^ 64"
    "case step of Ready b \<Rightarrow> b = tb
      | NeedBasis off l \<Rightarrow> unat off + unat l \<le> length basis \<and> take (unat l) (drop (unat off) basis) = tb"
    "length (virtual_output basis dx af) + length tb < 2 ^ 64" "delta_emit True step dx af = (dx', af')"
  shows "delta_ok basis dx' af' \<and> virtual_output basis dx' af' = virtual_output basis dx af @ tb \<and>
    dx_reconstructor dx' = dx_reconstructor dx \<and> af_entry af' = af_entry af \<and> af_ndx af' = af_ndx af \<and>
    af_size af' = af_size af"
proof (cases step)
  case (Ready b)
  then have tb: "b = tb" using assms(4) by simp
  have len: "unat (of_nat (length tb) :: u64) = length tb"
    using assms(5) by (simp add: unat_of_nat take_bit_nat_eq_self)
  have "unat (dx_write_pos dx + of_nat (length tb)) = unat (dx_write_pos dx) + length tb"
    using assms(1,5) by (subst unat_add_small) (simp_all add: len delta_ok_def)
  then show ?thesis
    using assms(1,2,6) Ready tb
    by (auto simp: delta_emit_def send_chunk_def delta_ok_def virtual_output_def pending_bytes_def
        chunks_from_append)
next
  case (NeedBasis off l)
  have l: "unat l = length tb" using assms(4) NeedBasis by auto
  have "unat (dx_write_pos dx + ucast l) = unat (dx_write_pos dx) + unat l"
    using assms(1,5) l by (subst unat_add_small) (simp_all add: unat_ucast_wider delta_ok_def)
  then show ?thesis
    using assms(1,2,4,6) NeedBasis l
    by (auto simp: delta_emit_def delta_ok_def virtual_output_def pending_bytes_def)
qed

text \<open>One token: the state stays active and its bytes are appended.\<close>

definition active_delta :: "bytes \<Rightarrow> nat \<Rightarrow> i32 \<Rightarrow> 'e observed_item \<Rightarrow> u64 \<Rightarrow> bytes \<Rightarrow> 'e commit_state \<Rightarrow> bool" where
  "active_delta basis bs ndx item sz out state \<longleftrightarrow>
     (\<exists>af dx. state = FcDeltaActive af \<and> af_mode af = ModeDelta dx \<and> af_ndx af = ndx \<and> af_entry af = item \<and>
        af_size af = sz \<and> unat (re_block_size (dx_reconstructor dx)) = bs \<and>
        delta_ok basis dx af \<and> virtual_output basis dx af = out)"

lemma delta_ok_mode [simp]: "delta_ok basis dx (af\<lparr>af_mode := m\<rparr>) = delta_ok basis dx af"
  by (simp add: delta_ok_def virtual_output_def split: option.split)

lemma virtual_output_mode [simp]: "virtual_output basis dx (af\<lparr>af_mode := m\<rparr>) = virtual_output basis dx af"
  by (simp add: virtual_output_def)

lemma fc_push_delta_active:
  assumes "active_delta basis bs ndx item sz out state" "path_of dm (oi_entry item) = path_of dm entry"
    "reads_basis basis rd" "length basis < 2 ^ 64" "length out + length (token_bytes basis bs tok) < 2 ^ 64"
  shows "active_delta basis bs ndx item sz (out @ token_bytes basis bs tok)
      (fst (fc_push_delta dm rd True entry tok state)) \<and> snd (fc_push_delta dm rd True entry tok state) = []"
proof -
  obtain af dx where st: "state = FcDeltaActive af" "af_mode af = ModeDelta dx" "af_ndx af = ndx"
    "af_entry af = item" "af_size af = sz" "unat (re_block_size (dx_reconstructor dx)) = bs"
    and ok: "delta_ok basis dx af" and out: "virtual_output basis dx af = out"
    using assms(1) by (auto simp: active_delta_def)
  let ?step = "re_push (dx_reconstructor dx) tok" and ?tb = "token_bytes basis bs tok"
  have re: "re_basis_size (dx_reconstructor dx) = of_nat (length basis)"
    using ok by (simp add: delta_ok_def)
  note tok = re_push_token [OF re assms(4) st(6) [symmetric], of tok]
  show ?thesis
  proof (cases "mergeable dx ?step")
    case True
    then obtain off l where step: "?step = NeedBasis off l"
      by (cases ?step) (auto simp: mergeable_def)
    then have tb: "unat off + unat l \<le> length basis" "?tb = take (unat l) (drop (unat off) basis)"
      using tok by simp_all
    then have "length out + unat l < 2 ^ 64" using assms(5) by simp
    then have "delta_ok basis (merge_pending l dx) af \<and> virtual_output basis (merge_pending l dx) af = out @ ?tb"
      using merge_ok [OF ok, of off l] True step tb out assms(4) by simp
    moreover have "dx_reconstructor (merge_pending l dx) = dx_reconstructor dx"
      by (simp add: merge_pending_def)
    ultimately show ?thesis
      using True step st assms(2) by (simp add: fc_push_delta_def active_delta_def)
  next
    case False
    obtain dx1 af1 where f: "flush_basis rd True dx af = Inr (dx1, af1)" "delta_ok basis dx1 af1"
      "dx_pending_basis dx1 = None" "dx_reconstructor dx1 = dx_reconstructor dx"
      "virtual_output basis dx1 af1 = virtual_output basis dx af" "af_mode af1 = af_mode af"
      "af_entry af1 = af_entry af" "af_ndx af1 = af_ndx af" "af_size af1 = af_size af"
      using flush_basis_ok [OF ok assms(3)] by metis
    obtain dx2 af2 where e: "delta_emit True ?step dx1 af1 = (dx2, af2)"
      by (cases "delta_emit True ?step dx1 af1")
    have "delta_ok basis dx2 af2 \<and> virtual_output basis dx2 af2 = virtual_output basis dx1 af1 @ ?tb \<and>
      dx_reconstructor dx2 = dx_reconstructor dx1 \<and> af_entry af2 = af_entry af1 \<and> af_ndx af2 = af_ndx af1 \<and>
      af_size af2 = af_size af1"
      by (rule delta_emit_ok [OF f(2,3) assms(4) _ _ e])
        (use tok f(5) out assms(5) in \<open>auto split: reconstruct_step.splits\<close>)
    then show ?thesis
      using False st assms(2) f e out by (simp add: fc_push_delta_def active_delta_def Let_def)
  qed
qed

text \<open>A whole delta file: begin, all tokens in order, commit.\<close>

definition fc_push_all ::
  "('e, 'v, 'm) data_model \<Rightarrow> (u64 \<Rightarrow> u32 \<Rightarrow> string + bytes) \<Rightarrow> 'e \<Rightarrow> delta_token list \<Rightarrow>
    'e commit_state \<Rightarrow> 'e commit_state" where
  "fc_push_all dm rd entry toks state = fold (\<lambda>tok st. fst (fc_push_delta dm rd True entry tok st)) toks state"

lemma fc_push_all_active:
  "active_delta basis bs ndx item sz out state \<Longrightarrow> path_of dm (oi_entry item) = path_of dm entry \<Longrightarrow>
    reads_basis basis rd \<Longrightarrow> length basis < 2 ^ 64 \<Longrightarrow> length out + length (expand basis bs toks) < 2 ^ 64 \<Longrightarrow>
    active_delta basis bs ndx item sz (out @ expand basis bs toks) (fc_push_all dm rd entry toks state)"
proof (induction toks arbitrary: out state)
  case (Cons tok toks)
  have "active_delta basis bs ndx item sz (out @ token_bytes basis bs tok)
      (fst (fc_push_delta dm rd True entry tok state))"
    using fc_push_delta_active [OF Cons.prems(1-4), of tok] Cons.prems(5) by simp
  from Cons.IH [OF this Cons.prems(2-4)] Cons.prems(5) show ?case
    by (simp add: fc_push_all_def)
qed (simp add: fc_push_all_def)

lemma fc_commit_active:
  assumes "active_delta basis bs ndx item sz out state" "path_of dm (oi_entry item) = path_of dm entry"
    "reads_basis basis rd"
  obtains af where "\<And>integrity finish hash. snd (fc_commit dm rd True integrity finish ndx entry hash TransferDelta state)
      = [(ndx, finalize_file integrity (finish af) sz hash)]"
    "sent_bytes (af_sent af) = out" "chunks_from basis 0 (af_sent af)"
proof -
  obtain af dx where st: "state = FcDeltaActive af" "af_mode af = ModeDelta dx" "af_ndx af = ndx"
    "af_entry af = item" "af_size af = sz"
    and ok: "delta_ok basis dx af" and out: "virtual_output basis dx af = out"
    using assms(1) by (auto simp: active_delta_def)
  obtain dx1 af1 where f: "flush_basis rd True dx af = Inr (dx1, af1)" "delta_ok basis dx1 af1"
    "dx_pending_basis dx1 = None" "virtual_output basis dx1 af1 = virtual_output basis dx af"
    "af_size af1 = af_size af"
    using flush_basis_ok [OF ok assms(3)] by metis
  let ?af = "af1\<lparr>af_mode := ModeDelta dx1\<rparr>"
  show ?thesis
  proof (rule that [of ?af])
    show "snd (fc_commit dm rd True integrity finish ndx entry hash TransferDelta state)
        = [(ndx, finalize_file integrity (finish ?af) sz hash)]" for integrity finish hash
      using st f assms(2) by (simp add: fc_commit_def mode_transfer_mode_def Let_def)
    show "sent_bytes (af_sent ?af) = out"
      using f(3,4) out by (simp add: virtual_output_def pending_bytes_def)
    show "chunks_from basis 0 (af_sent ?af)"
      using f(2) by (simp add: delta_ok_def)
  qed
qed

text \<open>
  An engine that reports truthfully on what the writer was given: no error, the number of
  bytes, and their hash, rendered as text by \<open>H\<close>.
\<close>

definition honest_finish :: "(bytes \<Rightarrow> string) \<Rightarrow> 'e active_file \<Rightarrow> finish_env" where
  "honest_finish H af = \<lparr>fe_write_error = None, fe_received_size = of_nat (length (sent_bytes (af_sent af))),
     fe_input_ended = True, fe_received_hash = H (sent_bytes (af_sent af)), fe_commit_error = None\<rparr>"

definition delta_file_run ::
  "('e, 'v, 'm) data_model \<Rightarrow> (u64 \<Rightarrow> u32 \<Rightarrow> string + bytes) \<Rightarrow> u64 \<Rightarrow> i32 \<Rightarrow> 'e observed_item \<Rightarrow> u32 \<Rightarrow>
    delta_token list \<Rightarrow> 'e commit_state" where
  "delta_file_run dm rd basis_size ndx item n toks =
     fc_push_all dm rd (oi_entry item) toks
       (fst (fc_begin dm \<lparr>be_basis = BasisFound basis_size, be_prepare_error = None\<rparr> ndx item (Some n) FcIdle))"

text \<open>
  The whole delta path, end to end. The receiver computes signatures of its basis,
  the sender matches its source against them in chunks of any size, and the receiver
  pushes the tokens through the committer, which merges adjacent basis references. If the
  basis is read faithfully, the file that is committed has been written with exactly the
  bytes of the source, at consecutive offsets from 0, every chunk marked as unchanged being
  what the basis holds at that offset; the commit reports one outcome, the one
  \<open>finalize_file\<close> gives for that file, and it is success when the engine is truthful.
\<close>

theorem delta_transfer_end_to_end:
  assumes "n \<noteq> 0" "length (chunks (unat n) basis) \<le> 2 ^ 32" "no_confusion h (unat n) basis source"
    "length source < 2 ^ 64" "compute_block_signatures h basis n = Some sigs"
    "stream_result (dm_stream_push h) (\<lambda>dm. snd (dm_finish h dm)) (dm_new sigs n) cs = Some toks"
    "concat cs = source" "validate_relative_path (path_of model (oi_entry item))"
    "item_get_size model item = of_nat (length source)" "reads_basis basis rd"
  shows "\<exists>af. sent_bytes (af_sent af) = source \<and> chunks_from basis 0 (af_sent af) \<and>
    (\<forall>integrity finish hash. snd (fc_commit model rd True integrity finish ndx (oi_entry item) hash TransferDelta
        (delta_file_run model rd (of_nat (length basis)) ndx item n toks))
      = [(ndx, finalize_file integrity (finish af) (of_nat (length source)) hash)]) \<and>
    (\<forall>H. finalize_file True (honest_finish H af) (of_nat (length source)) (Some (H source)) = OutcomeSuccess)"
proof -
  have small: "length basis < 2 ^ 64" by (rule basis_below_u64 [OF assms(1,2)])
  have sigs: "sigs = map (block_sig h) (chunks (unat n) basis)"
    using assms(1,5) by (simp add: compute_signatures_blocks)
  have "Some toks = Some (delta_match h source sigs n)"
    using assms(6,7) matcher.chunking_irrelevant [OF dm_inv_new, where cs = cs and ds = "[source]" and h = h]
    by (simp add: stream_result_def dm_stream_push_def delta_match_def split: prod.splits)
  then have ex: "expand basis (unat n) toks = source"
    using delta_match_expand [OF assms(1-3)] by (simp add: sigs)
  have "active_delta basis (unat n) ndx item (of_nat (length source)) []
      (fst (fc_begin model \<lparr>be_basis = BasisFound (of_nat (length basis)), be_prepare_error = None\<rparr>
         ndx item (Some n) FcIdle))"
    using assms(8,9)
    by (simp add: fc_begin_def active_delta_def re_new_def delta_ok_def virtual_output_def pending_bytes_def)
  from fc_push_all_active [OF this _ assms(10) small, of model "oi_entry item" toks] ex assms(4)
  have act: "active_delta basis (unat n) ndx item (of_nat (length source)) source
      (delta_file_run model rd (of_nat (length basis)) ndx item n toks)"
    by (simp add: delta_file_run_def)
  obtain af where af: "\<And>integrity finish hash. snd (fc_commit model rd True integrity finish ndx (oi_entry item) hash
        TransferDelta (delta_file_run model rd (of_nat (length basis)) ndx item n toks))
      = [(ndx, finalize_file integrity (finish af) (of_nat (length source)) hash)]"
    "sent_bytes (af_sent af) = source" "chunks_from basis 0 (af_sent af)"
    using fc_commit_active [OF act refl assms(10)] by metis
  have "finalize_file True (honest_finish H af) (of_nat (length source)) (Some (H source)) = OutcomeSuccess" for H
    by (simp add: honest_finish_def finalize_file_def af(2))
  with af show ?thesis by blast
qed

definition toy_item :: "toy_entry observed_item" where
  "toy_item = \<lparr>oi_entry = (''f'', False, 6, 0), oi_version_index = None\<rparr>"

definition slice_reader :: "bytes \<Rightarrow> u64 \<Rightarrow> u32 \<Rightarrow> string + bytes" where
  "slice_reader basis offset len = Inr (take (unat len) (drop (unat offset) basis))"

lemma delta_transfer_end_to_end_witness:
  "\<exists>af. sent_bytes (af_sent af) = [9, 3, 4, 1, 2, 5] \<and>
    (\<forall>integrity finish hash. snd (fc_commit toy_model (slice_reader [1, 2, 3, 4, 5]) True integrity finish 7
        (oi_entry toy_item) hash TransferDelta
        (delta_file_run toy_model (slice_reader [1, 2, 3, 4, 5]) 5 7 toy_item 2
          (delta_match pad_hash [9, 3, 4, 1, 2, 5] (map (block_sig pad_hash) [[1, 2], [3, 4], [5]]) 2)))
      = [(7, finalize_file integrity (finish af) 6 hash)])"
proof -
  let ?src = "[9, 3, 4, 1, 2, 5] :: bytes" and ?basis = "[1, 2, 3, 4, 5] :: bytes"
  let ?sigs = "map (block_sig pad_hash) [[1, 2], [3, 4], [5]]"
  have ch: "chunks 2 ?basis = [[1, 2], [3, 4], [5]]"
    by (simp add: chunks.simps)
  have nc: "no_confusion pad_hash (unat (2 :: u32)) ?basis ?src"
    by (simp add: no_confusion_def ch) (simp add: blake3_truncated_def STRONG_HASH_LEN_def pad_hash_def)
  have run: "stream_result (dm_stream_push pad_hash) (\<lambda>dm. snd (dm_finish pad_hash dm)) (dm_new ?sigs 2) [?src]
      = Some (delta_match pad_hash ?src ?sigs 2)"
    by (simp add: stream_result_def dm_stream_push_def delta_match_def split: prod.split)
  have sg: "compute_block_signatures pad_hash ?basis 2 = Some ?sigs"
    by (simp add: compute_signatures_blocks ch)
  have reads: "reads_basis ?basis (slice_reader ?basis)"
    by (simp add: reads_basis_def slice_reader_def)
  have path: "validate_relative_path (path_of toy_model (oi_entry toy_item))"
    by (simp add: toy_item_def toy_model_def validate_relative_path_def)
  have sz: "item_get_size toy_model toy_item = of_nat (length ?src)"
    by (simp add: toy_item_def toy_model_def item_get_size_def view_get_size_def item_view_def
        view_version_def unwrap_or_default_def)
  have "length (chunks (unat (2 :: u32)) ?basis) \<le> 2 ^ 32" by (simp add: ch)
  from delta_transfer_end_to_end [OF _ this nc _ sg run _ path sz reads, of 7]
  obtain af where "sent_bytes (af_sent af) = ?src"
    "\<forall>integrity finish hash. snd (fc_commit toy_model (slice_reader ?basis) True integrity finish 7
        (oi_entry toy_item) hash TransferDelta
        (delta_file_run toy_model (slice_reader ?basis) (of_nat (length ?basis)) 7 toy_item 2 (delta_match pad_hash ?src ?sigs 2)))
      = [(7, finalize_file integrity (finish af) (of_nat (length ?src)) hash)]"
    by auto
  moreover have "(of_nat (length ?basis) :: u64) = 5" "(of_nat (length ?src) :: u64) = 6" by simp_all
  ultimately show ?thesis by metis
qed

end
