(* ===== verification/ReceiverSession.thy ===== *)
theory ReceiverSession
  imports FlowControl DestIndex FileCommit ByteResume
begin

section \<open>The remote receiver session (crates/app/src/remote_receiver_session.rs, receiver.rs)\<close>

text \<open>
  The coordination state of one remote session on the destination side and its main loop.
  A step consumes one input - a message of the sender, an acknowledgement of the
  disk-commit task, or a progress snapshot - and yields the new state, the actions it
  performs in order, and whether the loop goes on. The destination storage answers through
  the record \<open>rx_env\<close>, which may differ from step to step; results that the code ignores
  (\<open>let _ = ...\<close>) are performed actions without consequence here as there.
\<close>

subsection \<open>State\<close>

text \<open>
  The two \<open>u64\<close> counters of the ledger, only ever increased by one, are naturals: their
  overflow is \<open>2 ^ 64\<close> messages away. The progress counters, some of which add sizes that the
  sender announces, are kept at their width.
\<close>

record transfer_ledger =
  tl_requested :: nat
  tl_completed :: nat
  tl_transfer_done_seen :: bool
  tl_terminated_ndx :: "i32 set"

datatype active_transfer = Idle | ActiveFull i32 | ActiveDelta i32

record receiver_progress =
  rp_files_transferred :: u64
  rp_dirs_created :: u64
  rp_bytes_transferred :: u64
  rp_files_skipped :: u64
  rp_metadata_only :: u64
  rp_error_count :: u64

record 'e session_state =
  ss_ledger :: transfer_ledger
  ss_ndx_table :: "'e ndx_table"
  ss_created_dirs :: "'e list"
  ss_active :: active_transfer
  ss_credit :: receiver_credit
  ss_attempts :: "i32 \<Rightarrow> u8 option"
  ss_progress :: receiver_progress

datatype 'e act =
    Tx "'e receiver_msg"
  | Dc "'e disk_commit_msg"
  | FsCreateDir 'e
  | FsSetMetadata 'e
  | FsRemoveMarker 'e
  | FsDeleteDir 'e
  | FsDeleteFile 'e
  | FsCreateSymlink 'e string
  | FsApplyAcl 'e bytes
  | CloseTransport
  | CancelDisk

text \<open>
  \<open>listing\<close>: what enumerating a destination directory gives, the entries observed before it
  ended and its error, if any, with whether that error says that the directory is missing.
\<close>

datatype 'e listing =
    OpenNotFound
  | OpenError string
  | Listed "'e list" "(string \<times> bool) option"

record 'e rx_env =
  en_holds_directory_objects :: bool
  en_keeps_history :: bool
  en_copied_tags :: "string + bool"
  en_set_metadata :: "'e \<Rightarrow> string option"
  en_create_dir :: "'e \<Rightarrow> string option"
  en_remove_marker :: "'e \<Rightarrow> string option"
  en_delete_dir :: "'e \<Rightarrow> string option"
  en_delete_file :: "'e \<Rightarrow> string option"
  en_create_symlink :: "'e \<Rightarrow> string \<Rightarrow> string option"
  en_listing :: "string \<Rightarrow> 'e listing"
  en_read_basis :: "'e observed_item \<Rightarrow> bytes list \<times> string option"
  en_acl_decodes :: "bytes \<Rightarrow> bool"
  en_tx_open :: bool
  en_dc_open :: bool
  en_blake3 :: "bytes \<Rightarrow> bytes"
  en_block_size :: "u64 \<Rightarrow> u32"

definition ledger_default :: transfer_ledger where
  "ledger_default = \<lparr>tl_requested = 0, tl_completed = 0, tl_transfer_done_seen = False, tl_terminated_ndx = {}\<rparr>"

definition progress_new :: receiver_progress where
  "progress_new = \<lparr>rp_files_transferred = 0, rp_dirs_created = 0, rp_bytes_transferred = 0,
     rp_files_skipped = 0, rp_metadata_only = 0, rp_error_count = 0\<rparr>"

definition session_default :: "'e session_state" where
  "session_default = \<lparr>ss_ledger = ledger_default, ss_ndx_table = ndx_new, ss_created_dirs = [],
     ss_active = Idle, ss_credit = receiver_credit_default, ss_attempts = (\<lambda>_. None),
     ss_progress = progress_new\<rparr>"

subsection \<open>The ledger\<close>

definition record_request :: "transfer_ledger \<Rightarrow> transfer_ledger" where
  "record_request l = l\<lparr>tl_requested := tl_requested l + 1\<rparr>"

definition ledger_record_terminal :: "i32 \<Rightarrow> transfer_ledger \<Rightarrow> transfer_ledger \<times> bool" where
  "ledger_record_terminal ndx l =
     (if ndx \<in> tl_terminated_ndx l then (l, False)
      else (l\<lparr>tl_terminated_ndx := insert ndx (tl_terminated_ndx l), tl_completed := tl_completed l + 1\<rparr>, True))"

definition record_unindexed_terminal :: "transfer_ledger \<Rightarrow> transfer_ledger" where
  "record_unindexed_terminal l = l\<lparr>tl_completed := tl_completed l + 1\<rparr>"

definition ledger_observe_done :: "transfer_ledger \<Rightarrow> transfer_ledger" where
  "ledger_observe_done l = l\<lparr>tl_transfer_done_seen := True\<rparr>"

definition ledger_complete :: "transfer_ledger \<Rightarrow> bool" where
  "ledger_complete l \<longleftrightarrow> tl_transfer_done_seen l \<and> tl_requested l \<le> tl_completed l"

definition ledger_counts :: "transfer_ledger \<Rightarrow> nat \<times> nat" where
  "ledger_counts l = (tl_completed l, tl_requested l)"

definition upd_ledger :: "(transfer_ledger \<Rightarrow> transfer_ledger) \<Rightarrow> 'e session_state \<Rightarrow> 'e session_state" where
  "upd_ledger f s = s\<lparr>ss_ledger := f (ss_ledger s)\<rparr>"

definition upd_progress :: "(receiver_progress \<Rightarrow> receiver_progress) \<Rightarrow> 'e session_state \<Rightarrow> 'e session_state" where
  "upd_progress f s = s\<lparr>ss_progress := f (ss_progress s)\<rparr>"

definition is_complete_session :: "'e session_state \<Rightarrow> bool" where
  "is_complete_session s = ledger_complete (ss_ledger s)"

definition session_record_terminal :: "i32 \<Rightarrow> 'e session_state \<Rightarrow> 'e session_state \<times> bool" where
  "session_record_terminal ndx s =
     (let (l, first) = ledger_record_terminal ndx (ss_ledger s) in (s\<lparr>ss_ledger := l\<rparr>, first))"

definition complete_unindexed :: "'e session_state \<Rightarrow> 'e session_state \<times> bool" where
  "complete_unindexed s = (let s' = upd_ledger record_unindexed_terminal s in (s', is_complete_session s'))"

definition session_observe_done :: "'e session_state \<Rightarrow> 'e session_state \<times> bool" where
  "session_observe_done s = (let s' = upd_ledger ledger_observe_done s in (s', is_complete_session s'))"

subsection \<open>Outcomes\<close>

definition redo_or_error :: "i32 \<Rightarrow> string \<Rightarrow> 'e session_state \<Rightarrow> 'e session_state \<times> 'e receiver_msg \<times> bool" where
  "redo_or_error ndx reason s =
     (let count = (case ss_attempts s ndx of None \<Rightarrow> 0 | Some c \<Rightarrow> c) + 1;
          s' = s\<lparr>ss_attempts := (ss_attempts s)(ndx \<mapsto> count)\<rparr>
      in if count = 1 then (s', RRedo ndx, False) else (s', RError ndx reason, True))"

definition handle_file_outcome ::
  "i32 \<Rightarrow> file_outcome \<Rightarrow> 'e session_state \<Rightarrow> 'e session_state \<times> 'e act list \<times> bool" where
  "handle_file_outcome ndx outcome s =
     (let (s1, ack, terminal) =
        (case outcome of
           OutcomeSuccess \<Rightarrow> (s, RSuccess ndx, True)
         | HashMismatch \<Rightarrow> redo_or_error ndx ''hash mismatch'' s
         | SizeMismatch \<Rightarrow> redo_or_error ndx ''size mismatch'' s
         | HardError reason \<Rightarrow> (s, RError ndx reason, True))
      in if \<not> terminal then (s1, [Tx ack], False)
         else
           let (s2, first) = session_record_terminal ndx s1
           in if \<not> first then (s2, [], False)
              else let s3 = (case ack of
                     RError _ _ \<Rightarrow> upd_progress (\<lambda>p. p\<lparr>rp_error_count := rp_error_count p + 1\<rparr>) s2
                   | _ \<Rightarrow> s2)
                   in (s3, [Tx ack], is_complete_session s3))"

definition handle_entry_outcome ::
  "'e receiver_msg \<Rightarrow> 'e session_state \<Rightarrow> 'e session_state \<times> 'e act list \<times> bool" where
  "handle_entry_outcome ack s =
     (let s' = upd_ledger record_unindexed_terminal s in (s', [Tx ack], is_complete_session s'))"

subsection \<open>Transfers\<close>

definition begin_full :: "i32 \<Rightarrow> 'e observed_item \<Rightarrow> 'e session_state \<Rightarrow> 'e session_state \<times> 'e act list \<times> bool" where
  "begin_full ndx entry s =
     (if ndx \<in> tl_terminated_ndx (ss_ledger s) then (s, [], False)
      else if ss_active s \<noteq> Idle then (s, [], False)
      else (s\<lparr>ss_active := ActiveFull ndx\<rparr>, [Dc (DFileBegin ndx entry)], True))"

text \<open>A chunk is accepted when the bounded channel to the disk-commit task takes it.\<close>

definition push_full_chunk :: "'e rx_env \<Rightarrow> i32 \<Rightarrow> data_chunk \<Rightarrow> 'e session_state \<Rightarrow> 'e act list \<times> bool" where
  "push_full_chunk env ndx chunk s =
     (if ss_active s \<noteq> ActiveFull ndx then ([], False)
      else if en_dc_open env then ([Dc (DFileChunk ndx chunk)], True) else ([], False))"

text \<open>
  Crediting the accepted bytes sends at most one grant, whose failure - like the overflow
  of the account - is the error of the caller.
\<close>

definition session_credit_accepted ::
  "'e rx_env \<Rightarrow> u64 \<Rightarrow> 'e session_state \<Rightarrow> transport_error + ('e session_state \<times> 'e act list)" where
  "session_credit_accepted env bytes s =
     (case credit_accepted (ss_credit s) bytes of
        Inl e \<Rightarrow> Inl e
      | Inr (cr, msgs) \<Rightarrow>
          if msgs \<noteq> [] \<and> \<not> en_tx_open env then Inl ChannelClosed
          else Inr (s\<lparr>ss_credit := cr\<rparr>, map Tx msgs))"

definition accept_full_chunk ::
  "'e rx_env \<Rightarrow> i32 \<Rightarrow> data_chunk \<Rightarrow> 'e session_state \<Rightarrow>
    'e session_state \<times> 'e act list \<times> (transport_error + bool)" where
  "accept_full_chunk env ndx chunk s =
     (let (acts, accepted) = push_full_chunk env ndx chunk s
      in if \<not> accepted then (s, acts, Inr False)
         else case session_credit_accepted env (payload_credit_cost (dc_data chunk)) s of
                Inl e \<Rightarrow> (s, acts, Inl e)
              | Inr (s', grants) \<Rightarrow> (s', acts @ grants, Inr True))"

definition commit_full ::
  "i32 \<Rightarrow> 'e \<Rightarrow> string option \<Rightarrow> 'e session_state \<Rightarrow> 'e session_state \<times> 'e act list \<times> bool" where
  "commit_full ndx entry source_hash s =
     (if ndx \<in> tl_terminated_ndx (ss_ledger s) \<or> ss_active s \<noteq> ActiveFull ndx then (s, [], False)
      else (s\<lparr>ss_active := Idle\<rparr>, [Dc (DFileCommit ndx entry source_hash)], True))"

definition ensure_delta_active ::
  "('e, 'v, 'm) data_model \<Rightarrow> 'e rx_env \<Rightarrow> i32 \<Rightarrow> 'e \<Rightarrow> 'e session_state \<Rightarrow>
    'e session_state \<times> 'e act list \<times> bool" where
  "ensure_delta_active dm env ndx entry s =
     (if ndx \<in> tl_terminated_ndx (ss_ledger s) then (s, [], False)
      else case ss_active s of
             Idle \<Rightarrow> (s\<lparr>ss_active := ActiveDelta ndx\<rparr>,
                      [Dc (DDeltaBegin ndx entry (en_block_size env (ext_get_size dm entry)))], True)
           | ActiveDelta active_ndx \<Rightarrow> (s, [], active_ndx = ndx)
           | ActiveFull _ \<Rightarrow> (s, [], False))"

definition push_delta_match ::
  "('e, 'v, 'm) data_model \<Rightarrow> 'e rx_env \<Rightarrow> i32 \<Rightarrow> 'e \<Rightarrow> u32 \<Rightarrow> 'e session_state \<Rightarrow>
    'e session_state \<times> 'e act list \<times> bool" where
  "push_delta_match dm env ndx entry block_index s =
     (let (s1, acts, ok) = ensure_delta_active dm env ndx entry s
      in if \<not> ok then (s1, acts, False) else (s1, acts @ [Dc (DDeltaMatch entry block_index)], True))"

definition push_delta_data ::
  "('e, 'v, 'm) data_model \<Rightarrow> 'e rx_env \<Rightarrow> i32 \<Rightarrow> 'e \<Rightarrow> bytes \<Rightarrow> 'e session_state \<Rightarrow>
    'e session_state \<times> 'e act list \<times> bool" where
  "push_delta_data dm env ndx entry data s =
     (let (s1, acts, ok) = ensure_delta_active dm env ndx entry s
      in if \<not> ok then (s1, acts, False)
         else if en_dc_open env then (s1, acts @ [Dc (DDeltaData entry data)], True) else (s1, acts, False))"

definition accept_delta_data ::
  "('e, 'v, 'm) data_model \<Rightarrow> 'e rx_env \<Rightarrow> i32 \<Rightarrow> 'e \<Rightarrow> bytes \<Rightarrow> 'e session_state \<Rightarrow>
    'e session_state \<times> 'e act list \<times> (transport_error + bool)" where
  "accept_delta_data dm env ndx entry data s =
     (let (s1, acts, accepted) = push_delta_data dm env ndx entry data s
      in if \<not> accepted then (s1, acts, Inr False)
         else case session_credit_accepted env (payload_credit_cost data) s1 of
                Inl e \<Rightarrow> (s1, acts, Inl e)
              | Inr (s2, grants) \<Rightarrow> (s2, acts @ grants, Inr True))"

definition commit_delta ::
  "('e, 'v, 'm) data_model \<Rightarrow> 'e rx_env \<Rightarrow> i32 \<Rightarrow> 'e \<Rightarrow> string option \<Rightarrow> 'e session_state \<Rightarrow>
    'e session_state \<times> 'e act list \<times> bool" where
  "commit_delta dm env ndx entry source_hash s =
     (let (s1, acts, ok) = ensure_delta_active dm env ndx entry s
      in if \<not> ok then (s1, acts, False)
         else (s1\<lparr>ss_active := Idle\<rparr>, acts @ [Dc (DDeltaCommit ndx entry source_hash)], True))"

definition abort_active_file :: "'e session_state \<Rightarrow> 'e session_state \<times> 'e act list" where
  "abort_active_file s = (s\<lparr>ss_active := Idle\<rparr>, [Dc DAbortFile])"

definition handle_source_failure ::
  "i32 option \<Rightarrow> 'e session_state \<Rightarrow> 'e session_state \<times> 'e act list \<times> bool" where
  "handle_source_failure ndx_opt s =
     (case ndx_opt of
        Some ndx \<Rightarrow>
          (let (s1, first_terminal) = session_record_terminal ndx s;
               (s2, acts) = (if ss_active s1 = ActiveFull ndx \<or> ss_active s1 = ActiveDelta ndx
                             then abort_active_file s1 else (s1, []))
           in (s2, acts, first_terminal \<and> is_complete_session s2))
      | None \<Rightarrow>
          (let (s1, acts) = abort_active_file s; (s2, complete) = complete_unindexed s1
           in (s2, acts, complete)))"

definition discard_residual_credit :: "'e session_state \<Rightarrow> 'e session_state" where
  "discard_residual_credit s = s\<lparr>ss_credit := credit_reset (ss_credit s)\<rparr>"

definition discard_directory_metadata :: "'e session_state \<Rightarrow> 'e session_state" where
  "discard_directory_metadata s = s\<lparr>ss_created_dirs := []\<rparr>"

definition finalize_directories :: "'e session_state \<Rightarrow> 'e act list" where
  "finalize_directories s = map FsSetMetadata (ss_created_dirs s)"

subsection \<open>Classification of a page\<close>

definition tx_request :: "i32 \<Rightarrow> transfer_decision \<Rightarrow> 'e session_state \<Rightarrow> 'e session_state \<times> 'e act list" where
  "tx_request ndx decision s = (upd_ledger record_request s, [Tx (RTransferRequest ndx decision)])"

definition handle_base_classification ::
  "'e rx_env \<Rightarrow> i32 \<Rightarrow> 'e observed_item \<Rightarrow> transfer_decision \<Rightarrow> 'e session_state \<Rightarrow>
    'e session_state \<times> 'e act list \<times> bool" where
  "handle_base_classification env ndx entry decision s =
     (case decision of
        FullTransfer \<Rightarrow> (let (s1, acts) = tx_request ndx decision s in (s1, acts, True))
      | MetadataOnly \<Rightarrow>
          (case en_set_metadata env (oi_entry entry) of
             Some err \<Rightarrow> (s, [FsSetMetadata (oi_entry entry), Tx (REntryError (oi_entry entry) err)], True)
           | None \<Rightarrow> (upd_progress (\<lambda>p. p\<lparr>rp_metadata_only := rp_metadata_only p + 1\<rparr>) s,
                      [FsSetMetadata (oi_entry entry), Tx (RClassifiedObservation ndx decision)], True))
      | Skip \<Rightarrow> (upd_progress (\<lambda>p. p\<lparr>rp_files_skipped := rp_files_skipped p + 1\<rparr>) s,
                 [Tx (RClassifiedObservation ndx decision)], True)
      | DeltaTransfer \<Rightarrow> (s, [], False)
      | Deleted \<Rightarrow> (s, [], False))"

definition basis_signatures ::
  "(bytes \<Rightarrow> bytes) \<Rightarrow> u32 \<Rightarrow> bytes list \<Rightarrow> block_signature list option" where
  "basis_signatures blake3 block_size cs =
     stream_result (sc_stream_push blake3) (\<lambda>sc. snd (sc_finish blake3 sc)) (sc_new block_size) cs"

definition wire_of :: "block_signature \<Rightarrow> wire_signature" where
  "wire_of sig = \<lparr>ws_rolling = bs_rolling sig, ws_strong = bs_strong sig\<rparr>"

definition handle_delta_classification ::
  "('e, 'v, 'm) data_model \<Rightarrow> 'e rx_env \<Rightarrow> feature_flags \<Rightarrow> u64 \<Rightarrow> i32 \<Rightarrow> 'e observed_item \<Rightarrow>
    transfer_decision \<Rightarrow> 'e session_state \<Rightarrow> 'e session_state \<times> 'e act list \<times> bool" where
  "handle_delta_classification dm env features threshold ndx entry decision s =
     (if decision \<noteq> DeltaTransfer then (s, [], False)
      else if \<not> ff_delta features \<or> threshold < item_get_size dm entry
      then (let (s1, acts) = tx_request ndx decision s in (s1, acts, True))
      else
        let block_size = en_block_size env (item_get_size dm entry);
            (cs, err) = en_read_basis env entry
        in (case (err, basis_signatures (en_blake3 env) block_size cs) of
              (None, Some sigs) \<Rightarrow>
                (upd_ledger record_request s,
                 [Tx (RDeltaTransferRequest ndx block_size (map wire_of sigs))], True)
            | _ \<Rightarrow> (let (s1, acts) = tx_request ndx decision s in (s1, acts, True))))"

subsection \<open>Directories and orphans of a page\<close>

definition subdir_marker ::
  "('e, 'v, 'm) data_model \<Rightarrow> 'e rx_env \<Rightarrow> bool \<Rightarrow> 'e ndx_entry \<Rightarrow> 'e dest_index \<Rightarrow> 'e session_state \<Rightarrow>
    'e dest_index \<times> 'e session_state \<times> 'e act list" where
  "subdir_marker dm env delete_target subdir di s =
     (let e = oi_entry (ne_entry subdir) in
      if marker_object_of dm e \<noteq> None then
        (case en_copied_tags env of
           Inl err \<Rightarrow> (di, s, [Tx (REntryError e err)])
         | Inr copy_tags \<Rightarrow>
             (let decision = check_directory_marker dm e copy_tags di in
              if decision = Skip then (di, s, [Tx (RClassifiedObservation (ne_ndx subdir) decision)])
              else (let (s1, acts) = tx_request (ne_ndx subdir) decision s in (di, s1, acts))))
      else if delete_target \<and> has_directory_marker dm e di then
        (case en_remove_marker env e of
           Some err \<Rightarrow> (di, s, [FsRemoveMarker e, Tx (REntryError e err)])
         | None \<Rightarrow> (mark_directory_object_matched dm e di, s, [FsRemoveMarker e]))
      else (di, s, []))"

definition handle_subdir ::
  "('e, 'v, 'm) data_model \<Rightarrow> 'e rx_env \<Rightarrow> bool \<Rightarrow> 'e ndx_entry \<Rightarrow> 'e dest_index \<Rightarrow> 'e session_state \<Rightarrow>
    'e dest_index \<times> 'e session_state \<times> 'e act list" where
  "handle_subdir dm env delete_target subdir di s =
     (let e = oi_entry (ne_entry subdir); di1 = mark_matched dm e di in
      if \<not> validate_relative_path (path_of dm e)
      then (di1, s, [Tx (REntryError e (unsafe_path_reason (path_of dm e)))])
      else if en_holds_directory_objects env then subdir_marker dm env delete_target subdir di1 s
      else (case en_create_dir env e of
              Some err \<Rightarrow> (di1, s, [FsCreateDir e, Tx (REntryError e err)])
            | None \<Rightarrow> (di1, s\<lparr>ss_created_dirs := ss_created_dirs s @ [e]\<rparr>, [FsCreateDir e])))"

fun handle_subdirs ::
  "('e, 'v, 'm) data_model \<Rightarrow> 'e rx_env \<Rightarrow> bool \<Rightarrow> 'e ndx_entry list \<Rightarrow> 'e dest_index \<Rightarrow> 'e session_state \<Rightarrow>
    'e dest_index \<times> 'e session_state \<times> 'e act list" where
  "handle_subdirs dm env delete_target [] di s = (di, s, [])"
| "handle_subdirs dm env delete_target (d # ds) di s =
     (let (di1, s1, acts) = handle_subdir dm env delete_target d di s;
          (di2, s2, acts') = handle_subdirs dm env delete_target ds di1 s1
      in (di2, s2, acts @ acts'))"

definition delete_orphan :: "('e, 'v, 'm) data_model \<Rightarrow> 'e rx_env \<Rightarrow> 'e \<Rightarrow> 'e act list" where
  "delete_orphan dm env orphan =
     (if is_part_file (path_of dm orphan) then []
      else let (act, result) =
             (if ext_get_is_dir dm orphan then (FsDeleteDir orphan, en_delete_dir env orphan)
              else (FsDeleteFile orphan, en_delete_file env orphan))
           in case result of
                None \<Rightarrow> [act, Tx (RClassified orphan Deleted)]
              | Some err \<Rightarrow> [act, Tx (REntryError orphan err)])"

definition handle_directory_lifecycle ::
  "('e, 'v, 'm) data_model \<Rightarrow> 'e rx_env \<Rightarrow> bool \<Rightarrow> 'e dir_page \<Rightarrow> 'e dest_index \<Rightarrow> 'e session_state \<Rightarrow>
    'e session_state \<times> 'e act list" where
  "handle_directory_lifecycle dm env delete_target page di s =
     (let (di1, s1, acts) = handle_subdirs dm env delete_target (dp_subdirs page) di s
      in (s1, acts @ (if \<not> delete_target then []
                      else concat (map (delete_orphan dm env) (orphaned_entries di1)))))"

definition read_destination_index ::
  "('e, 'v, 'm) data_model \<Rightarrow> 'e rx_env \<Rightarrow> string \<Rightarrow> string + 'e dest_index" where
  "read_destination_index dm env directory =
     (case en_copied_tags env of
        Inl e \<Rightarrow> Inl e
      | Inr _ \<Rightarrow>
          (case en_listing env directory of
             OpenNotFound \<Rightarrow> Inr di_new
           | OpenError e \<Rightarrow> Inl e
           | Listed entries err \<Rightarrow>
               (let index = fold (di_insert dm) entries di_new in
                case err of
                  None \<Rightarrow> Inr index
                | Some (e, missing) \<Rightarrow> if entries = [] \<and> missing then Inr index else Inl e)))"

subsection \<open>The loop\<close>

datatype flow = Continue | Break | Fail string | Closed | Return string

definition versioned_directory ::
  "'e rx_env \<Rightarrow> 'e ndx_entry \<Rightarrow> 'e session_state \<Rightarrow> 'e session_state \<times> 'e act list \<times> flow" where
  "versioned_directory env nf s =
     (let e = oi_entry (ne_entry nf) in
      case en_create_dir env e of
        Some err \<Rightarrow> (s, [FsCreateDir e], Return err)
      | None \<Rightarrow>
          (let s1 = upd_progress (\<lambda>p. p\<lparr>rp_dirs_created := rp_dirs_created p + 1\<rparr>) s in
           if \<not> en_tx_open env then (s1, [FsCreateDir e], Return ''Channel closed'')
           else (s1, [FsCreateDir e, Tx (RClassifiedObservation (ne_ndx nf) FullTransfer), Tx (RSuccess (ne_ndx nf))],
                 Continue)))"

definition handle_page_file ::
  "('e, 'v, 'm) data_model \<Rightarrow> 'e rx_env \<Rightarrow> feature_flags \<Rightarrow> u64 \<Rightarrow> 'e ndx_entry \<Rightarrow> 'e dest_index \<Rightarrow>
    'e session_state \<Rightarrow> 'e dest_index \<times> 'e session_state \<times> 'e act list \<times> flow" where
  "handle_page_file dm env features threshold nf di s =
     (let item = ne_entry nf; e = oi_entry item; version = view_version dm (item_view item);
          di1 = (if version \<noteq> None then mark_matched dm e di else di)
      in if (case version of None \<Rightarrow> False
             | Some v \<Rightarrow> \<not> en_keeps_history env \<and> (\<not> v_is_latest dm v \<or> v_is_delete_marker dm v))
         then (di1, s, [], Continue)
         else if version \<noteq> None \<and> \<not> en_keeps_history env \<and> \<not> en_holds_directory_objects env \<and> item_get_is_dir dm item
         then (let (s1, acts, fl) = versioned_directory env nf s in (di1, s1, acts, fl))
         else
           let (di2, decision) = (if version \<noteq> None then (di1, FullTransfer) else di_check dm e di1);
               (s1, acts1, handled) = handle_base_classification env (ne_ndx nf) item decision s
           in if handled then (di2, s1, acts1, Continue)
              else let (s2, acts2, _) = handle_delta_classification dm env features threshold (ne_ndx nf) item decision s1
                   in (di2, s2, acts1 @ acts2, Continue))"

fun handle_page_files ::
  "('e, 'v, 'm) data_model \<Rightarrow> 'e rx_env \<Rightarrow> feature_flags \<Rightarrow> u64 \<Rightarrow> 'e ndx_entry list \<Rightarrow> 'e dest_index \<Rightarrow>
    'e session_state \<Rightarrow> 'e dest_index \<times> 'e session_state \<times> 'e act list \<times> flow" where
  "handle_page_files dm env features threshold [] di s = (di, s, [], Continue)"
| "handle_page_files dm env features threshold (nf # nfs) di s =
     (let (di1, s1, acts, fl) = handle_page_file dm env features threshold nf di s in
      case fl of
        Continue \<Rightarrow>
          (let (di2, s2, acts', fl') = handle_page_files dm env features threshold nfs di1 s1
           in (di2, s2, acts @ acts', fl'))
      | _ \<Rightarrow> (di1, s1, acts, fl))"

definition handle_page ::
  "('e, 'v, 'm) data_model \<Rightarrow> 'e rx_env \<Rightarrow> session_config \<Rightarrow> feature_flags \<Rightarrow> u64 \<Rightarrow> 'e dir_page \<Rightarrow>
    'e session_state \<Rightarrow> 'e session_state \<times> 'e act list \<times> flow" where
  "handle_page dm env config features threshold page s =
     (let s1 = s\<lparr>ss_ndx_table := ndx_ingest_page (ss_ndx_table s) page\<rparr> in
      case read_destination_index dm env (dp_dir_path page) of
        Inl e \<Rightarrow> (s1, [], Fail e)
      | Inr di \<Rightarrow>
          (let (di1, s2, acts, fl) = handle_page_files dm env features threshold (dp_files page) di s1 in
           case fl of
             Continue \<Rightarrow>
               (let (s3, acts') = handle_directory_lifecycle dm env (cf_delete_target config) page di1 s2
                in (s3, acts @ acts', Continue))
           | _ \<Rightarrow> (s2, acts, fl)))"

datatype 'e rx_input =
    FromSender "'e sender_msg"
  | SenderClosed
  | DiskAck "'e dc_ack"
  | Progress progress_snapshot

definition transport_error_text :: "transport_error \<Rightarrow> string" where
  "transport_error_text e =
     (case e of
        ChannelClosed \<Rightarrow> ''Channel closed''
      | SendFailed r \<Rightarrow> ''Send failed: '' @ r
      | SerializationError r \<Rightarrow> ''Serialization error: '' @ r
      | InvalidCreditConfiguration r \<Rightarrow> ''Invalid credit configuration: '' @ r
      | CreditAccountingOverflow \<Rightarrow> ''Credit accounting overflow''
      | CreditCostExceedsWindow c w \<Rightarrow> ''Credit cost '' @ show_nat (unat c) @ '' exceeds configured window ''
          @ show_nat (unat w))"

definition break_if :: "bool \<Rightarrow> flow" where
  "break_if b = (if b then Break else Continue)"

definition accepted_flow :: "transport_error + bool \<Rightarrow> flow" where
  "accepted_flow r = (case r of Inl e \<Rightarrow> Fail (transport_error_text e) | Inr _ \<Rightarrow> Continue)"

definition handle_create_dir ::
  "('e, 'v, 'm) data_model \<Rightarrow> 'e rx_env \<Rightarrow> 'e \<Rightarrow> 'e session_state \<Rightarrow> 'e session_state \<times> 'e act list \<times> flow" where
  "handle_create_dir dm env e s =
     (if \<not> validate_relative_path (path_of dm e)
      then (s, [Tx (REntryError e (unsafe_path_reason (path_of dm e)))], Continue)
      else (upd_progress (\<lambda>p. p\<lparr>rp_dirs_created := rp_dirs_created p + 1\<rparr>) s,
            [FsCreateDir e, FsSetMetadata e, Tx (REntrySuccess e)], Continue))"

definition handle_create_symlink ::
  "('e, 'v, 'm) data_model \<Rightarrow> 'e rx_env \<Rightarrow> 'e \<Rightarrow> string \<Rightarrow> 'e session_state \<Rightarrow>
    'e session_state \<times> 'e act list \<times> flow" where
  "handle_create_symlink dm env e target s =
     (let (s1, acts) =
        (if \<not> validate_relative_path (path_of dm e)
         then (s, [Tx (REntryError e (unsafe_path_reason (path_of dm e)))])
         else case en_create_symlink env e target of
                None \<Rightarrow> (upd_progress (\<lambda>p. p\<lparr>rp_files_transferred := rp_files_transferred p + 1\<rparr>) s,
                         [FsCreateSymlink e target, Tx (REntrySuccess e)])
              | Some err \<Rightarrow> (s, [FsCreateSymlink e target, Tx (REntryError e err)]));
          (s2, complete) = complete_unindexed s1
      in (s2, acts, break_if complete))"

definition handle_end_of_file ::
  "('e, 'v, 'm) data_model \<Rightarrow> 'e rx_env \<Rightarrow> i32 \<Rightarrow> 'e \<Rightarrow> string option \<Rightarrow> 'e session_state \<Rightarrow>
    'e session_state \<times> 'e act list" where
  "handle_end_of_file dm env ndx entry source_hash s =
     (let (s1, acts1, committed) = commit_full ndx entry source_hash s
      in if committed then (s1, acts1)
         else let (s2, acts2, _) = commit_delta dm env ndx entry source_hash s1 in (s2, acts1 @ acts2))"

definition rx_message ::
  "('e, 'v, 'm) data_model \<Rightarrow> 'e rx_env \<Rightarrow> session_config \<Rightarrow> feature_flags \<Rightarrow> u64 \<Rightarrow> 'e sender_msg \<Rightarrow>
    'e session_state \<Rightarrow> 'e session_state \<times> 'e act list \<times> flow" where
  "rx_message dm env config features threshold msg s =
     (case msg of
        SFilePage page \<Rightarrow> handle_page dm env config features threshold page s
      | SFileListError path reason \<Rightarrow> (s, [], Fail (''Source listing failed at '' @ path @ '': '' @ reason))
      | SFileListDone \<Rightarrow> (s, [Tx RRequestsDone], Continue)
      | SWriteDeleteMarker ndx \<Rightarrow>
          (case ndx_get (ss_ndx_table s) ndx of
             None \<Rightarrow> (s, [], Continue)
           | Some entry \<Rightarrow>
               if en_dc_open env then (s, [Dc (DWriteDeleteMarker ndx entry)], Continue)
               else (s, [], Return ''Disk commit task closed before delete marker''))
      | SFileBegin ndx \<Rightarrow>
          (case ndx_get (ss_ndx_table s) ndx of
             None \<Rightarrow> (s, [], Continue)
           | Some entry \<Rightarrow> (let (s1, acts, _) = begin_full ndx entry s in (s1, acts, Continue)))
      | SCreateDir e \<Rightarrow> handle_create_dir dm env e s
      | SCreateSymlink e target \<Rightarrow> handle_create_symlink dm env e target s
      | SFileData ndx chunk \<Rightarrow>
          (let (s1, acts, r) = accept_full_chunk env ndx chunk s in (s1, acts, accepted_flow r))
      | SDeltaMatch ndx block_index \<Rightarrow>
          (case ndx_get (ss_ndx_table s) ndx of
             None \<Rightarrow> (s, [], Continue)
           | Some entry \<Rightarrow>
               (let (s1, acts, _) = push_delta_match dm env ndx (oi_entry entry) block_index s in (s1, acts, Continue)))
      | SDeltaData ndx data \<Rightarrow>
          (case ndx_get (ss_ndx_table s) ndx of
             None \<Rightarrow> (s, [], Continue)
           | Some entry \<Rightarrow>
               (let (s1, acts, r) = accept_delta_data dm env ndx (oi_entry entry) data s
                in (s1, acts, accepted_flow r)))
      | SEndOfFile ndx source_hash \<Rightarrow>
          (case ndx_get (ss_ndx_table s) ndx of
             None \<Rightarrow> (s, [], Continue)
           | Some entry \<Rightarrow>
               (let (s1, acts) = handle_end_of_file dm env ndx (oi_entry entry) source_hash s in (s1, acts, Continue)))
      | SSetAcl e acl_data \<Rightarrow>
          (s, if cf_enable_acl config \<and> en_acl_decodes env acl_data then [FsApplyAcl e acl_data] else [], Continue)
      | STransferDone \<Rightarrow> (let (s1, complete) = session_observe_done s in (s1, [], break_if complete))
      | SEntryError _ _ ndx \<Rightarrow>
          (let (s1, acts, complete) = handle_source_failure ndx s in (s1, acts, break_if complete))
      | _ \<Rightarrow> (s, [], Continue))"

definition rx_ack :: "'e dc_ack \<Rightarrow> 'e session_state \<Rightarrow> 'e session_state \<times> 'e act list \<times> bool" where
  "rx_ack ack s =
     (case ack of
        AckEntry msg \<Rightarrow> handle_entry_outcome msg s
      | AckFileOutcome ndx outcome \<Rightarrow> handle_file_outcome ndx outcome s)"

definition rx_step ::
  "('e, 'v, 'm) data_model \<Rightarrow> session_config \<Rightarrow> feature_flags \<Rightarrow> u64 \<Rightarrow> 'e rx_env \<Rightarrow> 'e rx_input \<Rightarrow>
    'e session_state \<Rightarrow> 'e session_state \<times> 'e act list \<times> flow" where
  "rx_step dm config features threshold env input s =
     (case input of
        FromSender msg \<Rightarrow> rx_message dm env config features threshold msg s
      | SenderClosed \<Rightarrow> (s, [], Closed)
      | DiskAck ack \<Rightarrow> (let (s1, acts, complete) = rx_ack ack s in (s1, acts, break_if complete))
      | Progress snapshot \<Rightarrow> (s, [Tx (RProgress snapshot)], Continue))"

fun rx_loop ::
  "('e, 'v, 'm) data_model \<Rightarrow> session_config \<Rightarrow> feature_flags \<Rightarrow> u64 \<Rightarrow> ('e rx_env \<times> 'e rx_input) list \<Rightarrow>
    'e session_state \<Rightarrow> 'e session_state \<times> 'e act list \<times> flow" where
  "rx_loop dm config features threshold [] s = (s, [], Continue)"
| "rx_loop dm config features threshold ((env, input) # rest) s =
     (let (s1, acts, fl) = rx_step dm config features threshold env input s in
      case fl of
        Continue \<Rightarrow> (let (s2, acts', fl') = rx_loop dm config features threshold rest s1 in (s2, acts @ acts', fl'))
      | _ \<Rightarrow> (s1, acts, fl))"

subsection \<open>After the loop\<close>

fun drain_acks :: "'e dc_ack list \<Rightarrow> 'e session_state \<Rightarrow> 'e session_state \<times> 'e act list" where
  "drain_acks [] s = (s, [])"
| "drain_acks (a # as) s =
     (let (s1, acts, _) = rx_ack a s; (s2, acts') = drain_acks as s1 in (s2, acts @ acts'))"

definition shutdown_disk_commit ::
  "string option \<Rightarrow> 'e dc_ack list \<Rightarrow> 'e session_state \<Rightarrow> 'e session_state \<times> 'e act list \<times> string option" where
  "shutdown_disk_commit join_error acks s =
     (case join_error of
        Some e \<Rightarrow> (s, [Dc DShutdown], Some e)
      | None \<Rightarrow> (let (s1, acts) = drain_acks acks s
                 in (s1, Dc DShutdown # acts @ finalize_directories s1, None)))"

text \<open>
  \<open>recv_file_list_and_data_phase\<close> as a whole: still running after the given inputs, or ended
  with an error text or none. A failure counts as an error, a closed connection does not.
\<close>

datatype session_end = Running | Ended "string option"

definition fail_cleanup :: "'e session_state \<Rightarrow> 'e session_state \<times> 'e act list" where
  "fail_cleanup s =
     (let (s1, acts) = abort_active_file s
      in (discard_directory_metadata s1, [CancelDisk, CloseTransport] @ acts))"

definition rx_session ::
  "('e, 'v, 'm) data_model \<Rightarrow> session_config \<Rightarrow> feature_flags \<Rightarrow> u64 \<Rightarrow> ('e rx_env \<times> 'e rx_input) list \<Rightarrow>
    string option \<Rightarrow> 'e dc_ack list \<Rightarrow> 'e session_state \<Rightarrow> 'e session_state \<times> 'e act list \<times> session_end" where
  "rx_session dm config features threshold inputs join_error acks s =
     (let (s1, acts1, fl) = rx_loop dm config features threshold inputs s in
      case fl of
        Continue \<Rightarrow> (s1, acts1, Running)
      | Return e \<Rightarrow> (s1, acts1, Ended (Some e))
      | Break \<Rightarrow>
          (let (s2, acts2, r) = shutdown_disk_commit join_error acks s1
           in (discard_residual_credit s2, acts1 @ acts2, Ended r))
      | Closed \<Rightarrow>
          (let (s2, acts2) = fail_cleanup s1; (s3, acts3, r) = shutdown_disk_commit join_error acks s2
           in (discard_residual_credit s3, acts1 @ acts2 @ acts3,
               Ended (case r of Some e \<Rightarrow> Some e | None \<Rightarrow> Some ''Transport closed during file list/data phase'')))
      | Fail e \<Rightarrow>
          (let (s2, acts2) = fail_cleanup (upd_progress (\<lambda>p. p\<lparr>rp_error_count := rp_error_count p + 1\<rparr>) s1);
               (s3, acts3, r) = shutdown_disk_commit join_error acks s2
           in (discard_residual_credit s3, acts1 @ acts2 @ acts3, Ended (Some e))))"

subsection \<open>Before the loop: handshake, authentication, configuration\<close>

text \<open>
  Each phase skips messages it does not expect and consumes the stream up to the message it
  waits for. Results are the remaining messages, what was sent, and the error if any.
\<close>

fun recv_handshake ::
  "(string + bool) \<Rightarrow> bool \<Rightarrow> 'e sender_msg list \<Rightarrow>
    'e sender_msg list \<times> 'e act list \<times> (string + feature_flags)" where
  "recv_handshake copied_tags tx_open [] = ([], [], Inl ''Transport closed before Handshake'')"
| "recv_handshake copied_tags tx_open (m # ms) =
     (case m of
        SHandshake remote \<Rightarrow>
          (case negotiate handshake_current remote of
             Accepted features _ \<Rightarrow>
               (case copied_tags of
                  Inl e \<Rightarrow> (ms, [], Inl e)
                | Inr ct \<Rightarrow>
                    if tx_open then (ms, [Tx (RHandshakeAck (Accepted features ct))], Inr features)
                    else (ms, [], Inl ''Channel closed''))
           | Rejected reason \<Rightarrow>
               if tx_open then (ms, [Tx (RHandshakeAck (Rejected reason))], Inl (''Incompatible protocol: '' @ reason))
               else (ms, [], Inl ''Channel closed''))
      | _ \<Rightarrow> recv_handshake copied_tags tx_open ms)"

fun recv_auth ::
  "string option \<Rightarrow> bool \<Rightarrow> 'e sender_msg list \<Rightarrow> 'e sender_msg list \<times> 'e act list \<times> (string + unit)" where
  "recv_auth expected_token tx_open [] = ([], [], Inl ''Transport closed before Auth'')"
| "recv_auth expected_token tx_open (m # ms) =
     (case m of
        SAuth token \<Rightarrow>
          (let ok = (case expected_token of Some expected \<Rightarrow> token = expected | None \<Rightarrow> True) in
           if \<not> tx_open then (ms, [], Inl ''Channel closed'')
           else if ok then (ms, [Tx (RAuthResult True None)], Inr ())
           else (ms, [Tx (RAuthResult False (Some ''invalid token'')), CloseTransport],
                 Inl ''Authentication failed: invalid token''))
      | _ \<Rightarrow> recv_auth expected_token tx_open ms)"

fun recv_session_config ::
  "'e sender_msg list \<Rightarrow> 'e sender_msg list \<times> (string + session_config)" where
  "recv_session_config [] = ([], Inl ''Transport closed before SessionConfig'')"
| "recv_session_config (m # ms) =
     (case m of SSessionConfig config \<Rightarrow> (ms, Inr config) | _ \<Rightarrow> recv_session_config ms)"

definition DEFAULT_DELTA_SIZE_THRESHOLD_BYTES :: u64 where
  "DEFAULT_DELTA_SIZE_THRESHOLD_BYTES = 512 * 1024 * 1024"

definition resolve_delta_size_threshold ::
  "(string \<Rightarrow> string + u64) \<Rightarrow> string option \<Rightarrow> string + u64" where
  "resolve_delta_size_threshold parse_size threshold =
     (case threshold of Some t \<Rightarrow> parse_size t | None \<Rightarrow> Inr DEFAULT_DELTA_SIZE_THRESHOLD_BYTES)"

definition session_threshold :: "(string \<Rightarrow> string + u64) \<Rightarrow> session_config \<Rightarrow> string + u64" where
  "session_threshold parse_size config =
     (if cf_transfer_mode config = Direct \<and> cf_delta_size_threshold config = None then Inr (- 1)
      else resolve_delta_size_threshold parse_size (cf_delta_size_threshold config))"

definition receiver_prologue ::
  "(string + bool) \<Rightarrow> bool \<Rightarrow> (string \<Rightarrow> string + u64) \<Rightarrow> string option \<Rightarrow> 'e sender_msg list \<Rightarrow>
    'e sender_msg list \<times> 'e act list \<times> (string + (feature_flags \<times> session_config \<times> u64))" where
  "receiver_prologue copied_tags tx_open parse_size expected_token ms =
     (let (ms1, acts1, r1) = recv_handshake copied_tags tx_open ms in
      case r1 of
        Inl e \<Rightarrow> (ms1, acts1, Inl e)
      | Inr features \<Rightarrow>
          (let (ms2, acts2, r2) = recv_auth expected_token tx_open ms1 in
           case r2 of
             Inl e \<Rightarrow> (ms2, acts1 @ acts2, Inl e)
           | Inr _ \<Rightarrow>
               (let (ms3, r3) = recv_session_config ms2 in
                case r3 of
                  Inl e \<Rightarrow> (ms3, acts1 @ acts2, Inl e)
                | Inr config \<Rightarrow>
                    (case session_threshold parse_size config of
                       Inl e \<Rightarrow> (ms3, acts1 @ acts2, Inl e)
                     | Inr threshold \<Rightarrow> (ms3, acts1 @ acts2, Inr (features, config, threshold))))))"

subsection \<open>Concrete data to run the session on\<close>

definition toy_env :: "toy_entry list \<Rightarrow> toy_entry rx_env" where
  "toy_env listing = \<lparr>en_holds_directory_objects = False, en_keeps_history = False, en_copied_tags = Inr True,
     en_set_metadata = (\<lambda>_. None), en_create_dir = (\<lambda>_. None), en_remove_marker = (\<lambda>_. None),
     en_delete_dir = (\<lambda>_. None), en_delete_file = (\<lambda>_. None), en_create_symlink = (\<lambda>_ _. None),
     en_listing = (\<lambda>_. Listed listing None), en_read_basis = (\<lambda>_. ([], None)), en_acl_decodes = (\<lambda>_. True),
     en_tx_open = True, en_dc_open = True, en_blake3 = (\<lambda>b. b), en_block_size = (\<lambda>_. 4)\<rparr>"

definition toy_config :: session_config where
  "toy_config = \<lparr>cf_transfer_mode = Direct, cf_src_path = '''', cf_qos = None, cf_peak_qos_rate = 0,
     cf_iops = None, cf_enable_integrity_check = False, cf_enable_acl = False, cf_is_source_reserved = False,
     cf_block_size = None, cf_delete_target = True, cf_delta_size_threshold = None\<rparr>"

definition toy_ndx :: "i32 \<Rightarrow> toy_entry \<Rightarrow> toy_entry ndx_entry" where
  "toy_ndx n e = \<lparr>ne_ndx = n, ne_entry = \<lparr>oi_entry = e, oi_version_index = None\<rparr>\<rparr>"

definition toy_page :: "toy_entry dir_page" where
  "toy_page = \<lparr>dp_dir_path = ''d'', dp_ndx_start = 0, dp_files = [toy_ndx 0 (''d/a'', False, 1, 5)],
     dp_subdirs = [], dp_gap_ndx = 1\<rparr>"

definition toy_full :: "toy_entry rx_input list" where
  "toy_full = [FromSender (SFilePage toy_page), FromSender (SFileBegin 0),
     FromSender (SEndOfFile 0 None), FromSender STransferDone, DiskAck (AckFileOutcome 0 OutcomeSuccess)]"

lemmas toy_defs = toy_env_def toy_config_def toy_ndx_def toy_page_def toy_full_def toy_model_def

end
