(* ===== verification/Inventory.thy ===== *)
theory Inventory
  imports ReceiverSession "HOL-Library.Multiset" "HOL-Library.List_Lexorder" "HOL-Library.Char_ord"
begin

section \<open>The directory inventory of the sender (crates/app/src/remote_inventory.rs)\<close>

text \<open>
  The source traversal delivers entries and, after the entries of a directory, that it has
  been listed; the inventory turns this into pages whose entries carry the session-wide
  indices by which both sides name them from then on. The name of an item, a component of its
  path, is the parameter \<open>name_of\<close>; the consumer of the pages is taken to keep listening.
\<close>

subsection \<open>The code\<close>

datatype 'e traversal_item =
    TEntry 'e
  | TDirectoryListed string
  | TFailure string string
  | TObservationFailure string string
  | TOther

datatype 'e ndx_event = NdxPage "'e dir_page" | NdxError string string | NdxDone

record 'e inventory =
  iv_files :: "'e observed_item list"
  iv_subdirs :: "'e observed_item list"
  iv_next :: i32

definition inventory_new :: "'e inventory" where
  "inventory_new = \<lparr>iv_files = [], iv_subdirs = [], iv_next = 0\<rparr>"

text \<open>\<open>saturating_add(1)\<close> on \<open>i32\<close>.\<close>

definition next_index :: "i32 \<Rightarrow> i32" where
  "next_index n = (if n = 0x7FFFFFFF then n else n + 1)"

fun index_entries :: "'e observed_item list \<Rightarrow> i32 \<Rightarrow> 'e ndx_entry list \<times> i32" where
  "index_entries [] n = ([], n)"
| "index_entries (item # items) n =
     (let (indexed, n') = index_entries items (next_index n) in (\<lparr>ne_ndx = n, ne_entry = item\<rparr> # indexed, n'))"

definition collect_entry :: "('e, 'v, 'm) data_model \<Rightarrow> 'e \<Rightarrow> 'e inventory \<Rightarrow> 'e inventory" where
  "collect_entry dm e iv =
     (if history_of dm e \<noteq> None then iv\<lparr>iv_files := iv_files iv @ item_all dm e\<rparr>
      else if ext_get_is_dir dm e then iv\<lparr>iv_subdirs := iv_subdirs iv @ [item_from_entry dm e]\<rparr>
      else iv\<lparr>iv_files := iv_files iv @ [item_from_entry dm e]\<rparr>)"

definition directory_listed ::
  "('e observed_item \<Rightarrow> string) \<Rightarrow> string \<Rightarrow> 'e inventory \<Rightarrow> 'e inventory \<times> 'e dir_page" where
  "directory_listed name_of path iv =
     (let (files, n1) = index_entries (sort_key name_of (iv_files iv)) (iv_next iv);
          (subdirs, n2) = index_entries (sort_key name_of (iv_subdirs iv)) n1
      in (\<lparr>iv_files = [], iv_subdirs = [], iv_next = next_index n2\<rparr>,
          \<lparr>dp_dir_path = path, dp_ndx_start = iv_next iv, dp_files = files, dp_subdirs = subdirs, dp_gap_ndx = n2\<rparr>))"

definition inventory_step ::
  "('e, 'v, 'm) data_model \<Rightarrow> ('e observed_item \<Rightarrow> string) \<Rightarrow> 'e traversal_item \<Rightarrow> 'e inventory \<Rightarrow>
    'e inventory \<times> 'e ndx_event list" where
  "inventory_step dm name_of item iv =
     (case item of
        TEntry e \<Rightarrow> (collect_entry dm e iv, [])
      | TDirectoryListed path \<Rightarrow> (let (iv', page) = directory_listed name_of path iv in (iv', [NdxPage page]))
      | TFailure path reason \<Rightarrow> (iv, [NdxError path reason])
      | TObservationFailure path reason \<Rightarrow> (iv, [NdxError path reason])
      | TOther \<Rightarrow> (iv, []))"

text \<open>The whole traversal, \<open>Inl\<close> an error of the session, and how the session finished.\<close>

fun directory_pages ::
  "('e, 'v, 'm) data_model \<Rightarrow> ('e observed_item \<Rightarrow> string) \<Rightarrow> (string + 'e traversal_item) list \<Rightarrow>
    string option \<Rightarrow> 'e inventory \<Rightarrow> 'e ndx_event list" where
  "directory_pages dm name_of [] incomplete iv =
     [case incomplete of None \<Rightarrow> NdxDone | Some reason \<Rightarrow> NdxError '''' (''traversal did not complete: '' @ reason)]"
| "directory_pages dm name_of (Inl e # rest) incomplete iv = [NdxError '''' e]"
| "directory_pages dm name_of (Inr item # rest) incomplete iv =
     (let (iv', events) = inventory_step dm name_of item iv
      in events @ directory_pages dm name_of rest incomplete iv')"

subsection \<open>Numbering\<close>

definition pages_of :: "'e ndx_event list \<Rightarrow> 'e dir_page list" where
  "pages_of events = concat (map (\<lambda>ev. case ev of NdxPage page \<Rightarrow> [page] | _ \<Rightarrow> []) events)"

lemma pages_of_simps [simp]:
  "pages_of [] = []" "pages_of (NdxPage p # evs) = p # pages_of evs" "pages_of (NdxError a b # evs) = pages_of evs"
  "pages_of (NdxDone # evs) = pages_of evs" "pages_of (as @ bs) = pages_of as @ pages_of bs"
  by (simp_all add: pages_of_def)

definition page_indices :: "'e dir_page \<Rightarrow> i32 list" where
  "page_indices p = map ne_ndx (dp_files p) @ map ne_ndx (dp_subdirs p) @ [dp_gap_ndx p]"

lemma next_index_of_nat: "k < 0x7FFFFFFF \<Longrightarrow> next_index (of_nat k) = of_nat (Suc k)"
proof -
  assume k: "k < 0x7FFFFFFF"
  have "(of_nat k :: i32) \<noteq> 0x7FFFFFFF"
  proof
    assume "(of_nat k :: i32) = 0x7FFFFFFF"
    then have "unat (of_nat k :: i32) = unat (0x7FFFFFFF :: i32)" by simp
    with k show False by (simp add: unat_of_nat take_bit_nat_eq_self)
  qed
  then show ?thesis by (simp add: next_index_def add.commute)
qed

text \<open>
  Within the range of \<open>i32\<close> the indices are the numbers from \<open>k\<close> on, whatever follows the
  largest one.
\<close>

definition index_at :: "nat \<Rightarrow> i32" where
  "index_at k = of_nat (min k 0x7FFFFFFF)"

lemma next_index_at: "next_index (index_at k) = index_at (Suc k)"
proof (cases "k < 0x7FFFFFFF")
  case True
  then show ?thesis using next_index_of_nat [of k] by (simp add: index_at_def min_def)
next
  case False
  then show ?thesis by (simp add: index_at_def next_index_def min_def)
qed

fun indices :: "nat \<Rightarrow> nat \<Rightarrow> i32 list" where
  "indices k 0 = []"
| "indices k (Suc n) = index_at k # indices (Suc k) n"

lemma length_indices [simp]: "length (indices k n) = n"
  by (induction k n rule: indices.induct) simp_all

lemma indices_add: "indices k (m + n) = indices k m @ indices (k + m) n"
  by (induction k m rule: indices.induct) simp_all

lemma set_indices: "set (indices k n) = index_at ` {k..<k + n}"
proof (induction k n rule: indices.induct)
  case (2 k n)
  have "{k..<k + Suc n} = insert k {Suc k..<Suc k + n}" by auto
  with 2 show ?case by simp
qed simp

lemma index_at_inj: "inj_on index_at {..<2 ^ 31}"
proof (rule inj_onI)
  fix x y :: nat
  assume "x \<in> {..<2 ^ 31}" "y \<in> {..<2 ^ 31}" "index_at x = index_at y"
  then have "unat (of_nat x :: i32) = unat (of_nat y :: i32)" "x < 2 ^ 32" "y < 2 ^ 32"
    by (auto simp: index_at_def min_def split: if_splits)
  then show "x = y" by (simp add: unat_of_nat take_bit_nat_eq_self)
qed

lemma distinct_indices: "k + n \<le> 2 ^ 31 \<Longrightarrow> distinct (indices k n)"
proof (induction k n rule: indices.induct)
  case (2 k n)
  have "index_at k \<notin> index_at ` {Suc k..<Suc k + n}"
  proof
    assume "index_at k \<in> index_at ` {Suc k..<Suc k + n}"
    then obtain j where "index_at k = index_at j" "Suc k \<le> j" "j < Suc k + n" by auto
    with 2(2) index_at_inj show False by (auto dest!: inj_onD [where x = k and y = j])
  qed
  with 2 show ?case by (simp add: set_indices)
qed simp

lemma index_entries_numbering:
  "index_entries items (index_at k) = (es, n) \<Longrightarrow>
    map ne_ndx es = indices k (length items) \<and> map ne_entry es = items \<and> n = index_at (k + length items)"
proof (induction items arbitrary: k es n)
  case (Cons item items)
  obtain es' n' where r: "index_entries items (index_at (Suc k)) = (es', n')"
    by (cases "index_entries items (index_at (Suc k))")
  from Cons.IH [OF r] Cons.prems show ?case
    by (auto simp: next_index_at r)
qed simp

lemma directory_listed_numbering:
  assumes "directory_listed name_of path iv = (iv', p)" "iv_next iv = index_at k"
  shows "page_indices p = indices k (length (page_indices p)) \<and>
    iv_next iv' = index_at (k + length (page_indices p)) \<and> iv_files iv' = [] \<and> iv_subdirs iv' = [] \<and>
    dp_ndx_start p = index_at k \<and> dp_dir_path p = path \<and>
    map ne_entry (dp_files p) = sort_key name_of (iv_files iv) \<and>
    map ne_entry (dp_subdirs p) = sort_key name_of (iv_subdirs iv)"
proof -
  let ?a = "length (iv_files iv)" and ?b = "length (iv_subdirs iv)"
  obtain es1 n1 where 1: "index_entries (sort_key name_of (iv_files iv)) (index_at k) = (es1, n1)"
    by (cases "index_entries (sort_key name_of (iv_files iv)) (index_at k)")
  note n1 = index_entries_numbering [OF 1]
  obtain es2 n2 where 2: "index_entries (sort_key name_of (iv_subdirs iv)) (index_at (k + ?a)) = (es2, n2)"
    by (cases "index_entries (sort_key name_of (iv_subdirs iv)) (index_at (k + ?a))")
  note n2 = index_entries_numbering [OF 2]
  have p: "p = \<lparr>dp_dir_path = path, dp_ndx_start = iv_next iv, dp_files = es1, dp_subdirs = es2, dp_gap_ndx = n2\<rparr>"
    and iv': "iv' = \<lparr>iv_files = [], iv_subdirs = [], iv_next = next_index n2\<rparr>"
    using assms 1 2 n1 by (auto simp: directory_listed_def)
  have ix: "page_indices p = indices k (?a + (?b + 1))"
    using n1 n2 by (simp only: page_indices_def p indices_add) simp
  then have "length (page_indices p) = ?a + (?b + 1)" by simp
  then show ?thesis
    using ix n1 n2 assms(2) p iv' by (simp add: next_index_at add.assoc)
qed

lemma collect_entry_next [simp]: "iv_next (collect_entry dm e iv) = iv_next iv"
  by (simp add: collect_entry_def)

lemma directory_pages_numbering:
  assumes "iv_next iv = index_at k"
  shows "\<exists>n. concat (map page_indices (pages_of (directory_pages dm name_of items incomplete iv))) = indices k n"
  using assms
proof (induction dm name_of items incomplete iv arbitrary: k rule: directory_pages.induct)
  case (1 dm name_of incomplete iv)
  then show ?case by (intro exI [of _ 0]) (simp split: option.split)
next
  case (2 dm name_of e rest incomplete iv)
  then show ?case by (intro exI [of _ 0]) simp
next
  case (3 dm name_of item rest incomplete iv)
  show ?case
  proof (cases item)
    case (TDirectoryListed path)
    obtain iv' p where l: "directory_listed name_of path iv = (iv', p)"
      by (cases "directory_listed name_of path iv")
    note num = directory_listed_numbering [OF l 3(2)]
    have st: "inventory_step dm name_of item iv = (iv', [NdxPage p])"
      by (simp add: inventory_step_def TDirectoryListed l)
    from 3(1) [OF st [symmetric] refl] num obtain n where
      "concat (map page_indices (pages_of (directory_pages dm name_of rest incomplete iv')))
        = indices (k + length (page_indices p)) n" by blast
    then have "concat (map page_indices (pages_of (directory_pages dm name_of (Inr item # rest) incomplete iv)))
        = indices k (length (page_indices p) + n)"
      using num by (simp add: st indices_add)
    then show ?thesis by blast
  next
    case (TEntry e)
    have st: "inventory_step dm name_of item iv = (collect_entry dm e iv, [])"
      by (simp add: inventory_step_def TEntry)
    from 3(1) [OF st [symmetric] refl, of k] 3(2) show ?thesis by (simp add: st)
  next
    case (TFailure p r)
    have st: "inventory_step dm name_of item iv = (iv, [NdxError p r])"
      by (simp add: inventory_step_def TFailure)
    from 3(1) [OF st [symmetric] refl, of k] 3(2) show ?thesis by (simp add: st)
  next
    case (TObservationFailure p r)
    have st: "inventory_step dm name_of item iv = (iv, [NdxError p r])"
      by (simp add: inventory_step_def TObservationFailure)
    from 3(1) [OF st [symmetric] refl, of k] 3(2) show ?thesis by (simp add: st)
  next
    case TOther
    have st: "inventory_step dm name_of item iv = (iv, [])"
      by (simp add: inventory_step_def TOther)
    from 3(1) [OF st [symmetric] refl, of k] 3(2) show ?thesis by (simp add: st)
  qed
qed

lemma indices_nth: "j < n \<Longrightarrow> indices k n ! j = index_at (k + j)"
  by (induction k n arbitrary: j rule: indices.induct) (auto simp: nth_Cons split: nat.split)

lemma inventory_indices:
  "\<exists>n. concat (map page_indices (pages_of (directory_pages dm name_of items incomplete inventory_new))) = indices 0 n"
proof (rule directory_pages_numbering)
  show "iv_next (inventory_new :: 'a inventory) = index_at 0" by (simp add: inventory_new_def index_at_def)
qed

text \<open>What both sides look an index up in: the table that has ingested the pages so far.\<close>

definition page_entries :: "'e dir_page \<Rightarrow> 'e ndx_entry list" where
  "page_entries p = dp_files p @ dp_subdirs p"

lemma ndx_ingest_page_entries:
  "ndx_ingest_page table page = fold (\<lambda>n t. t(ne_ndx n \<mapsto> ne_entry n)) (page_entries page) table"
  by (simp add: ndx_ingest_page_def page_entries_def)

lemma ingest_pages_entries:
  "fold (\<lambda>p t. ndx_ingest_page t p) ps table =
    fold (\<lambda>n t. t(ne_ndx n \<mapsto> ne_entry n)) (concat (map page_entries ps)) table"
  by (induction ps arbitrary: table) (simp_all add: ndx_ingest_page_entries)

lemma fold_update_other:
  "k \<notin> ne_ndx ` set ns \<Longrightarrow> fold (\<lambda>n t. t(ne_ndx n \<mapsto> ne_entry n)) ns table k = table k"
  by (induction ns arbitrary: table) auto

lemma fold_update_get:
  "distinct (map ne_ndx ns) \<Longrightarrow> n \<in> set ns \<Longrightarrow>
    fold (\<lambda>n t. t(ne_ndx n \<mapsto> ne_entry n)) ns table (ne_ndx n) = Some (ne_entry n)"
  by (induction ns arbitrary: table) (auto simp: fold_update_other)

lemma distinct_concat_prefix:
  "distinct (concat (map (\<lambda>p. g p @ h p) ps)) \<Longrightarrow> distinct (concat (map g ps))"
proof (induction ps)
  case (Cons p ps)
  have "set (concat (map g ps)) \<subseteq> set (concat (map (\<lambda>p. g p @ h p) ps))" by auto
  with Cons show ?case by (simp, blast)
qed simp

lemma page_entries_distinct:
  assumes "distinct (concat (map page_indices ps))"
  shows "distinct (map ne_ndx (concat (map page_entries ps)))"
proof -
  have "page_indices p = map ne_ndx (page_entries p) @ [dp_gap_ndx p]" for p :: "'a dir_page"
    by (simp add: page_entries_def page_indices_def)
  then have "page_indices = (\<lambda>p :: 'a dir_page. map ne_ndx (page_entries p) @ [dp_gap_ndx p])" by auto
  with assms have "distinct (concat (map (\<lambda>p. map ne_ndx (page_entries p) @ [dp_gap_ndx p]) ps))" by simp
  then have "distinct (concat (map (\<lambda>p. map ne_ndx (page_entries p)) ps))" by (rule distinct_concat_prefix)
  then show ?thesis by (simp add: map_concat comp_def)
qed

text \<open>
  An index names one entry of the session, on both sides: the indices of all pages
  together - those of the files, of the subdirectories and the gap after each page - are
  0, 1, 2, ... in order, and as long as there are at most \<open>2 ^ 31\<close> of them they are all
  different, and the table of whoever ingested the pages gives for the index of an
  advertised entry that entry.
\<close>

theorem index_names_one_entry:
  assumes "pages = pages_of (directory_pages dm name_of items incomplete inventory_new)"
    "length (concat (map page_indices pages)) \<le> 2 ^ 31"
  shows "distinct (concat (map page_indices pages)) \<and>
    (\<forall>j < length (concat (map page_indices pages)). concat (map page_indices pages) ! j = of_nat j) \<and>
    (\<forall>p \<in> set pages. \<forall>n \<in> set (dp_files p) \<union> set (dp_subdirs p).
       ndx_get (fold (\<lambda>p t. ndx_ingest_page t p) pages ndx_new) (ne_ndx n) = Some (ne_entry n))"
proof -
  obtain n where ix: "concat (map page_indices pages) = indices 0 n"
    using inventory_indices assms(1) by metis
  have d: "distinct (concat (map page_indices pages))"
    using assms(2) distinct_indices [of 0 n] by (simp only: ix) simp
  have "index_at j = of_nat j" if "j < 2 ^ 31" for j
    using that by (simp add: index_at_def min_def)
  then have "indices 0 n ! j = of_nat j" if "j < n" for j
    using that assms(2) indices_nth [of j n 0] by (simp add: ix)
  moreover have "ndx_get (fold (\<lambda>p t. ndx_ingest_page t p) pages ndx_new) (ne_ndx n) = Some (ne_entry n)"
    if "p \<in> set pages" "n \<in> set (dp_files p) \<union> set (dp_subdirs p)" for p n
    using that fold_update_get [OF page_entries_distinct [OF d]]
    by (auto simp: ndx_get_def ingest_pages_entries page_entries_def)
  ultimately show ?thesis using d by (simp add: ix)
qed

definition toy_traversal :: "(string + toy_entry traversal_item) list" where
  "toy_traversal = map Inr [TEntry (''b'', False, 1, 0), TEntry (''d'', True, 0, 0), TEntry (''a'', False, 2, 0),
     TDirectoryListed '''', TFailure ''x'' ''denied'', TEntry (''d/c'', False, 3, 0), TDirectoryListed ''d'']"

lemma toy_pages:
  "pages_of (directory_pages toy_model (\<lambda>i. fst (oi_entry i)) toy_traversal None inventory_new) =
    [\<lparr>dp_dir_path = '''', dp_ndx_start = 0, dp_files = [toy_ndx 0 (''a'', False, 2, 0), toy_ndx 1 (''b'', False, 1, 0)],
        dp_subdirs = [toy_ndx 2 (''d'', True, 0, 0)], dp_gap_ndx = 3\<rparr>,
     \<lparr>dp_dir_path = ''d'', dp_ndx_start = 4, dp_files = [toy_ndx 4 (''d/c'', False, 3, 0)],
        dp_subdirs = [], dp_gap_ndx = 5\<rparr>]"
  by (simp add: toy_traversal_def inventory_step_def collect_entry_def directory_listed_def inventory_new_def
      next_index_def toy_model_def ext_get_is_dir_def item_from_entry_def toy_ndx_def history_count_def item_all_def
      sort_key_def insort_key_def)

lemma index_names_one_entry_witness:
  "distinct (concat (map page_indices (pages_of
     (directory_pages toy_model (\<lambda>i. fst (oi_entry i)) toy_traversal None inventory_new))))"
  using index_names_one_entry [OF refl, of toy_model "\<lambda>i. fst (oi_entry i)" toy_traversal None]
  by (simp add: toy_pages page_indices_def)

text \<open>
  Beyond that range the index stays at its maximum: two entries then share it, and a
  transfer of the one is carried out as the other.
\<close>

lemma saturated_indices_collide:
  "fst (index_entries [x, y] 0x7FFFFFFF) = [\<lparr>ne_ndx = 0x7FFFFFFF, ne_entry = x\<rparr>, \<lparr>ne_ndx = 0x7FFFFFFF, ne_entry = y\<rparr>]"
  by (simp add: next_index_def)

subsection \<open>Every entry is listed\<close>

definition page_items :: "'e dir_page \<Rightarrow> 'e observed_item list" where
  "page_items p = map ne_entry (dp_files p) @ map ne_entry (dp_subdirs p)"

definition items_of :: "('e, 'v, 'm) data_model \<Rightarrow> 'e \<Rightarrow> 'e observed_item list" where
  "items_of dm e = (if history_of dm e \<noteq> None then item_all dm e else [item_from_entry dm e])"

fun traversed :: "('e, 'v, 'm) data_model \<Rightarrow> (string + 'e traversal_item) list \<Rightarrow> 'e observed_item multiset" where
  "traversed dm [] = {#}"
| "traversed dm (Inr (TEntry e) # rest) = mset (items_of dm e) + traversed dm rest"
| "traversed dm (_ # rest) = traversed dm rest"

definition pending :: "'e inventory \<Rightarrow> 'e observed_item multiset" where
  "pending iv = mset (iv_files iv) + mset (iv_subdirs iv)"

lemma collect_entry_pending: "pending (collect_entry dm e iv) = pending iv + mset (items_of dm e)"
  by (simp add: pending_def collect_entry_def items_of_def)

lemma directory_listed_items:
  "directory_listed name_of path iv = (iv', p) \<Longrightarrow> mset (page_items p) = pending iv \<and> pending iv' = {#}"
proof -
  assume l: "directory_listed name_of path iv = (iv', p)"
  have entries: "index_entries items n = (es, n') \<Longrightarrow> image_mset ne_entry (mset es) = mset items"
    for items :: "'a observed_item list" and n es n'
    by (induction items arbitrary: n es n') (auto split: prod.splits)
  show ?thesis
    using l by (auto simp: directory_listed_def page_items_def pending_def dest!: entries split: prod.splits)
qed

lemma directory_pages_items:
  "\<forall>i \<in> set items. \<not> isl i \<Longrightarrow> items \<noteq> [] \<Longrightarrow> last items = Inr (TDirectoryListed path) \<Longrightarrow>
    (\<Sum>p \<leftarrow> pages_of (directory_pages dm name_of items incomplete iv). mset (page_items p)) = pending iv + traversed dm items"
proof (induction dm name_of items incomplete iv rule: directory_pages.induct)
  case (3 dm name_of item rest incomplete iv)
  obtain iv' events where st: "inventory_step dm name_of item iv = (iv', events)"
    by (cases "inventory_step dm name_of item iv")
  show ?case
  proof (cases "rest = []")
    case True
    with 3(4) have "item = TDirectoryListed path" by simp
    with True show ?thesis
      by (auto simp: inventory_step_def split: prod.splits option.split dest!: directory_listed_items)
  next
    case False
    note ih = 3(1) [OF st [symmetric] refl]
    have "(\<Sum>p \<leftarrow> pages_of (directory_pages dm name_of rest incomplete iv'). mset (page_items p))
        = pending iv' + traversed dm rest"
      using ih 3(2,4) False by simp
    moreover have "(\<Sum>p \<leftarrow> pages_of events. mset (page_items p)) + pending iv' + traversed dm rest
        = pending iv + traversed dm (Inr item # rest)"
      using st by (cases item)
        (auto simp: inventory_step_def collect_entry_pending split: prod.splits dest!: directory_listed_items)
    ultimately show ?thesis by (simp add: st add.assoc)
  qed
qed simp_all

text \<open>
  C35. Nothing is lost or invented between the traversal and the pages: for a traversal
  without session errors that ends with a listed directory, the items of all pages together
  are exactly the traversed entries - an entry with a history once per version - with
  multiplicity.
\<close>

theorem inventory_lists_everything:
  assumes "\<forall>i \<in> set items. \<not> isl i" "items \<noteq> []" "last items = Inr (TDirectoryListed path)"
  shows "(\<Sum>p \<leftarrow> pages_of (directory_pages dm name_of items incomplete inventory_new). mset (page_items p))
    = traversed dm items"
  using directory_pages_items [OF assms, of dm name_of incomplete inventory_new]
  by (simp add: pending_def inventory_new_def)

lemma inventory_lists_everything_witness:
  "(\<Sum>p \<leftarrow> pages_of (directory_pages toy_model (\<lambda>i. fst (oi_entry i)) toy_traversal None inventory_new).
     mset (page_items p)) = traversed toy_model toy_traversal"
  by (rule inventory_lists_everything [where path = "''d''"]) (auto simp: toy_traversal_def)

end
