(* ===== verification/SenderSession.thy ===== *)
theory SenderSession
  imports Inventory Matcher
begin

section \<open>The remote sender session (crates/app/src/remote_sync/remote_sender_session.rs)\<close>

text \<open>
  The counterpart of the receiver session: it advertises the pages of the inventory, answers
  the receiver's requests with file streams, and keeps the ledger of its acknowledgements
  until the receiver says that it is done. The two halves run concurrently over one state,
  so a step consumes either an event of the inventory or a message of the receiver.
  \<open>sn_env\<close> holds what the source storage answers in that step and how many more messages the
  transport accepts before it fails; throttling only delays and is left out.
\<close>

subsection \<open>State\<close>

datatype sender_lifecycle = Advertising | RequestsOpen | TransferDoneSent | SessionCompleted | SessionFailed

text \<open>The \<open>u64\<close> counters, only ever increased by one, are naturals.\<close>

record sender_ledger =
  sl_transfer_count :: nat
  sl_success_count :: nat
  sl_error_count :: nat
  sl_errored_ndx :: "i32 set"
  sl_lifecycle :: sender_lifecycle

datatype source_outcome = Sent | SourceFailed

datatype payload_end = ReadFails string | FinishFails string | Evidence string

record source_payload =
  pl_chunks :: "bytes list"
  pl_end :: payload_end

datatype open_result = OpenFails string | StreamFails string | Opened source_payload

record 'e sn_env =
  se_read_symlink :: "'e \<Rightarrow> string + string"
  se_open :: "'e observed_item \<Rightarrow> open_result"
  se_acl :: "'e \<Rightarrow> bytes option"
  se_blake3 :: "bytes \<Rightarrow> bytes"
  se_sends :: nat

record 'e sender_state =
  sn_ledger :: sender_ledger
  sn_table :: "'e ndx_table"
  sn_completed :: "string set"
  sn_pages :: nat
  sn_listing_done :: bool
  sn_requests_done :: bool

datatype 'e sn_act =
    Send "'e sender_msg"
  | Stat "'e storage_entry_message"
  | ScannedView "'e observed_view"
  | BytesTracker u64
  | SaveCheckpoint "string set"
  | ClearCheckpoint

definition sender_ledger_new :: sender_ledger where
  "sender_ledger_new = \<lparr>sl_transfer_count = 0, sl_success_count = 0, sl_error_count = 0,
     sl_errored_ndx = {}, sl_lifecycle = Advertising\<rparr>"

definition record_transfer :: "sender_ledger \<Rightarrow> sender_ledger" where
  "record_transfer l = l\<lparr>sl_transfer_count := sl_transfer_count l + 1\<rparr>"

definition record_success :: "sender_ledger \<Rightarrow> sender_ledger \<times> nat" where
  "record_success l = (l\<lparr>sl_success_count := sl_success_count l + 1\<rparr>, sl_success_count l + 1)"

definition record_entry_error :: "sender_ledger \<Rightarrow> sender_ledger" where
  "record_entry_error l = l\<lparr>sl_error_count := sl_error_count l + 1\<rparr>"

definition record_indexed_error :: "i32 \<Rightarrow> sender_ledger \<Rightarrow> sender_ledger \<times> bool" where
  "record_indexed_error ndx l =
     (if ndx \<in> sl_errored_ndx l then (l, False)
      else (l\<lparr>sl_errored_ndx := insert ndx (sl_errored_ndx l), sl_error_count := sl_error_count l + 1\<rparr>, True))"

text \<open>The assertion of \<open>transition\<close>, active in debug builds, and the transition itself.\<close>

definition legal_transition :: "sender_lifecycle \<Rightarrow> sender_lifecycle \<Rightarrow> bool" where
  "legal_transition a b \<longleftrightarrow> (a, b) \<in> {(Advertising, RequestsOpen), (RequestsOpen, TransferDoneSent),
     (TransferDoneSent, SessionCompleted)} \<or> b = SessionFailed"

definition transition :: "sender_lifecycle \<Rightarrow> sender_ledger \<Rightarrow> sender_ledger" where
  "transition next l = l\<lparr>sl_lifecycle := next\<rparr>"

definition transfer_done_sent :: "sender_ledger \<Rightarrow> bool" where
  "transfer_done_sent l \<longleftrightarrow> sl_lifecycle l = TransferDoneSent"

definition upd_sn :: "(sender_ledger \<Rightarrow> sender_ledger) \<Rightarrow> 'e sender_state \<Rightarrow> 'e sender_state" where
  "upd_sn f s = s\<lparr>sn_ledger := f (sn_ledger s)\<rparr>"

text \<open>
  \<open>run\<close>: the checkpoint file, when it is there and parses, gives the initial set of completed
  paths.
\<close>

definition load_checkpoint :: "(string \<Rightarrow> string set option) \<Rightarrow> string option \<Rightarrow> string set" where
  "load_checkpoint parse content =
     (case content of
        None \<Rightarrow> {}
      | Some data \<Rightarrow> if data = [] then {} else (case parse data of Some paths \<Rightarrow> paths | None \<Rightarrow> {}))"

definition sender_state_new :: "string set \<Rightarrow> 'e sender_state" where
  "sender_state_new completed = \<lparr>sn_ledger = transition RequestsOpen sender_ledger_new, sn_table = ndx_new,
     sn_completed = completed, sn_pages = 0, sn_listing_done = False, sn_requests_done = False\<rparr>"

subsection \<open>Messages of a transfer\<close>

fun file_data :: "i32 \<Rightarrow> u64 \<Rightarrow> bytes list \<Rightarrow> 'e sender_msg list" where
  "file_data ndx offset [] = []"
| "file_data ndx offset (c # cs) =
     SFileData ndx \<lparr>dc_offset = offset, dc_data = c\<rparr> # file_data ndx (offset + of_nat (length c)) cs"

definition source_failure :: "('e, 'v, 'm) data_model \<Rightarrow> 'e observed_item \<Rightarrow> i32 \<Rightarrow> string \<Rightarrow> 'e sender_msg" where
  "source_failure dm item ndx reason = SEntryError (path_of dm (oi_entry item)) reason (Some ndx)"

text \<open>
  The messages of a full transfer in order, and its outcome; \<open>Inl\<close> is an error of the whole
  session.
\<close>

definition full_messages ::
  "('e, 'v, 'm) data_model \<Rightarrow> 'e sn_env \<Rightarrow> i32 \<Rightarrow> 'e observed_item \<Rightarrow>
    'e sender_msg list \<times> (string + source_outcome)" where
  "full_messages dm env ndx item =
     (let e = oi_entry item in
      if (case view_version dm (item_view item) of None \<Rightarrow> False | Some v \<Rightarrow> v_is_delete_marker dm v)
      then ([SWriteDeleteMarker ndx], Inr Sent)
      else if history_of dm e = None \<and> item_get_is_dir dm item \<and> marker_object_of dm e = None
      then ([SCreateDir e], Inr Sent)
      else if item_get_is_symlink dm item
      then (case se_read_symlink env e of
              Inr target \<Rightarrow> ([SCreateSymlink e target], Inr Sent)
            | Inl reason \<Rightarrow> ([source_failure dm item ndx reason], Inr SourceFailed))
      else (case se_open env item of
              OpenFails reason \<Rightarrow> ([source_failure dm item ndx reason], Inr SourceFailed)
            | StreamFails reason \<Rightarrow> ([], Inl reason)
            | Opened payload \<Rightarrow>
                (let begun = SFileBegin ndx # file_data ndx 0 (pl_chunks payload) in
                 case pl_end payload of
                   ReadFails reason \<Rightarrow> (begun @ [source_failure dm item ndx reason], Inr SourceFailed)
                 | FinishFails reason \<Rightarrow> (begun @ [source_failure dm item ndx reason], Inr SourceFailed)
                 | Evidence hash \<Rightarrow> (begun @ [SEndOfFile ndx (Some hash)], Inr Sent))))"

definition acl_messages :: "('e, 'v, 'm) data_model \<Rightarrow> 'e sn_env \<Rightarrow> bool \<Rightarrow> 'e \<Rightarrow> 'e sender_msg list" where
  "acl_messages dm env enable_acl e =
     (if enable_acl \<and> \<not> ext_get_is_symlink dm e
      then (case se_acl env e of Some acl_data \<Rightarrow> [SSetAcl e acl_data] | None \<Rightarrow> []) else [])"

text \<open>
  Sending stops at the first message the transport refuses, which is an error of the session;
  the access list that may follow is sent without looking at the result.
\<close>

definition transmit ::
  "nat \<Rightarrow> 'e sender_msg list \<Rightarrow> 'e sender_msg list \<Rightarrow> string + source_outcome \<Rightarrow>
    'e sn_act list \<times> (string + source_outcome)" where
  "transmit sends msgs optional r =
     (if length msgs \<le> sends then (map Send msgs @ map Send (take (sends - length msgs) optional), r)
      else (map Send (take sends msgs), Inl ''Channel closed''))"

definition send_full_transfer ::
  "('e, 'v, 'm) data_model \<Rightarrow> 'e sn_env \<Rightarrow> bool \<Rightarrow> i32 \<Rightarrow> 'e observed_item \<Rightarrow>
    'e sn_act list \<times> (string + source_outcome)" where
  "send_full_transfer dm env enable_acl ndx item =
     (let (msgs, r) = full_messages dm env ndx item;
          acl = (if r = Inr Sent \<and> history_of dm (oi_entry item) = None
                 then acl_messages dm env enable_acl (oi_entry item) else [])
      in transmit (se_sends env) msgs acl r)"

fun push_all :: "(bytes \<Rightarrow> bytes) \<Rightarrow> delta_matcher \<Rightarrow> bytes list \<Rightarrow> delta_matcher \<times> delta_token list" where
  "push_all blake3 m [] = (m, [])"
| "push_all blake3 m (c # cs) =
     (let (m1, toks) = dm_push blake3 m c; (m2, toks') = push_all blake3 m1 cs in (m2, toks @ toks'))"

definition token_message :: "i32 \<Rightarrow> delta_token \<Rightarrow> 'e sender_msg" where
  "token_message ndx tok = (case tok of Match block_index \<Rightarrow> SDeltaMatch ndx block_index | Data data \<Rightarrow> SDeltaData ndx data)"

definition signature_of :: "wire_signature \<Rightarrow> block_signature" where
  "signature_of ws = \<lparr>bs_rolling = ws_rolling ws, bs_strong = ws_strong ws\<rparr>"

definition delta_messages ::
  "('e, 'v, 'm) data_model \<Rightarrow> 'e sn_env \<Rightarrow> i32 \<Rightarrow> u32 \<Rightarrow> wire_signature list \<Rightarrow> 'e observed_item \<Rightarrow>
    'e sender_msg list \<times> (string + source_outcome)" where
  "delta_messages dm env ndx block_size signatures item =
     (case se_open env item of
        OpenFails reason \<Rightarrow> ([source_failure dm item ndx reason], Inr SourceFailed)
      | StreamFails reason \<Rightarrow> ([], Inl reason)
      | Opened payload \<Rightarrow>
          (let (matcher, toks) = push_all (se_blake3 env) (dm_new (map signature_of signatures) block_size) (pl_chunks payload);
               begun = map (token_message ndx) toks
           in case pl_end payload of
                ReadFails reason \<Rightarrow> (begun @ [source_failure dm item ndx reason], Inr SourceFailed)
              | FinishFails reason \<Rightarrow> (begun @ [source_failure dm item ndx reason], Inr SourceFailed)
              | Evidence hash \<Rightarrow>
                  (begun @ map (token_message ndx) (snd (dm_finish (se_blake3 env) matcher)) @ [SEndOfFile ndx (Some hash)],
                   Inr Sent)))"

definition send_delta_transfer ::
  "('e, 'v, 'm) data_model \<Rightarrow> 'e sn_env \<Rightarrow> bool \<Rightarrow> i32 \<Rightarrow> u32 \<Rightarrow> wire_signature list \<Rightarrow> 'e observed_item \<Rightarrow>
    'e sn_act list \<times> (string + source_outcome)" where
  "send_delta_transfer dm env enable_acl ndx block_size signatures item =
     (let (msgs, r) = delta_messages dm env ndx block_size signatures item;
          acl = (if r = Inr Sent then acl_messages dm env enable_acl (oi_entry item) else [])
      in transmit (se_sends env) msgs acl r)"

subsection \<open>Requests and acknowledgements\<close>

definition classification_to_stats_message ::
  "transfer_decision \<Rightarrow> 'e observed_item \<Rightarrow> 'e storage_entry_message option" where
  "classification_to_stats_message decision item =
     (case decision of
        FullTransfer \<Rightarrow> Some (MsgNew item)
      | DeltaTransfer \<Rightarrow> Some (MsgChanged item DataOnly)
      | MetadataOnly \<Rightarrow> Some (MsgChanged item MetadataOnlyChange)
      | Skip \<Rightarrow> None
      | Deleted \<Rightarrow> Some (MsgDeleted (oi_entry item)))"

definition record_classification :: "transfer_decision \<Rightarrow> 'e observed_item \<Rightarrow> 'e sn_act list" where
  "record_classification decision item =
     (case classification_to_stats_message decision item of Some m \<Rightarrow> [Stat m] | None \<Rightarrow> [])"

definition record_copy_error :: "string \<Rightarrow> string \<Rightarrow> 'e sn_act list" where
  "record_copy_error path reason = [Stat (MsgError CopyError path None reason)]"

definition show_i32 :: "i32 \<Rightarrow> string" where
  "show_i32 n = (if sint n < 0 then ''-'' @ show_nat (nat (- sint n)) else show_nat (nat (sint n)))"

text \<open>Every hundredth success writes the set of completed paths to the checkpoint file.\<close>

definition record_success_and_checkpoint ::
  "string option \<Rightarrow> 'e sender_state \<Rightarrow> 'e sender_state \<times> 'e sn_act list" where
  "record_success_and_checkpoint relative_path s =
     (let (l, count) = record_success (sn_ledger s);
          completed = (case relative_path of Some p \<Rightarrow> insert p (sn_completed s) | None \<Rightarrow> sn_completed s)
      in (s\<lparr>sn_ledger := l, sn_completed := completed\<rparr>, if count mod 100 = 0 then [SaveCheckpoint completed] else []))"

definition lookup_path :: "('e, 'v, 'm) data_model \<Rightarrow> i32 \<Rightarrow> 'e sender_state \<Rightarrow> string option" where
  "lookup_path dm ndx s = map_option (\<lambda>item. path_of dm (oi_entry item)) (ndx_get (sn_table s) ndx)"

datatype sn_flow = SnContinue | SnDone | SnFail string

definition handle_transfer_request ::
  "('e, 'v, 'm) data_model \<Rightarrow> 'e sn_env \<Rightarrow> bool \<Rightarrow> i32 \<Rightarrow> transfer_decision \<Rightarrow> 'e sender_state \<Rightarrow>
    'e sender_state \<times> 'e sn_act list \<times> sn_flow" where
  "handle_transfer_request dm env enable_acl ndx decision s =
     (case ndx_get (sn_table s) ndx of
        None \<Rightarrow> (s, [], SnContinue)
      | Some item \<Rightarrow>
          (let (acts, r) = send_full_transfer dm env enable_acl ndx item;
               acts1 = record_classification decision item @ acts
           in case r of
                Inl e \<Rightarrow> (s, acts1, SnFail e)
              | Inr Sent \<Rightarrow> (upd_sn record_transfer s, acts1, SnContinue)
              | Inr SourceFailed \<Rightarrow>
                  (let (l, first) = record_indexed_error ndx (sn_ledger s)
                   in (s\<lparr>sn_ledger := record_transfer l\<rparr>,
                       acts1 @ (if first then record_copy_error (path_of dm (oi_entry item))
                                  (''source read failed for ndx '' @ show_i32 ndx) else []),
                       SnContinue))))"

definition handle_delta_request ::
  "('e, 'v, 'm) data_model \<Rightarrow> 'e sn_env \<Rightarrow> bool \<Rightarrow> i32 \<Rightarrow> u32 \<Rightarrow> wire_signature list \<Rightarrow> 'e sender_state \<Rightarrow>
    'e sender_state \<times> 'e sn_act list \<times> sn_flow" where
  "handle_delta_request dm env enable_acl ndx block_size signatures s =
     (case ndx_get (sn_table s) ndx of
        None \<Rightarrow> (s, [], SnContinue)
      | Some item \<Rightarrow>
          (let (acts, r) = send_delta_transfer dm env enable_acl ndx block_size signatures item;
               acts1 = record_classification DeltaTransfer item @ acts
           in case r of
                Inl e \<Rightarrow> (s, acts1, SnFail e)
              | Inr Sent \<Rightarrow> (upd_sn record_transfer s, acts1, SnContinue)
              | Inr SourceFailed \<Rightarrow>
                  (let (l, first) = record_indexed_error ndx (sn_ledger s)
                   in (s\<lparr>sn_ledger := l\<rparr>,
                       acts1 @ (if first then record_copy_error (path_of dm (oi_entry item))
                                  (''delta source read failed for ndx '' @ show_i32 ndx) else []),
                       SnContinue))))"

definition handle_redo ::
  "('e, 'v, 'm) data_model \<Rightarrow> 'e sn_env \<Rightarrow> bool \<Rightarrow> i32 \<Rightarrow> 'e sender_state \<Rightarrow>
    'e sender_state \<times> 'e sn_act list \<times> sn_flow" where
  "handle_redo dm env enable_acl ndx s =
     (case ndx_get (sn_table s) ndx of
        None \<Rightarrow> (s, [], SnContinue)
      | Some item \<Rightarrow>
          (let (acts, r) = send_full_transfer dm env enable_acl ndx item
           in case r of
                Inl e \<Rightarrow> (s, acts, SnFail e)
              | Inr Sent \<Rightarrow> (s, acts, SnContinue)
              | Inr SourceFailed \<Rightarrow> (s\<lparr>sn_ledger := fst (record_indexed_error ndx (sn_ledger s))\<rparr>, acts, SnContinue)))"

definition handle_indexed_error ::
  "('e, 'v, 'm) data_model \<Rightarrow> i32 \<Rightarrow> string \<Rightarrow> 'e sender_state \<Rightarrow> 'e sender_state \<times> 'e sn_act list \<times> sn_flow" where
  "handle_indexed_error dm ndx reason s =
     (if sint ndx < 0 then (s, [], SnFail reason)
      else let (l, first) = record_indexed_error ndx (sn_ledger s);
               path = (case lookup_path dm ndx s of Some p \<Rightarrow> p | None \<Rightarrow> ''<ndx-'' @ show_i32 ndx @ ''>'')
           in (s\<lparr>sn_ledger := l\<rparr>, if first then record_copy_error path reason else [], SnContinue))"

definition sn_message ::
  "('e, 'v, 'm) data_model \<Rightarrow> 'e sn_env \<Rightarrow> bool \<Rightarrow> 'e receiver_msg \<Rightarrow> 'e sender_state \<Rightarrow>
    'e sender_state \<times> 'e sn_act list \<times> sn_flow" where
  "sn_message dm env enable_acl msg s =
     (case msg of
        RTransferRequest ndx decision \<Rightarrow> handle_transfer_request dm env enable_acl ndx decision s
      | RDeltaTransferRequest ndx block_size signatures \<Rightarrow> handle_delta_request dm env enable_acl ndx block_size signatures s
      | RClassifiedObservation ndx decision \<Rightarrow>
          (s, (case ndx_get (sn_table s) ndx of Some item \<Rightarrow> record_classification decision item | None \<Rightarrow> []), SnContinue)
      | RClassified e decision \<Rightarrow> (s, record_classification decision (item_from_entry dm e), SnContinue)
      | RRedo ndx \<Rightarrow> handle_redo dm env enable_acl ndx s
      | RRequestsDone \<Rightarrow>
          if transfer_done_sent (sn_ledger s) then (s, [], SnContinue)
          else if se_sends env = 0 then (s, [], SnFail ''Channel closed'')
          else (upd_sn (transition TransferDoneSent) s, [Send STransferDone], SnContinue)
      | RSuccess ndx \<Rightarrow> (let (s', acts) = record_success_and_checkpoint (lookup_path dm ndx s) s in (s', acts, SnContinue))
      | REntrySuccess e \<Rightarrow> (let (s', acts) = record_success_and_checkpoint (Some (path_of dm e)) s in (s', acts, SnContinue))
      | RProgress snapshot \<Rightarrow> (s, [BytesTracker (ps_bytes_transferred snapshot)], SnContinue)
      | REntryError e reason \<Rightarrow> (upd_sn record_entry_error s, record_copy_error (path_of dm e) reason, SnContinue)
      | RError ndx reason \<Rightarrow> handle_indexed_error dm ndx reason s
      | RAllDone \<Rightarrow>
          if \<not> transfer_done_sent (sn_ledger s)
          then (s, [], SnFail ''Received AllDone before RequestsDone/TransferDone'')
          else (upd_sn (transition SessionCompleted) s, [], SnDone)
      | _ \<Rightarrow> (s, [], SnContinue))"

subsection \<open>Advertising the file list\<close>

definition advertise_event ::
  "'e sn_env \<Rightarrow> 'e ndx_event \<Rightarrow> 'e sender_state \<Rightarrow> 'e sender_state \<times> 'e sn_act list \<times> sn_flow" where
  "advertise_event env event s =
     (case event of
        NdxPage page \<Rightarrow>
          (let s1 = s\<lparr>sn_table := ndx_ingest_page (sn_table s) page, sn_pages := sn_pages s + 1\<rparr>;
               scanned = map (\<lambda>n. ScannedView (item_view (ne_entry n))) (dp_files page @ dp_subdirs page)
           in if se_sends env = 0 then (s1, scanned, SnFail ''Channel closed'')
              else (s1, scanned @ [Send (SFilePage page)], SnContinue))
      | NdxError path reason \<Rightarrow>
          if se_sends env = 0 then (s, [], SnFail ''Channel closed'')
          else (s, [Send (SFileListError path reason)], SnContinue)
      | NdxDone \<Rightarrow>
          if se_sends env = 0 then (s, [], SnFail ''Channel closed'')
          else (s, [Send SFileListDone], SnDone))"

subsection \<open>The session\<close>

datatype 'e sn_input = Listing "'e ndx_event" | ListingClosed | FromReceiver "'e receiver_msg" | ReceiverClosed

definition sn_fail :: "string \<Rightarrow> string \<Rightarrow> 'e sender_state \<Rightarrow> 'e sender_state \<times> (string \<times> string) option" where
  "sn_fail stage reason s = (upd_sn (transition SessionFailed) s, Some (stage, reason))"

text \<open>
  One step of the joined halves; a half that has ended reads no more. The first failure of
  either ends both.
\<close>

definition sn_step ::
  "('e, 'v, 'm) data_model \<Rightarrow> bool \<Rightarrow> 'e sn_env \<Rightarrow> 'e sn_input \<Rightarrow> 'e sender_state \<Rightarrow>
    'e sender_state \<times> 'e sn_act list \<times> (string \<times> string) option" where
  "sn_step dm enable_acl env input s =
     (let listing = (\<lambda>ev. if sn_listing_done s then (s, [], None)
            else case advertise_event env ev s of
                   (s1, acts, SnContinue) \<Rightarrow> (s1, acts, None)
                 | (s1, acts, SnDone) \<Rightarrow> (s1\<lparr>sn_listing_done := True\<rparr>, acts, None)
                 | (s1, acts, SnFail e) \<Rightarrow> (let (s2, err) = sn_fail ''advertising'' e s1 in (s2, acts, err)))
      in case input of
           Listing ev \<Rightarrow> listing ev
         | ListingClosed \<Rightarrow> listing NdxDone
         | FromReceiver msg \<Rightarrow>
             if sn_requests_done s then (s, [], None)
             else (case sn_message dm env enable_acl msg s of
                     (s1, acts, SnContinue) \<Rightarrow> (s1, acts, None)
                   | (s1, acts, SnDone) \<Rightarrow> (s1\<lparr>sn_requests_done := True\<rparr>, acts, None)
                   | (s1, acts, SnFail e) \<Rightarrow> (let (s2, err) = sn_fail ''requests/acks'' e s1 in (s2, acts, err)))
         | ReceiverClosed \<Rightarrow>
             if sn_requests_done s then (s, [], None)
             else (let (s1, err) = sn_fail ''requests/acks'' ''Transport closed during request/ack phase'' s
                   in (s1, [], err)))"

definition save_or_clear_checkpoint :: "string set \<Rightarrow> nat \<Rightarrow> 'e sn_act list" where
  "save_or_clear_checkpoint completed error_count =
     (if error_count = 0 then [ClearCheckpoint] else [SaveCheckpoint completed])"

datatype sn_result = SnRunning | SnError string string | SnSummary nat nat nat nat nat

fun sn_run ::
  "('e, 'v, 'm) data_model \<Rightarrow> bool \<Rightarrow> ('e sn_env \<times> 'e sn_input) list \<Rightarrow> 'e sender_state \<Rightarrow>
    'e sender_state \<times> 'e sn_act list \<times> sn_result" where
  "sn_run dm enable_acl inputs s =
     (if sn_listing_done s \<and> sn_requests_done s
      then (s, save_or_clear_checkpoint (sn_completed s) (sl_error_count (sn_ledger s)),
            SnSummary (sn_pages s) (card (dom (sn_table s))) (sl_transfer_count (sn_ledger s)) (sl_success_count (sn_ledger s))
              (sl_error_count (sn_ledger s)))
      else case inputs of
             [] \<Rightarrow> (s, [], SnRunning)
           | (env, input) # rest \<Rightarrow>
               (case sn_step dm enable_acl env input s of
                  (s1, acts, Some (stage, reason)) \<Rightarrow> (s1, acts, SnError stage reason)
                | (s1, acts, None) \<Rightarrow>
                    (let (s2, acts', r) = sn_run dm enable_acl rest s1 in (s2, acts @ acts', r))))"

declare sn_run.simps [simp del]

end
