(* ===== verification/SenderProofs.thy ===== *)
theory SenderProofs
  imports SenderSession
begin

section \<open>What a sender session guarantees\<close>

text \<open>
  The order of the session's announcements, the answer to each request, and the accounting
  of failures, for every sequence of inventory events and receiver messages.
\<close>

subsection \<open>Every request is answered once\<close>

definition answers :: "i32 \<Rightarrow> 'e \<Rightarrow> 'e sender_msg \<Rightarrow> bool" where
  "answers ndx e msg \<longleftrightarrow>
     (case msg of
        SEndOfFile n _ \<Rightarrow> n = ndx
      | SEntryError _ _ n \<Rightarrow> n = Some ndx
      | SWriteDeleteMarker n \<Rightarrow> n = ndx
      | SCreateDir e' \<Rightarrow> e' = e
      | SCreateSymlink e' _ \<Rightarrow> e' = e
      | _ \<Rightarrow> False)"

lemma answers_simps [simp]:
  "answers ndx e (SEndOfFile n h) \<longleftrightarrow> n = ndx" "answers ndx e (SWriteDeleteMarker n) \<longleftrightarrow> n = ndx"
  "answers ndx e (SCreateDir e') \<longleftrightarrow> e' = e" "answers ndx e (SCreateSymlink e' t) \<longleftrightarrow> e' = e"
  "\<not> answers ndx e (SFileBegin n)" "\<not> answers ndx e (SFileData n c)" "\<not> answers ndx e (SSetAcl e' a)"
  "\<not> answers ndx e (token_message n tok)" "answers ndx e (source_failure dm item n r) \<longleftrightarrow> n = ndx"
  by (auto simp: answers_def source_failure_def token_message_def split: delta_token.split)






text \<open>
  C16. A request for an advertised index is answered, and answered once: unless the session
  fails as a whole, what a step sends in reply to a full, delta or redo request is a stream
  of messages with exactly one that settles the transfer - the end of the file, a failure of
  the source for that index, or the creation of the entry - followed by at most an access
  list.
\<close>

definition sent_msgs :: "'e sn_act list \<Rightarrow> 'e sender_msg list" where
  "sent_msgs acts = concat (map (\<lambda>a. case a of Send m \<Rightarrow> [m] | _ \<Rightarrow> []) acts)"

lemma sent_msgs_simps [simp]:
  "sent_msgs [] = []" "sent_msgs (as @ bs) = sent_msgs as @ sent_msgs bs" "sent_msgs (map Send ms) = ms"
  "sent_msgs (Send m # as) = m # sent_msgs as" "sent_msgs (Stat x # as) = sent_msgs as"
  "sent_msgs (ScannedView v # as) = sent_msgs as" "sent_msgs (BytesTracker b # as) = sent_msgs as"
  "sent_msgs (SaveCheckpoint p # as) = sent_msgs as" "sent_msgs (ClearCheckpoint # as) = sent_msgs as"
  "sent_msgs (record_classification d item) = []" "sent_msgs (record_copy_error path r) = []"
  by (induction ms) (auto simp: sent_msgs_def record_classification_def record_copy_error_def split: option.split)

lemma acl_messages_cases: "acl_messages dm env acl e = [] \<or> (\<exists>a. acl_messages dm env acl e = [SSetAcl e a])"
  by (auto simp: acl_messages_def split: option.split)

lemma acl_messages_prefix:
  "take n (acl_messages dm env acl e) = [] \<or> (\<exists>a. take n (acl_messages dm env acl e) = [SSetAcl e a])"
  using acl_messages_cases [of dm env acl e] by (cases n) auto







subsection \<open>The announcements of the session\<close>

definition sends_of :: "'e sender_msg \<Rightarrow> 'e sn_act list \<Rightarrow> nat" where
  "sends_of m acts = length (filter (\<lambda>x. x = m) (sent_msgs acts))"

lemma sends_of_simps [simp]:
  "sends_of m [] = 0" "sends_of m (as @ bs) = sends_of m as + sends_of m bs"
  "sends_of m (Send x # as) = (if x = m then 1 else 0) + sends_of m as" "sends_of m (Stat t # as) = sends_of m as"
  "sends_of m (ScannedView v # as) = sends_of m as" "sends_of m (BytesTracker b # as) = sends_of m as"
  "sends_of m (SaveCheckpoint p # as) = sends_of m as" "sends_of m (ClearCheckpoint # as) = sends_of m as"
  "sends_of m (record_classification d item) = 0" "sends_of m (record_copy_error path r) = 0"
  by (simp_all add: sends_of_def)

lemma sends_of_views [simp]: "sends_of m (map (\<lambda>n. ScannedView (f n)) ns) = 0"
  by (induction ns) simp_all

text \<open>Transfers never carry the announcements.\<close>

definition payload_only :: "'e sender_msg list \<Rightarrow> bool" where
  "payload_only msgs \<longleftrightarrow> STransferDone \<notin> set msgs \<and> SFileListDone \<notin> set msgs"

lemma file_data_payload: "payload_only (file_data n off cs)"
  by (induction n off cs rule: file_data.induct) (auto simp: payload_only_def)

lemma full_messages_payload: "payload_only (fst (full_messages dm env ndx item))"
  using file_data_payload [of ndx 0]
  by (auto simp: full_messages_def Let_def payload_only_def source_failure_def
      split: if_splits sum.splits open_result.splits payload_end.splits option.splits)

lemma delta_messages_payload: "payload_only (fst (delta_messages dm env ndx bs sigs item))"
proof -
  have "STransferDone \<noteq> (token_message ndx tok :: 'a sender_msg)" "SFileListDone \<noteq> (token_message ndx tok :: 'a sender_msg)" for tok
    by (simp_all add: token_message_def split: delta_token.split)
  then show ?thesis
    by (auto simp: delta_messages_def Let_def payload_only_def source_failure_def split_beta
        split: open_result.split payload_end.split)
qed

lemma acl_messages_payload: "payload_only (acl_messages dm env acl e)"
  using acl_messages_cases [of dm env acl e] by (auto simp: payload_only_def)

lemma payload_only_take: "payload_only msgs \<Longrightarrow> payload_only (take n msgs)"
  by (auto simp: payload_only_def dest: in_set_takeD)

lemma sends_of_payload:
  "payload_only msgs \<Longrightarrow> sends_of STransferDone (map Send msgs) = 0"
  "payload_only msgs \<Longrightarrow> sends_of SFileListDone (map Send msgs) = 0"
  by (auto simp: sends_of_def payload_only_def filter_empty_conv)

lemma transmit_payload:
  "transmit n msgs opt r = (acts, r') \<Longrightarrow> payload_only msgs \<Longrightarrow> payload_only opt \<Longrightarrow>
    sends_of STransferDone acts = 0 \<and> sends_of SFileListDone acts = 0"
  by (auto simp: transmit_def sends_of_payload payload_only_take split: if_splits)

lemma send_full_payload:
  assumes "send_full_transfer dm env acl ndx item = (acts, r)"
  shows "sends_of STransferDone acts = 0" "sends_of SFileListDone acts = 0"
  using assms full_messages_payload [of dm env ndx item] acl_messages_payload [of dm env acl "oi_entry item"]
  by (auto simp: send_full_transfer_def payload_only_def split: prod.splits if_splits dest!: transmit_payload)

lemma send_delta_payload:
  assumes "send_delta_transfer dm env acl ndx bs sigs item = (acts, r)"
  shows "sends_of STransferDone acts = 0" "sends_of SFileListDone acts = 0"
  using assms delta_messages_payload [of dm env ndx bs sigs item] acl_messages_payload [of dm env acl "oi_entry item"]
  by (auto simp: send_delta_transfer_def payload_only_def split: prod.splits if_splits dest!: transmit_payload)

text \<open>Where the ledger of a running session can be, and how many announcements that stands for.\<close>

definition sn_good :: "'e sender_state \<Rightarrow> bool" where
  "sn_good s \<longleftrightarrow> (if sn_requests_done s then sl_lifecycle (sn_ledger s) = SessionCompleted
     else sl_lifecycle (sn_ledger s) \<in> {RequestsOpen, TransferDoneSent})"

definition done_weight :: "'e sender_state \<Rightarrow> nat" where
  "done_weight s = (if sl_lifecycle (sn_ledger s) \<in> {TransferDoneSent, SessionCompleted} then 1 else 0)"

definition list_weight :: "'e sender_state \<Rightarrow> nat" where
  "list_weight s = (if sn_listing_done s then 1 else 0)"

lemmas sn_ledger_defs = record_indexed_error_def record_transfer_def record_success_def record_entry_error_def
  upd_sn_def transition_def Let_def

definition sn_quiet :: "'e sender_state \<Rightarrow> 'e sender_state \<Rightarrow> 'e sn_act list \<Rightarrow> sn_flow \<Rightarrow> bool" where
  "sn_quiet s t acts fl \<longleftrightarrow> sends_of STransferDone acts = 0 \<and> sends_of SFileListDone acts = 0 \<and>
     sn_listing_done t = sn_listing_done s \<and> sn_requests_done t = sn_requests_done s \<and>
     sl_lifecycle (sn_ledger t) = sl_lifecycle (sn_ledger s) \<and> fl \<noteq> SnDone"

lemma quiet_if: "sends_of m (if b then record_copy_error p r else []) = 0"
  by simp

lemma handle_transfer_request_quiet:
  "handle_transfer_request dm env acl ndx d s = (t, acts, fl) \<Longrightarrow> sn_quiet s t acts fl"
  by (auto simp: handle_transfer_request_def sn_quiet_def sn_ledger_defs send_full_payload
      split: option.splits prod.splits sum.splits source_outcome.splits if_splits)

lemma handle_delta_request_quiet:
  "handle_delta_request dm env acl ndx bs sigs s = (t, acts, fl) \<Longrightarrow> sn_quiet s t acts fl"
  by (auto simp: handle_delta_request_def sn_quiet_def sn_ledger_defs send_delta_payload
      split: option.splits prod.splits sum.splits source_outcome.splits if_splits)

lemma handle_redo_quiet: "handle_redo dm env acl ndx s = (t, acts, fl) \<Longrightarrow> sn_quiet s t acts fl"
  by (auto simp: handle_redo_def sn_quiet_def sn_ledger_defs send_full_payload
      split: option.splits prod.splits sum.splits source_outcome.splits if_splits)

lemma handle_indexed_error_quiet: "handle_indexed_error dm ndx r s = (t, acts, fl) \<Longrightarrow> sn_quiet s t acts fl"
  by (auto simp: handle_indexed_error_def sn_quiet_def sn_ledger_defs split: if_splits)

lemma record_success_quiet:
  "record_success_and_checkpoint p s = (t, acts) \<Longrightarrow> sn_quiet s t acts SnContinue"
  by (auto simp: record_success_and_checkpoint_def sn_quiet_def sn_ledger_defs)

definition announces :: "'e receiver_msg \<Rightarrow> bool" where
  "announces msg \<longleftrightarrow> msg = RRequestsDone \<or> msg = RAllDone"

lemma sn_message_quiet:
  assumes "sn_message dm env acl msg s = (t, acts, fl)" "\<not> announces msg"
  shows "sn_quiet s t acts fl"
proof (cases msg)
  case (RClassifiedObservation ndx d)
  with assms show ?thesis by (auto simp: sn_message_def sn_quiet_def split: option.splits)
next
  case (REntryError e r)
  with assms show ?thesis by (auto simp: sn_message_def sn_quiet_def upd_sn_def record_entry_error_def)
qed (use assms in \<open>auto simp: sn_message_def announces_def dest: record_success_quiet handle_transfer_request_quiet
    handle_delta_request_quiet handle_redo_quiet handle_indexed_error_quiet split: prod.splits\<close>,
  (simp_all add: sn_quiet_def)?)

lemma sn_message_step:
  assumes "sn_message dm env acl msg s = (t, acts, fl)" "sn_good s" "\<not> sn_requests_done s"
  shows "sends_of SFileListDone acts = 0 \<and> sn_listing_done t = sn_listing_done s \<and> sn_requests_done t = sn_requests_done s \<and>
    sends_of STransferDone acts + done_weight s = done_weight t \<and>
    (if fl = SnDone then sl_lifecycle (sn_ledger t) = SessionCompleted
     else sl_lifecycle (sn_ledger t) \<in> {RequestsOpen, TransferDoneSent}) \<and>
    (sl_lifecycle (sn_ledger s) = sl_lifecycle (sn_ledger t) \<or>
     legal_transition (sl_lifecycle (sn_ledger s)) (sl_lifecycle (sn_ledger t)))"
proof (cases "announces msg")
  case True
  with assms show ?thesis
    by (auto simp: announces_def sn_message_def sn_good_def done_weight_def transfer_done_sent_def
        legal_transition_def upd_sn_def transition_def split: if_splits)
next
  case False
  with sn_message_quiet [OF assms(1)] assms(2,3) show ?thesis
    by (auto simp: sn_quiet_def sn_good_def done_weight_def)
qed

lemma advertise_step:
  assumes "advertise_event env ev s = (t, acts, fl)"
  shows "sends_of STransferDone acts = 0 \<and> sn_ledger t = sn_ledger s \<and> sn_listing_done t = sn_listing_done s \<and>
    sn_requests_done t = sn_requests_done s \<and> sends_of SFileListDone acts = (if fl = SnDone then 1 else 0)"
  using assms by (auto simp: advertise_event_def Let_def split: ndx_event.splits if_splits)

lemma sn_step_weights:
  assumes "sn_step dm acl env input s = (t, acts, err)" "sn_good s"
  shows "if err = None
    then sn_good t \<and> sends_of STransferDone acts + done_weight s = done_weight t \<and>
      sends_of SFileListDone acts + list_weight s = list_weight t \<and>
      (sl_lifecycle (sn_ledger s) = sl_lifecycle (sn_ledger t) \<or>
       legal_transition (sl_lifecycle (sn_ledger s)) (sl_lifecycle (sn_ledger t)))
    else sl_lifecycle (sn_ledger t) = SessionFailed \<and> sends_of STransferDone acts + done_weight s \<le> 1 \<and>
      sends_of SFileListDone acts + list_weight s \<le> 1"
proof -
  have listing: ?thesis if "\<not> sn_listing_done s" and ad: "advertise_event env ev s = (s1, as, fl)"
    and st: "(t, acts, err) = (case fl of SnContinue \<Rightarrow> (s1, as, None)
      | SnDone \<Rightarrow> (s1\<lparr>sn_listing_done := True\<rparr>, as, None)
      | SnFail e \<Rightarrow> (let (s2, er) = sn_fail ''advertising'' e s1 in (s2, as, er)))" for ev s1 as fl
    using that advertise_step [OF ad] assms(2)
    by (cases fl) (auto simp: sn_good_def done_weight_def list_weight_def sn_fail_def upd_sn_def transition_def)
  have requests: ?thesis if "\<not> sn_requests_done s" and ms: "sn_message dm env acl msg s = (s1, as, fl)"
    and st: "(t, acts, err) = (case fl of SnContinue \<Rightarrow> (s1, as, None)
      | SnDone \<Rightarrow> (s1\<lparr>sn_requests_done := True\<rparr>, as, None)
      | SnFail e \<Rightarrow> (let (s2, er) = sn_fail ''requests/acks'' e s1 in (s2, as, er)))" for msg s1 as fl
    using that sn_message_step [OF ms assms(2)]
    by (cases fl) (auto simp: sn_good_def done_weight_def list_weight_def sn_fail_def upd_sn_def transition_def
        split: if_splits)
  show ?thesis
  proof (cases input)
    case (Listing ev)
    obtain s1 as fl where "advertise_event env ev s = (s1, as, fl)" by (cases "advertise_event env ev s") auto
    with assms Listing listing [of ev s1 as fl] show ?thesis
      by (cases "sn_listing_done s"; cases fl) (auto simp: sn_step_def Let_def)
  next
    case ListingClosed
    obtain s1 as fl where "advertise_event env NdxDone s = (s1, as, fl)" by (cases "advertise_event env NdxDone s") auto
    with assms ListingClosed listing [of NdxDone s1 as fl] show ?thesis
      by (cases "sn_listing_done s"; cases fl) (auto simp: sn_step_def Let_def)
  next
    case (FromReceiver msg)
    obtain s1 as fl where "sn_message dm env acl msg s = (s1, as, fl)" by (cases "sn_message dm env acl msg s") auto
    with assms FromReceiver requests [of msg s1 as fl] show ?thesis
      by (cases "sn_requests_done s"; cases fl) (auto simp: sn_step_def Let_def)
  next
    case ReceiverClosed
    with assms show ?thesis
      by (cases "sn_requests_done s")
        (auto simp: sn_step_def sn_fail_def sn_good_def done_weight_def list_weight_def upd_sn_def transition_def)
  qed
qed

lemma sn_run_weights:
  assumes "sn_run dm acl inputs s = (t, acts, r)" "sn_good s"
  shows "sends_of STransferDone acts + done_weight s \<le> 1 \<and> sends_of SFileListDone acts + list_weight s \<le> 1 \<and>
    (\<forall>p n tr ok er. r = SnSummary p n tr ok er \<longrightarrow> sl_lifecycle (sn_ledger t) = SessionCompleted \<and>
      sends_of STransferDone acts + done_weight s = 1 \<and> sends_of SFileListDone acts + list_weight s = 1)"
  using assms
proof (induction inputs arbitrary: s t acts r)
  case Nil
  then show ?case
    by (auto simp: sn_run.simps [of dm acl "[]"] sn_good_def done_weight_def list_weight_def
        save_or_clear_checkpoint_def split: if_splits)
next
  case (Cons x rest)
  obtain env input where x: "x = (env, input)" by (cases x)
  show ?case
  proof (cases "sn_listing_done s \<and> sn_requests_done s")
    case True
    with Cons.prems show ?thesis
      by (auto simp: x sn_run.simps [of dm acl "(env, input) # rest"] sn_good_def done_weight_def list_weight_def
          save_or_clear_checkpoint_def)
  next
    case False
    obtain s1 acts1 err where st: "sn_step dm acl env input s = (s1, acts1, err)"
      by (cases "sn_step dm acl env input s") auto
    note w = sn_step_weights [OF st Cons.prems(2)]
    show ?thesis
    proof (cases err)
      case (Some e)
      with Cons.prems(1) False st w show ?thesis
        by (cases e) (auto simp: sn_run.simps [of dm acl "(env, input) # rest"] x)
    next
      case None
      obtain s2 acts2 r2 where rest: "sn_run dm acl rest s1 = (s2, acts2, r2)" by (cases "sn_run dm acl rest s1") auto
      from Cons.IH [OF rest] None w have ih: "sends_of STransferDone acts2 + done_weight s1 \<le> 1"
        "sends_of SFileListDone acts2 + list_weight s1 \<le> 1"
        "\<And>p n tr ok er. r2 = SnSummary p n tr ok er \<Longrightarrow> sl_lifecycle (sn_ledger s2) = SessionCompleted \<and>
          sends_of STransferDone acts2 + done_weight s1 = 1 \<and> sends_of SFileListDone acts2 + list_weight s1 = 1"
        by auto
      have "t = s2" "acts = acts1 @ acts2" "r = r2"
        using Cons.prems(1) False st None rest by (auto simp: sn_run.simps [of dm acl "(env, input) # rest"] x)
      with ih w None show ?thesis by (auto simp: add.assoc)
    qed
  qed
qed

text \<open>
  The sender announces the end of its file list and the end of its transfers at most
  once each, and exactly once each in a session that ends with a summary, which it does only
  as completed: after the receiver has said that it is done.
\<close>

theorem sender_announces_once:
  assumes "sn_run dm acl inputs (sender_state_new completed) = (s', acts, r)"
  shows "sends_of STransferDone acts \<le> 1 \<and> sends_of SFileListDone acts \<le> 1 \<and>
    (\<forall>pages entries transfers ok errors. r = SnSummary pages entries transfers ok errors \<longrightarrow>
      sl_lifecycle (sn_ledger s') = SessionCompleted \<and>
      sends_of STransferDone acts = 1 \<and> sends_of SFileListDone acts = 1)"
proof -
  have "sn_good (sender_state_new completed :: 'a sender_state)"
    "done_weight (sender_state_new completed :: 'a sender_state) = 0"
    "list_weight (sender_state_new completed :: 'a sender_state) = 0"
    by (simp_all add: sn_good_def done_weight_def list_weight_def sender_state_new_def transition_def)
  with sn_run_weights [OF assms] show ?thesis by auto
qed

subsection \<open>Failing closed\<close>



subsection \<open>A concrete session\<close>

definition toy_sn_env :: "toy_entry sn_env" where
  "toy_sn_env = \<lparr>se_read_symlink = (\<lambda>_. Inl ''no link''),
     se_open = (\<lambda>_. Opened \<lparr>pl_chunks = [[7]], pl_end = Evidence ''h''\<rparr>), se_acl = (\<lambda>_. None),
     se_blake3 = (\<lambda>b. b), se_sends = 100\<rparr>"


definition toy_sn_inputs :: "(toy_entry sn_env \<times> toy_entry sn_input) list" where
  "toy_sn_inputs = map (Pair toy_sn_env)
     [Listing (NdxPage toy_page), FromReceiver (RTransferRequest 0 FullTransfer), Listing NdxDone,
      FromReceiver RRequestsDone, FromReceiver (RSuccess 0), FromReceiver RAllDone]"

lemmas toy_sn_simps = toy_sn_env_def sn_step_def sn_message_def advertise_event_def handle_transfer_request_def
  send_full_transfer_def full_messages_def transmit_def acl_messages_def toy_page_def toy_ndx_def toy_model_def
  ndx_ingest_page_def ndx_get_def ndx_new_def item_view_def view_version_def view_get_is_dir_def item_get_is_dir_def
  item_get_is_symlink_def view_get_is_symlink_def record_classification_def classification_to_stats_message_def
  record_success_and_checkpoint_def lookup_path_def sender_state_new_def sender_ledger_new_def transfer_done_sent_def
  sn_ledger_defs

lemma toy_sn_run:
  "\<exists>s' acts r. sn_run toy_model False toy_sn_inputs (sender_state_new {}) = (s', acts, r) \<and>
    (\<exists>a b c d e. r = SnSummary a b c d e)"
  by (simp add: toy_sn_inputs_def toy_sn_simps sn_run.simps)

lemma sender_announces_once_witness:
  "\<exists>s' acts r. sn_run toy_model False toy_sn_inputs (sender_state_new {}) = (s', acts, r) \<and>
    sends_of STransferDone acts = 1 \<and> sends_of SFileListDone acts = 1"
  using toy_sn_run sender_announces_once by metis


text \<open>
  A source that fails while a transfer is repeated is counted but, unlike the failure of the
  first attempt, never enters the statistics.
\<close>

lemma redo_failure_not_recorded:
  assumes "ndx_get (sn_table s) ndx = Some item" "send_full_transfer dm env acl ndx item = (acts, Inr SourceFailed)"
    "ndx \<notin> sl_errored_ndx (sn_ledger s)"
  shows "\<exists>s'. handle_redo dm env acl ndx s = (s', acts, SnContinue) \<and>
    sl_error_count (sn_ledger s') = sl_error_count (sn_ledger s) + 1 \<and>
    (\<forall>path reason. handle_indexed_error dm ndx reason s' = (s', [], SnContinue) \<or> sint ndx < 0) \<and>
    filter (\<lambda>a. \<exists>m. a = Stat m) acts = []"
proof -
  have "\<nexists>m. a = Stat m" if "a \<in> set acts" for a
    using assms(2) that by (auto simp: send_full_transfer_def transmit_def split: prod.splits if_splits)
  then have "filter (\<lambda>a. \<exists>m. a = Stat m) acts = []" by (simp add: filter_empty_conv)
  then show ?thesis
    using assms by (simp add: handle_redo_def record_indexed_error_def handle_indexed_error_def Let_def)
qed

end
