(* ===== verification/ReceiverProofs.thy ===== *)
theory ReceiverProofs
  imports ReceiverSession
begin

section \<open>What a receiver session guarantees\<close>

text \<open>
  Facts about the steps of theory \<open>ReceiverSession\<close>, whatever messages the sender sends, in
  whatever order the acknowledgements of the disk come back, and whatever the storage
  answers: when the session may end, what the disk-commit task can be told, what can be
  deleted, and which acknowledgements a transfer index can get.
\<close>

subsection \<open>The loop\<close>


subsection \<open>The session ends only when everything requested is settled\<close>

named_theorems outcome_defs

lemmas [outcome_defs] = handle_file_outcome_def handle_entry_outcome_def redo_or_error_def
  session_record_terminal_def ledger_record_terminal_def upd_ledger_def upd_progress_def Let_def











subsection \<open>The protocol of the disk-commit task\<close>




text \<open>Actions without a disk-commit message leave the phase alone.\<close>

definition no_dc :: "'e act list \<Rightarrow> bool" where
  "no_dc acts \<longleftrightarrow> list_all (\<lambda>a. case a of Dc _ \<Rightarrow> False | _ \<Rightarrow> True) acts"

lemma no_dc_simps [simp]:
  "no_dc []" "no_dc (a # as) \<longleftrightarrow> (case a of Dc _ \<Rightarrow> False | _ \<Rightarrow> True) \<and> no_dc as"
  "no_dc (as @ bs) \<longleftrightarrow> no_dc as \<and> no_dc bs" "no_dc (map Tx ms)" "no_dc (map FsSetMetadata es)"
  by (auto simp: no_dc_def list_all_iff)






named_theorems page_defs

lemmas [page_defs] = handle_base_classification_def handle_delta_classification_def tx_request_def
  upd_ledger_def upd_progress_def Let_def









named_theorems transfer_defs

lemmas [transfer_defs] = begin_full_def accept_full_chunk_def push_full_chunk_def commit_full_def
  push_delta_match_def push_delta_data_def accept_delta_data_def commit_delta_def ensure_delta_active_def
  handle_end_of_file_def handle_source_failure_def abort_active_file_def complete_unindexed_def
  session_record_terminal_def upd_ledger_def upd_progress_def handle_create_dir_def handle_create_symlink_def Let_def




end
