(* ===== verification/ReceiverSafety.thy ===== *)
theory ReceiverSafety
  imports ReceiverProofs
begin

section \<open>What a receiver session cannot be made to do\<close>

text \<open>
  Deletions, unsafe paths, repeated acknowledgements and uncredited payload, whatever the
  sender sends; and what must have happened before the loop is entered.
\<close>

subsection \<open>What a page can delete\<close>

definition claims :: "('e, 'v, 'm) data_model \<Rightarrow> 'e set \<Rightarrow> 'e dest_index \<Rightarrow> 'e dest_index \<Rightarrow> bool" where
  "claims dm E di di' \<longleftrightarrow> (di_ok dm di \<longrightarrow> di_ok dm di' \<and>
     set (orphaned_entries di') \<subseteq> {e \<in> set (orphaned_entries di). key_of dm e \<notin> key_of dm ` E})"

lemma claims_refl [simp]: "claims dm {} di di"
  by (simp add: claims_def)


lemma claims_weaken: "claims dm E di di' \<Longrightarrow> F \<subseteq> E \<Longrightarrow> claims dm F di di'"
  by (force simp: claims_def)


















lemma orphaned_new [simp]: "orphaned_entries di_new = []"
  by (simp add: orphaned_entries_def unmatched_def di_new_def)


definition deletes :: "'e \<Rightarrow> 'e act list \<Rightarrow> bool" where
  "deletes e acts \<longleftrightarrow> FsDeleteFile e \<in> set acts \<or> FsDeleteDir e \<in> set acts"

lemma deletes_simps [simp]:
  "\<not> deletes e []" "deletes e (as @ bs) \<longleftrightarrow> deletes e as \<or> deletes e bs"
  "deletes e (a # as) \<longleftrightarrow> a = FsDeleteFile e \<or> a = FsDeleteDir e \<or> deletes e as"
  "\<not> deletes e (map Tx ms)"
  by (auto simp: deletes_def)













subsection \<open>Paths that leave the destination root\<close>

definition creates_dir :: "'e \<Rightarrow> 'e act list \<Rightarrow> bool" where
  "creates_dir e acts \<longleftrightarrow> FsCreateDir e \<in> set acts"

lemma creates_dir_simps [simp]:
  "\<not> creates_dir e []" "creates_dir e (as @ bs) \<longleftrightarrow> creates_dir e as \<or> creates_dir e bs"
  "creates_dir e (a # as) \<longleftrightarrow> a = FsCreateDir e \<or> creates_dir e as" "\<not> creates_dir e (map Tx ms)"
  by (auto simp: creates_dir_def)

lemma handle_page_file_creates:
  "handle_page_file dm env features threshold nf di s = (di', s', acts, fl) \<Longrightarrow> creates_dir e acts \<Longrightarrow>
    e = oi_entry (ne_entry nf) \<and> view_version dm (item_view (ne_entry nf)) \<noteq> None"
  by (auto simp: handle_page_file_def versioned_directory_def page_defs
      split: prod.splits option.splits if_splits transfer_decision.splits)

lemma handle_page_files_creates:
  "handle_page_files dm env features threshold nfs di s = (di', s', acts, fl) \<Longrightarrow> creates_dir e acts \<Longrightarrow>
    \<exists>n \<in> set nfs. e = oi_entry (ne_entry n) \<and> view_version dm (item_view (ne_entry n)) \<noteq> None"
proof (induction nfs arbitrary: di s di' s' acts fl)
  case (Cons nf nfs)
  obtain di1 s1 acts1 fl1 where 1: "handle_page_file dm env features threshold nf di s = (di1, s1, acts1, fl1)"
    by (cases "handle_page_file dm env features threshold nf di s") auto
  obtain di2 s2 acts2 fl2 where 2: "handle_page_files dm env features threshold nfs di1 s1 = (di2, s2, acts2, fl2)"
    by (cases "handle_page_files dm env features threshold nfs di1 s1") auto
  show ?case
    using Cons.prems 1 2 Cons.IH [OF 2] handle_page_file_creates [OF 1]
    by (auto split: flow.splits)
qed simp

lemma handle_subdir_creates:
  "handle_subdir dm env del d di s = (di', s', acts) \<Longrightarrow> creates_dir e acts \<Longrightarrow>
    validate_relative_path (path_of dm e)"
  by (auto simp: handle_subdir_def subdir_marker_def page_defs split: if_splits option.splits sum.splits)

lemma handle_subdirs_creates:
  "handle_subdirs dm env del ds di s = (di', s', acts) \<Longrightarrow> creates_dir e acts \<Longrightarrow>
    validate_relative_path (path_of dm e)"
proof (induction ds arbitrary: di s di' s' acts)
  case (Cons d ds)
  obtain di1 s1 acts1 where 1: "handle_subdir dm env del d di s = (di1, s1, acts1)"
    by (cases "handle_subdir dm env del d di s") auto
  obtain di2 s2 acts2 where 2: "handle_subdirs dm env del ds di1 s1 = (di2, s2, acts2)"
    by (cases "handle_subdirs dm env del ds di1 s1") auto
  show ?case
    using Cons.prems 1 2 Cons.IH [OF 2] handle_subdir_creates [OF 1] by auto
qed simp

lemma delete_orphans_create: "\<not> creates_dir e (concat (map (delete_orphan dm env) es))"
  by (induction es) (auto simp: delete_orphan_def split: option.splits)

lemma handle_page_creates:
  assumes "handle_page dm env config features threshold page s = (s', acts, fl)" "creates_dir e acts"
  shows "validate_relative_path (path_of dm e) \<or> (\<exists>n \<in> set (dp_files page).
    e = oi_entry (ne_entry n) \<and> view_version dm (item_view (ne_entry n)) \<noteq> None)"
  using assms handle_page_files_creates [where e = e] handle_subdirs_creates [where e = e]
  by (fastforce simp: handle_page_def handle_directory_lifecycle_def Let_def delete_orphans_create
      split: sum.splits prod.splits flow.splits if_splits)

lemma rx_message_creates:
  assumes "rx_message dm env config features threshold msg s = (s', acts, fl)" "\<nexists>page. msg = SFilePage page"
    "creates_dir e acts"
  shows "validate_relative_path (path_of dm e)"
  using assms
  by (cases msg) (auto simp: rx_message_def transfer_defs session_observe_done_def session_credit_accepted_def
      ledger_record_terminal_def split: option.splits prod.splits if_splits active_transfer.splits sum.splits)

lemma rx_ack_creates: "rx_ack ack s = (s', acts, b) \<Longrightarrow> \<not> creates_dir e acts"
  by (auto simp: rx_ack_def outcome_defs split: dc_ack.splits file_outcome.splits if_splits)

text \<open>
  C38. A directory is created by the session only under a relative path that stays below the
  destination root, except for the directories that a page lists as versions of a file:
  their paths are not validated.
\<close>

theorem created_directories_are_safe:
  assumes "rx_step dm config features threshold env input s = (s', acts, fl)" "FsCreateDir e \<in> set acts"
  shows "validate_relative_path (path_of dm e) \<or> (\<exists>page. input = FromSender (SFilePage page) \<and>
    (\<exists>n \<in> set (dp_files page). e = oi_entry (ne_entry n) \<and> view_version dm (item_view (ne_entry n)) \<noteq> None))"
proof -
  have cr: "creates_dir e acts" using assms(2) by (simp add: creates_dir_def)
  show ?thesis
  proof (cases input)
    case (FromSender msg)
    with assms(1) have m: "rx_message dm env config features threshold msg s = (s', acts, fl)"
      by (simp add: rx_step_def)
    show ?thesis
    proof (cases "\<exists>page. msg = SFilePage page")
      case True
      then obtain page where page: "msg = SFilePage page" by blast
      with m have h: "handle_page dm env config features threshold page s = (s', acts, fl)"
        by (simp add: rx_message_def)
      show ?thesis using handle_page_creates [OF h cr] FromSender page by blast
    next
      case False
      then show ?thesis using rx_message_creates [OF m _ cr] by blast
    qed
  next
    case (DiskAck ack)
    with assms(1) cr show ?thesis
      by (auto simp: rx_step_def dest: rx_ack_creates split: prod.splits)
  qed (use assms cr in \<open>auto simp: rx_step_def\<close>)
qed

lemma toy_create_dir_step:
  "rx_step toy_model toy_config features_current (- 1) (toy_env []) (FromSender (SCreateDir (''d/e'', True, 0, 0)))
     session_default =
   (upd_progress (\<lambda>p. p\<lparr>rp_dirs_created := rp_dirs_created p + 1\<rparr>) session_default,
    [FsCreateDir (''d/e'', True, 0, 0), FsSetMetadata (''d/e'', True, 0, 0), Tx (REntrySuccess (''d/e'', True, 0, 0))],
    Continue)"
  by (simp add: rx_step_def rx_message_def handle_create_dir_def validate_relative_path_def toy_model_def)

lemma created_directories_are_safe_witness:
  "validate_relative_path (path_of toy_model (''d/e'', True, 0, 0))"
  using created_directories_are_safe [OF toy_create_dir_step, of "(''d/e'', True, 0, 0)"] by auto

end
