(* ===== verification/ReceiverOutcomes.thy ===== *)
theory ReceiverOutcomes
  imports ReceiverSafety
begin

section \<open>What a receiver session answers\<close>

text \<open>
  The final acknowledgements of a transfer index, the end of a settled session, the credit
  of payload, and the three phases before the loop.
\<close>

subsection \<open>One final acknowledgement per index\<close>

definition is_final_ack :: "i32 \<Rightarrow> 'e act \<Rightarrow> bool" where
  "is_final_ack ndx a \<longleftrightarrow> (case a of Tx (RSuccess n) \<Rightarrow> n = ndx | Tx (RError n _) \<Rightarrow> n = ndx | _ \<Rightarrow> False)"

definition final_acks :: "i32 \<Rightarrow> 'e act list \<Rightarrow> nat" where
  "final_acks ndx acts = length (filter (is_final_ack ndx) acts)"

lemma final_acks_simps [simp]:
  "final_acks ndx [] = 0" "final_acks ndx (as @ bs) = final_acks ndx as + final_acks ndx bs"
  "final_acks ndx (a # as) = (if is_final_ack ndx a then 1 else 0) + final_acks ndx as"
  by (simp_all add: final_acks_def)

lemma is_final_ack_simps [simp]:
  "is_final_ack ndx (Tx (RSuccess n)) \<longleftrightarrow> n = ndx" "is_final_ack ndx (Tx (RError n r)) \<longleftrightarrow> n = ndx"
  "\<not> is_final_ack ndx (Tx (RRedo n))" "\<not> is_final_ack ndx (Tx (RTransferRequest n d))"
  "\<not> is_final_ack ndx (Tx (RDeltaTransferRequest n b sg))" "\<not> is_final_ack ndx (Tx (RClassifiedObservation n d))"
  "\<not> is_final_ack ndx (Tx (RClassified e d))" "\<not> is_final_ack ndx (Tx (REntryError e r))"
  "\<not> is_final_ack ndx (Tx (REntrySuccess e))" "\<not> is_final_ack ndx (Tx RRequestsDone)"
  "\<not> is_final_ack ndx (Tx (RProgress p))" "\<not> is_final_ack ndx (Dc m)" "\<not> is_final_ack ndx (FsCreateDir e)"
  "\<not> is_final_ack ndx (FsSetMetadata e)" "\<not> is_final_ack ndx (FsRemoveMarker e)"
  "\<not> is_final_ack ndx (FsDeleteDir e)" "\<not> is_final_ack ndx (FsDeleteFile e)"
  "\<not> is_final_ack ndx (FsCreateSymlink e t)" "\<not> is_final_ack ndx (FsApplyAcl e acl)"
  "\<not> is_final_ack ndx CloseTransport" "\<not> is_final_ack ndx CancelDisk"
  by (simp_all add: is_final_ack_def)











lemma orphans_acked [simp]: "final_acks ndx (concat (map (delete_orphan dm env) es)) = 0"
  by (induction es) (auto simp: delete_orphan_def split: option.splits)


lemma credit_acked:
  "session_credit_accepted env n s = Inr (s', acts) \<Longrightarrow> final_acks ndx acts = 0 \<and> ss_ledger s' = ss_ledger s"
  unfolding session_credit_accepted_def credit_accepted_def
  by (auto simp: is_final_ack_def split: sum.splits prod.splits if_splits option.splits receiver_credit_outcome.splits)







text \<open>A run over one file that is transferred and reported twice.\<close>

definition toy_inputs :: "(toy_entry rx_env \<times> toy_entry rx_input) list" where
  "toy_inputs = map (Pair ((toy_env [])\<lparr>en_keeps_history := True\<rparr>))
     [FromSender (SFilePage toy_page), FromSender (SFileBegin 0), FromSender (SEndOfFile 0 None),
      DiskAck (AckFileOutcome 0 OutcomeSuccess), DiskAck (AckFileOutcome 0 OutcomeSuccess), FromSender STransferDone]"

lemmas toy_run_simps = toy_defs rx_step_def rx_message_def handle_page_def read_destination_index_def
  di_insert_def Let_def di_new_def index_slot_def slot_def set_slot_def handle_page_file_def item_view_def
  view_version_def di_check_def handle_base_classification_def tx_request_def handle_directory_lifecycle_def
  orphaned_entries_def unmatched_def session_default_def ledger_default_def upd_ledger_def record_request_def
  ndx_ingest_page_def ndx_new_def ndx_get_def begin_full_def handle_end_of_file_def commit_full_def rx_ack_def
  handle_file_outcome_def session_record_terminal_def ledger_record_terminal_def is_complete_session_def
  ledger_complete_def session_observe_done_def ledger_observe_done_def break_if_def






subsection \<open>A settled session does not wait\<close>

lemma page_file_ledger:
  "handle_page_file dm env features threshold nf di s = (di', s', acts, fl) \<Longrightarrow>
    ledger_complete (ss_ledger s') \<Longrightarrow> ledger_complete (ss_ledger s)"
  by (auto simp: handle_page_file_def versioned_directory_def page_defs record_request_def ledger_complete_def
      split: prod.splits option.splits if_splits transfer_decision.splits)

lemma page_files_ledger:
  "handle_page_files dm env features threshold nfs di s = (di', s', acts, fl) \<Longrightarrow>
    ledger_complete (ss_ledger s') \<Longrightarrow> ledger_complete (ss_ledger s)"
proof (induction nfs arbitrary: di s di' s' acts fl)
  case (Cons nf nfs)
  obtain di1 s1 acts1 fl1 where 1: "handle_page_file dm env features threshold nf di s = (di1, s1, acts1, fl1)"
    by (cases "handle_page_file dm env features threshold nf di s") auto
  obtain di2 s2 acts2 fl2 where 2: "handle_page_files dm env features threshold nfs di1 s1 = (di2, s2, acts2, fl2)"
    by (cases "handle_page_files dm env features threshold nfs di1 s1") auto
  show ?case
    using Cons.prems 1 2 Cons.IH [OF 2] page_file_ledger [OF 1] by (auto split: flow.splits)
qed simp

lemma subdirs_ledger:
  "handle_subdirs dm env del ds di s = (di', s', acts) \<Longrightarrow>
    ledger_complete (ss_ledger s') \<Longrightarrow> ledger_complete (ss_ledger s)"
proof (induction ds arbitrary: di s di' s' acts)
  case (Cons d ds)
  obtain di1 s1 acts1 where 1: "handle_subdir dm env del d di s = (di1, s1, acts1)"
    by (cases "handle_subdir dm env del d di s") auto
  obtain di2 s2 acts2 where 2: "handle_subdirs dm env del ds di1 s1 = (di2, s2, acts2)"
    by (cases "handle_subdirs dm env del ds di1 s1") auto
  have "ledger_complete (ss_ledger s1) \<Longrightarrow> ledger_complete (ss_ledger s)"
    using 1 by (auto simp: handle_subdir_def subdir_marker_def page_defs record_request_def ledger_complete_def
        split: if_splits option.splits sum.splits)
  then show ?case
    using Cons.prems 1 2 Cons.IH [OF 2] by auto
qed simp

lemma page_ledger:
  assumes "handle_page dm env config features threshold page s = (s', acts, fl)" "ledger_complete (ss_ledger s')"
  shows "ledger_complete (ss_ledger s)"
  using assms
  by (auto simp: handle_page_def handle_directory_lifecycle_def Let_def
      split: sum.splits prod.splits flow.splits dest!: page_files_ledger subdirs_ledger)

lemma message_ledger:
  assumes "rx_message dm env config features threshold msg s = (s', acts, Continue)" "is_complete_session s'"
  shows "is_complete_session s"
proof (cases msg)
  case (SFilePage page)
  then show ?thesis
    using assms page_ledger by (fastforce simp: rx_message_def is_complete_session_def)
qed (use assms in \<open>auto simp: rx_message_def transfer_defs session_observe_done_def break_if_def accepted_flow_def
        record_unindexed_terminal_def ledger_record_terminal_def credit_acked is_complete_session_def
        split: option.splits prod.splits if_splits active_transfer.splits sum.splits\<close>)

lemma ack_ledger: "rx_ack ack s = (s', acts, False) \<Longrightarrow> is_complete_session s' \<Longrightarrow> is_complete_session s"
  by (cases ack) (auto simp: rx_ack_def outcome_defs is_complete_session_def ledger_complete_def
      split: file_outcome.splits if_splits)

text \<open>
  A session does not wait once everything is settled: no step that continues the loop
  makes the session settled, so a run from the start that continues is never in a settled
  state - the step that settles the last transfer, whichever it is, ends the loop.
\<close>

theorem settled_session_does_not_wait:
  assumes "rx_loop dm config features threshold inputs session_default = (s', acts, Continue)"
  shows "\<not> is_complete_session s'"
proof -
  have step: "is_complete_session t" if "rx_step dm config features threshold env input t = (t', as, Continue)"
    "is_complete_session t'" for env input t t' as
    using that message_ledger ack_ledger
    by (cases input) (auto simp: rx_step_def break_if_def split: prod.splits if_splits)
  have "rx_loop dm config features threshold inputs s = (s', acts, Continue) \<Longrightarrow> is_complete_session s' \<Longrightarrow>
    is_complete_session s" for s
  proof (induction inputs arbitrary: s acts)
    case (Cons x rest)
    obtain env input where x: "x = (env, input)" by (cases x)
    obtain s1 acts1 fl1 where st: "rx_step dm config features threshold env input s = (s1, acts1, fl1)"
      by (cases "rx_step dm config features threshold env input s") auto
    show ?case
      using Cons st x step by (cases fl1) (auto split: prod.splits)
  qed simp
  from this [OF assms] show ?thesis
    by (auto simp: is_complete_session_def ledger_complete_def session_default_def ledger_default_def)
qed

lemma settled_session_does_not_wait_witness:
  "\<not> is_complete_session (fst (rx_loop toy_model toy_config features_current (- 1) (take 3 toy_inputs) session_default))"
proof -
  have "\<exists>s acts. rx_loop toy_model toy_config features_current (- 1) (take 3 toy_inputs) session_default
    = (s, acts, Continue)"
    by (simp add: toy_run_simps toy_inputs_def)
  then show ?thesis using settled_session_does_not_wait by fastforce
qed

subsection \<open>Credit for payload\<close>

text \<open>
  Payload is credited exactly when it is handed to the disk-commit task: a chunk of the
  open full transfer is passed on and its length enters the credit account, while a chunk of
  any other index - one that was refused, terminated or never begun - changes nothing, so the
  credit the sender spent on it is never given back.
\<close>

theorem payload_credited_iff_accepted:
  "if ss_active s = ActiveFull ndx \<and> en_dc_open env
   then \<exists>s' grants fl. rx_step dm config features threshold env (FromSender (SFileData ndx chunk)) s
       = (s', Dc (DFileChunk ndx chunk) # grants, fl) \<and>
     (case record_accepted (ss_credit s) (of_nat (length (dc_data chunk))) of
        Inl e \<Rightarrow> s' = s \<and> grants = [] \<and> fl = Fail (transport_error_text e)
      | Inr (cr, Pending) \<Rightarrow> s' = s\<lparr>ss_credit := cr\<rparr> \<and> grants = [] \<and> fl = Continue
      | Inr (cr, Grant n) \<Rightarrow>
          if en_tx_open env then s' = s\<lparr>ss_credit := cr\<rparr> \<and> grants = [Tx (RCreditGrant n None)] \<and> fl = Continue
          else s' = s \<and> grants = [] \<and> fl = Fail ''Channel closed'')
   else rx_step dm config features threshold env (FromSender (SFileData ndx chunk)) s = (s, [], Continue)"
  by (auto simp: rx_step_def rx_message_def accept_full_chunk_def push_full_chunk_def session_credit_accepted_def
      credit_accepted_def payload_credit_cost_def accepted_flow_def transport_error_text_def
      split: sum.split receiver_credit_outcome.split)

subsection \<open>Before the loop\<close>

lemma recv_handshake_ok:
  "recv_handshake copied tx ms = (rest, acts, Inr features) \<Longrightarrow>
    \<exists>pre remote ct b. ms = pre @ SHandshake remote # rest \<and> copied = Inr ct \<and>
      negotiate handshake_current remote = Accepted features b \<and> acts = [Tx (RHandshakeAck (Accepted features ct))] \<and>
      (\<forall>r. SHandshake r \<notin> set pre)"
proof (induction ms)
  case (Cons m ms)
  show ?case
  proof (cases "\<exists>r. m = SHandshake r")
    case True
    with Cons.prems show ?thesis
      by (auto split: handshake_result.splits sum.splits if_splits intro: exI [of _ "[]"])
  next
    case False
    with Cons.prems have "recv_handshake copied tx ms = (rest, acts, Inr features)"
      by (cases m) auto
    with Cons.IH obtain pre remote ct b where ih: "ms = pre @ SHandshake remote # rest" "copied = Inr ct"
      "negotiate handshake_current remote = Accepted features b" "acts = [Tx (RHandshakeAck (Accepted features ct))]"
      "\<forall>r. SHandshake r \<notin> set pre" by blast
    with False have "m # ms = (m # pre) @ SHandshake remote # rest" "\<forall>r. SHandshake r \<notin> set (m # pre)" by auto
    with ih show ?thesis by blast
  qed
qed simp

lemma recv_auth_ok:
  "recv_auth expected tx ms = (rest, acts, Inr u) \<Longrightarrow>
    \<exists>pre token. ms = pre @ SAuth token # rest \<and> (expected = None \<or> expected = Some token) \<and>
      acts = [Tx (RAuthResult True None)] \<and> (\<forall>t. SAuth t \<notin> set pre)"
proof (induction ms)
  case (Cons m ms)
  show ?case
  proof (cases "\<exists>t. m = SAuth t")
    case True
    with Cons.prems show ?thesis
      by (auto simp: Let_def split: option.splits if_splits intro: exI [of _ "[]"])
  next
    case False
    with Cons.prems have "recv_auth expected tx ms = (rest, acts, Inr u)"
      by (cases m) auto
    with Cons.IH obtain pre token where ih: "ms = pre @ SAuth token # rest" "expected = None \<or> expected = Some token"
      "acts = [Tx (RAuthResult True None)]" "\<forall>t. SAuth t \<notin> set pre" by blast
    with False have "m # ms = (m # pre) @ SAuth token # rest" "\<forall>t. SAuth t \<notin> set (m # pre)" by auto
    with ih show ?thesis by blast
  qed
qed simp

lemma recv_session_config_ok:
  "recv_session_config ms = (rest, Inr config) \<Longrightarrow> \<exists>pre. ms = pre @ SSessionConfig config # rest"
proof (induction ms)
  case (Cons m ms)
  show ?case
  proof (cases "\<exists>c. m = SSessionConfig c")
    case True
    with Cons.prems show ?thesis by (auto intro: exI [of _ "[]"])
  next
    case False
    with Cons.prems have "recv_session_config ms = (rest, Inr config)" by (cases m) auto
    with Cons.IH obtain pre where "ms = pre @ SSessionConfig config # rest" by blast
    then have "m # ms = (m # pre) @ SSessionConfig config # rest" by simp
    then show ?thesis by blast
  qed
qed simp

text \<open>
  The loop is entered only by a peer that was admitted: its stream holds, in this order,
  a handshake whose versions overlap with ours, the expected token when one is expected -
  the first token it sends, it has no second try - and a session configuration; the features
  of the session are the negotiated ones; and it has been told exactly that.
\<close>

theorem session_admission:
  assumes "receiver_prologue copied tx parse_size expected ms = (rest, acts, Inr (features, config, threshold))"
  shows "\<exists>pre1 remote pre2 token pre3 b ct.
    ms = pre1 @ SHandshake remote # pre2 @ SAuth token # pre3 @ SSessionConfig config # rest \<and>
    negotiate handshake_current remote = Accepted features b \<and>
    (expected = None \<or> expected = Some token) \<and> (\<forall>t. SAuth t \<notin> set pre2) \<and>
    acts = [Tx (RHandshakeAck (Accepted features ct)), Tx (RAuthResult True None)]"
proof -
  obtain ms1 acts1 where 1: "recv_handshake copied tx ms = (ms1, acts1, Inr features)"
    using assms by (auto simp: receiver_prologue_def split: sum.splits prod.splits)
  obtain ms2 acts2 u where 2: "recv_auth expected tx ms1 = (ms2, acts2, Inr u)"
    using assms 1 by (auto simp: receiver_prologue_def split: sum.splits prod.splits)
  have 3: "recv_session_config ms2 = (rest, Inr config)" and acts: "acts = acts1 @ acts2"
    using assms 1 2 by (auto simp: receiver_prologue_def split: sum.splits prod.splits)
  obtain pre1 remote ct b where h: "ms = pre1 @ SHandshake remote # ms1"
    "negotiate handshake_current remote = Accepted features b" "acts1 = [Tx (RHandshakeAck (Accepted features ct))]"
    using recv_handshake_ok [OF 1] by blast
  obtain pre2 token where a: "ms1 = pre2 @ SAuth token # ms2" "expected = None \<or> expected = Some token"
    "acts2 = [Tx (RAuthResult True None)]" "\<forall>t. SAuth t \<notin> set pre2"
    using recv_auth_ok [OF 2] by blast
  obtain pre3 where c: "ms2 = pre3 @ SSessionConfig config # rest" using recv_session_config_ok [OF 3] by blast
  have "ms = pre1 @ SHandshake remote # pre2 @ SAuth token # pre3 @ SSessionConfig config # rest"
    "acts = [Tx (RHandshakeAck (Accepted features ct)), Tx (RAuthResult True None)]"
    using h a c acts by simp_all
  with h a show ?thesis by blast
qed

lemma session_admission_witness:
  "\<exists>pre1 remote pre2 token pre3. [SHandshake handshake_current, SAuth ''t'', SSessionConfig toy_config, STransferDone :: toy_entry sender_msg]
     = pre1 @ SHandshake remote # pre2 @ SAuth token # pre3 @ SSessionConfig toy_config # [STransferDone]
   \<and> Some ''t'' = Some token"
proof -
  have "receiver_prologue (Inr True) True (\<lambda>_. Inr 0) (Some ''t'')
      [SHandshake handshake_current, SAuth ''t'', SSessionConfig toy_config, STransferDone :: toy_entry sender_msg] =
    ([STransferDone], [Tx (RHandshakeAck (Accepted features_current True)), Tx (RAuthResult True None)],
     Inr (features_current, toy_config, - 1))"
    by (simp add: receiver_prologue_def session_threshold_def toy_config_def negotiate_def handshake_current_def
        features_current_def features_intersect_def PROTOCOL_VERSION_def MIN_SUPPORTED_PROTOCOL_VERSION_def Let_def)
  from session_admission [OF this] show ?thesis by blast
qed

text \<open>
  An access list is applied under whatever path its message names, and the metadata of a
  listed file is set under its path, without the validation that guards creations.
\<close>

lemma acl_path_not_validated:
  "cf_enable_acl config \<Longrightarrow> en_acl_decodes env acl \<Longrightarrow>
    rx_step dm config features threshold env (FromSender (SSetAcl e acl)) s = (s, [FsApplyAcl e acl], Continue)"
  by (simp add: rx_step_def rx_message_def)

lemma metadata_path_not_validated:
  "handle_base_classification env ndx item MetadataOnly s = (s', acts, h) \<Longrightarrow>
    FsSetMetadata (oi_entry item) \<in> set acts"
  by (auto simp: handle_base_classification_def split: option.splits)

lemma versioned_directory_not_validated:
  "versioned_directory env nf s = (s', acts, fl) \<Longrightarrow> FsCreateDir (oi_entry (ne_entry nf)) \<in> set acts"
  by (auto simp: versioned_directory_def Let_def split: option.splits if_splits)

end
