(* ===== verification/DiskCommit.thy ===== *)
theory DiskCommit
  imports ReceiverOutcomes
begin

section \<open>The disk-commit task (crates/app/src/disk_commit.rs)\<close>

text \<open>
  The task that carries out the destination writes of a session: it dispatches the messages
  of the session to the file committer of theory \<open>FileCommit\<close> and answers with
  acknowledgements. What the storage and the writers answer is the record \<open>dc_env\<close>, which may
  differ from message to message.
\<close>

subsection \<open>The task\<close>

record 'e dc_env =
  de_begin :: begin_env
  de_read :: "u64 \<Rightarrow> u32 \<Rightarrow> string + bytes"
  de_writer_open :: bool
  de_finish :: "'e active_file \<Rightarrow> finish_env"
  de_create_symlink :: "'e \<Rightarrow> string \<Rightarrow> string option"
  de_delete_marker :: "'e observed_item \<Rightarrow> string option"

record 'e dc_task =
  dt_files :: "'e commit_state"
  dt_progress :: receiver_progress

definition active_of :: "'e commit_state \<Rightarrow> 'e active_file option" where
  "active_of state = (case state of FcFullActive af \<Rightarrow> Some af | FcDeltaActive af \<Rightarrow> Some af | _ \<Rightarrow> None)"

definition report_outcomes :: "(i32 \<times> file_outcome) list \<Rightarrow> 'e dc_ack list" where
  "report_outcomes outs = map (\<lambda>(ndx, outcome). AckFileOutcome ndx outcome) outs"

text \<open>The counters that a successful \<open>finalize_file\<close> advances.\<close>

definition finalized_progress ::
  "('e, 'v, 'm) data_model \<Rightarrow> 'e active_file \<Rightarrow> receiver_progress \<Rightarrow> receiver_progress" where
  "finalized_progress dm af p =
     (let p1 = (if item_get_is_dir dm (af_entry af) then p\<lparr>rp_dirs_created := rp_dirs_created p + 1\<rparr>
                else p\<lparr>rp_files_transferred := rp_files_transferred p + 1\<rparr>)
      in p1\<lparr>rp_bytes_transferred := rp_bytes_transferred p1 + af_size af\<rparr>)"

definition dc_commit ::
  "('e, 'v, 'm) data_model \<Rightarrow> bool \<Rightarrow> 'e dc_env \<Rightarrow> i32 \<Rightarrow> 'e \<Rightarrow> string option \<Rightarrow> file_transfer_mode \<Rightarrow>
    'e dc_task \<Rightarrow> 'e dc_task \<times> 'e dc_ack list" where
  "dc_commit dm integrity env ndx entry source_hash mode t =
     (let (files, outs) = fc_commit dm (de_read env) (de_writer_open env) integrity (de_finish env)
            ndx entry source_hash mode (dt_files t);
          p = (case active_of (dt_files t) of
                 Some af \<Rightarrow> if (ndx, OutcomeSuccess) \<in> set outs then finalized_progress dm af (dt_progress t)
                            else dt_progress t
               | None \<Rightarrow> dt_progress t)
      in (\<lparr>dt_files = files, dt_progress = p\<rparr>, report_outcomes outs))"

definition dc_step ::
  "('e, 'v, 'm) data_model \<Rightarrow> bool \<Rightarrow> 'e dc_env \<Rightarrow> 'e disk_commit_msg \<Rightarrow> 'e dc_task \<Rightarrow>
    'e dc_task \<times> 'e dc_ack list" where
  "dc_step dm integrity env msg t =
     (case msg of
        DCreateDir entry \<Rightarrow>
          (t\<lparr>dt_progress := (dt_progress t)\<lparr>rp_dirs_created := rp_dirs_created (dt_progress t) + 1\<rparr>\<rparr>,
           [AckEntry (REntrySuccess entry)])
      | DCreateSymlink entry target \<Rightarrow>
          (case de_create_symlink env entry target of
             None \<Rightarrow>
               (t\<lparr>dt_progress := (dt_progress t)\<lparr>rp_files_transferred := rp_files_transferred (dt_progress t) + 1\<rparr>\<rparr>,
                [AckEntry (REntrySuccess entry)])
           | Some e \<Rightarrow> (t, [AckEntry (REntryError entry e)]))
      | DWriteDeleteMarker ndx entry \<Rightarrow>
          (case de_delete_marker env entry of
             None \<Rightarrow>
               (t\<lparr>dt_progress := (dt_progress t)\<lparr>rp_files_transferred := rp_files_transferred (dt_progress t) + 1\<rparr>\<rparr>,
                [AckFileOutcome ndx OutcomeSuccess])
           | Some e \<Rightarrow> (t, [AckFileOutcome ndx (HardError e)]))
      | DFileBegin ndx entry \<Rightarrow>
          (let (files, outs) = fc_begin dm (de_begin env) ndx entry None (dt_files t)
           in (t\<lparr>dt_files := files\<rparr>, report_outcomes outs))
      | DFileChunk ndx chunk \<Rightarrow> (t\<lparr>dt_files := fc_push_full (de_writer_open env) ndx chunk (dt_files t)\<rparr>, [])
      | DFileCommit ndx entry source_hash \<Rightarrow> dc_commit dm integrity env ndx entry source_hash TransferFull t
      | DDeltaBegin ndx entry block_size \<Rightarrow>
          (let (files, outs) = fc_begin dm (de_begin env) ndx \<lparr>oi_entry = entry, oi_version_index = None\<rparr>
                 (Some block_size) (dt_files t)
           in (t\<lparr>dt_files := files\<rparr>, report_outcomes outs))
      | DDeltaMatch entry block_index \<Rightarrow>
          (let (files, outs) = fc_push_delta dm (de_read env) (de_writer_open env) entry (Match block_index) (dt_files t)
           in (t\<lparr>dt_files := files\<rparr>, report_outcomes outs))
      | DDeltaData entry data \<Rightarrow>
          (let (files, outs) = fc_push_delta dm (de_read env) (de_writer_open env) entry (Data data) (dt_files t)
           in (t\<lparr>dt_files := files\<rparr>, report_outcomes outs))
      | DDeltaCommit ndx entry source_hash \<Rightarrow> dc_commit dm integrity env ndx entry source_hash TransferDelta t
      | DAbortFile \<Rightarrow> (t\<lparr>dt_files := fc_abort (dt_files t)\<rparr>, [])
      | DShutdown \<Rightarrow> (t\<lparr>dt_files := fc_abort (dt_files t)\<rparr>, [])
      | DTarPacked _ _ \<Rightarrow> (t, []))"

text \<open>The task ends at \<open>Shutdown\<close> or when its channel closes, and aborts what is open.\<close>

fun dc_task_run ::
  "('e, 'v, 'm) data_model \<Rightarrow> bool \<Rightarrow> ('e dc_env \<times> 'e disk_commit_msg) list \<Rightarrow> 'e dc_task \<Rightarrow>
    'e dc_task \<times> 'e dc_ack list" where
  "dc_task_run dm integrity [] t = (t\<lparr>dt_files := fc_abort (dt_files t)\<rparr>, [])"
| "dc_task_run dm integrity ((env, msg) # rest) t =
     (let (t1, acks) = dc_step dm integrity env msg t in
      if msg = DShutdown then (t1\<lparr>dt_files := fc_abort (dt_files t1)\<rparr>, acks)
      else let (t2, acks') = dc_task_run dm integrity rest t1 in (t2, acks @ acks'))"

definition dc_task_new :: "receiver_progress \<Rightarrow> 'e dc_task" where
  "dc_task_new p = \<lparr>dt_files = FcIdle, dt_progress = p\<rparr>"

subsection \<open>Only verified files are reported as written\<close>

lemma finalize_success_iff:
  "finalize_file integrity env sz source_hash = OutcomeSuccess \<longleftrightarrow>
    fe_write_error env = None \<and> fe_received_size env = sz \<and>
    (integrity \<longrightarrow> source_hash = None \<or> source_hash = Some (fe_received_hash env)) \<and> fe_commit_error env = None"
  by (auto simp: finalize_file_def split: option.split)

lemma flush_basis_keeps:
  "flush_basis rd wopen dx af = Inr (dx1, af1) \<Longrightarrow>
    af_ndx af1 = af_ndx af \<and> af_entry af1 = af_entry af \<and> af_size af1 = af_size af"
  by (auto simp: flush_basis_def send_chunk_def split: option.splits sum.splits if_splits)

lemma fc_commit_success:
  assumes "fc_commit dm rd wopen integrity finish ndx entry source_hash mode state = (state', outs)"
    "(n, OutcomeSuccess) \<in> set outs"
  shows "\<exists>af af1. active_of state = Some af \<and> n = ndx \<and> af_ndx af = ndx \<and>
    path_of dm (oi_entry (af_entry af)) = path_of dm entry \<and> mode_transfer_mode (af_mode af) = mode \<and>
    finalize_file integrity (finish af1) (af_size af) source_hash = OutcomeSuccess \<and>
    af_size af1 = af_size af \<and> af_entry af1 = af_entry af \<and>
    state' = FcCompleted \<and> outs = [(ndx, OutcomeSuccess)]"
  using assms
  by (cases state) (fastforce simp: fc_commit_def active_of_def Let_def dest: flush_basis_keeps
      split: if_splits active_file_mode.splits sum.splits prod.splits file_outcome.splits)+

text \<open>
  C10. A file is reported as written only if it was verified: a success outcome of a commit
  is about the file that was open, under the index, path and transfer mode of the commit,
  after as many bytes as its entry announces were received without a write error, with the
  digest of the source where integrity checking is on and the source sent one, and after the
  storage published it.
\<close>

theorem success_only_for_verified_files:
  assumes "fc_commit dm rd wopen integrity finish ndx entry source_hash mode state = (state', outs)"
    "(n, OutcomeSuccess) \<in> set outs"
  shows "\<exists>af af1. active_of state = Some af \<and> n = ndx \<and> af_ndx af = ndx \<and>
    path_of dm (oi_entry (af_entry af)) = path_of dm entry \<and> mode_transfer_mode (af_mode af) = mode \<and>
    af_size af1 = af_size af \<and> af_entry af1 = af_entry af \<and>
    fe_write_error (finish af1) = None \<and> fe_received_size (finish af1) = af_size af \<and>
    (integrity \<longrightarrow> source_hash = None \<or> source_hash = Some (fe_received_hash (finish af1))) \<and>
    fe_commit_error (finish af1) = None \<and> state' = FcCompleted \<and> outs = [(ndx, OutcomeSuccess)]"
  using fc_commit_success [OF assms] unfolding finalize_success_iff by blast

subsection \<open>Exactly one outcome per transfer\<close>

definition resting :: "'e commit_state \<Rightarrow> bool" where
  "resting state \<longleftrightarrow> active_of state = None \<and> state \<noteq> FcCommitting"

fun begin_msg :: "file_transfer_mode \<Rightarrow> i32 \<Rightarrow> 'e observed_item \<Rightarrow> u32 \<Rightarrow> 'e disk_commit_msg" where
  "begin_msg TransferFull ndx item block_size = DFileBegin ndx item"
| "begin_msg TransferDelta ndx item block_size = DDeltaBegin ndx (oi_entry item) block_size"

fun payload_msg :: "file_transfer_mode \<Rightarrow> i32 \<Rightarrow> 'e \<Rightarrow> 'e disk_commit_msg \<Rightarrow> bool" where
  "payload_msg TransferFull ndx e (DFileChunk n _) = (n = ndx)"
| "payload_msg TransferDelta ndx e (DDeltaMatch e' _) = (e' = e)"
| "payload_msg TransferDelta ndx e (DDeltaData e' _) = (e' = e)"
| "payload_msg _ _ _ _ = False"

fun commit_msg :: "file_transfer_mode \<Rightarrow> i32 \<Rightarrow> 'e \<Rightarrow> string option \<Rightarrow> 'e disk_commit_msg" where
  "commit_msg TransferFull ndx e h = DFileCommit ndx e h"
| "commit_msg TransferDelta ndx e h = DDeltaCommit ndx e h"

text \<open>The committer holds the file of the transfer; \<open>settled\<close> says it let go of it.\<close>

definition holds :: "('e, 'v, 'm) data_model \<Rightarrow> file_transfer_mode \<Rightarrow> i32 \<Rightarrow> 'e \<Rightarrow> 'e commit_state \<Rightarrow> bool" where
  "holds dm mode ndx e state \<longleftrightarrow> (\<exists>af. af_ndx af = ndx \<and> path_of dm (oi_entry (af_entry af)) = path_of dm e \<and>
     mode_transfer_mode (af_mode af) = mode \<and>
     state = (case mode of TransferFull \<Rightarrow> FcFullActive af | TransferDelta \<Rightarrow> FcDeltaActive af))"

text \<open>After some messages of the transfer: it is held and nothing was reported, or reported once.\<close>

definition in_transfer ::
  "('e, 'v, 'm) data_model \<Rightarrow> file_transfer_mode \<Rightarrow> i32 \<Rightarrow> 'e \<Rightarrow> 'e commit_state \<Rightarrow> 'e dc_ack list \<Rightarrow> bool" where
  "in_transfer dm mode ndx e state acks \<longleftrightarrow>
     holds dm mode ndx e state \<and> acks = [] \<or> resting state \<and> (\<exists>outcome. acks = [AckFileOutcome ndx outcome])"

lemma begin_in_transfer:
  assumes "resting (dt_files t)" "dc_step dm integrity env (begin_msg mode ndx item block_size) t = (t', acks)"
  shows "in_transfer dm mode ndx (oi_entry item) (dt_files t') acks"
  using assms
  by (cases mode; cases "dt_files t")
    (auto simp: dc_step_def fc_begin_def resting_def active_of_def in_transfer_def holds_def Let_def report_outcomes_def
      mode_transfer_mode_def split: if_splits basis_observation.splits option.splits sum.splits)

lemma send_chunk_keeps [simp]:
  "af_ndx (send_chunk wo c af) = af_ndx af" "af_entry (send_chunk wo c af) = af_entry af"
  "af_mode (send_chunk wo c af) = af_mode af"
  by (simp_all add: send_chunk_def)

lemma push_delta_in_transfer:
  assumes "holds dm TransferDelta ndx e state" "fc_push_delta dm rd wopen e token state = (state', outs)"
  shows "in_transfer dm TransferDelta ndx e state' (report_outcomes outs)"
proof -
  obtain af where af: "af_ndx af = ndx" "path_of dm (oi_entry (af_entry af)) = path_of dm e"
    "mode_transfer_mode (af_mode af) = TransferDelta" and st: "state = FcDeltaActive af"
    using assms(1) by (auto simp: holds_def)
  obtain dx where dx: "af_mode af = ModeDelta dx"
    using af(3) by (cases "af_mode af") (simp_all add: mode_transfer_mode_def)
  let ?step = "re_push (dx_reconstructor dx) token"
  show ?thesis
  proof (cases "mergeable dx ?step")
    case True
    then obtain offset len where "?step = NeedBasis offset len"
      by (cases ?step) (auto simp: mergeable_def)
    with True assms(2) af dx show ?thesis
      by (auto simp: st fc_push_delta_def in_transfer_def holds_def mode_transfer_mode_def report_outcomes_def Let_def)
  next
    case False
    with assms(2) af dx show ?thesis
      by (cases "flush_basis rd wopen dx af"; cases ?step)
        (auto simp: st fc_push_delta_def in_transfer_def holds_def mode_transfer_mode_def report_outcomes_def Let_def
          resting_def active_of_def delta_emit_def dest!: flush_basis_keeps)
  qed
qed

lemma payload_held:
  assumes "holds dm mode ndx e (dt_files t)" "payload_msg mode ndx e msg" "dc_step dm integrity env msg t = (t', acks)"
  shows "in_transfer dm mode ndx e (dt_files t') acks"
proof (cases mode)
  case TransferFull
  with assms show ?thesis
    by (cases msg)
      (auto simp: dc_step_def holds_def in_transfer_def fc_push_full_def mode_transfer_mode_def)
next
  case TransferDelta
  note push = push_delta_in_transfer [OF assms(1) [unfolded TransferDelta]]
  from TransferDelta assms(2,3) show ?thesis
    by (cases msg) (auto simp: dc_step_def push split: prod.splits)
qed

lemma payload_resting:
  assumes "resting (dt_files t)" "payload_msg mode ndx e msg" "dc_step dm integrity env msg t = (t', acks)"
  shows "resting (dt_files t') \<and> acks = []"
  using assms
  by (cases mode; cases msg; cases "dt_files t")
    (auto simp: dc_step_def resting_def active_of_def fc_push_full_def fc_push_delta_def report_outcomes_def)

lemma fc_commit_held:
  assumes "holds dm mode ndx e state" "fc_commit dm rd wopen integrity finish ndx e h mode state = (state', outs)"
  shows "resting state' \<and> (\<exists>outcome. outs = [(ndx, outcome)])"
proof -
  obtain af where af: "af_ndx af = ndx" "path_of dm (oi_entry (af_entry af)) = path_of dm e"
    "mode_transfer_mode (af_mode af) = mode"
    and st: "state = (case mode of TransferFull \<Rightarrow> FcFullActive af | TransferDelta \<Rightarrow> FcDeltaActive af)"
    using assms(1) by (auto simp: holds_def)
  show ?thesis
    using assms(2) af unfolding st
    by (cases mode; cases "af_mode af")
      (auto simp: fc_commit_def resting_def active_of_def Let_def mode_transfer_mode_def
        split: sum.splits file_outcome.splits)
qed

lemma commit_held:
  assumes "holds dm mode ndx e (dt_files t)" "dc_step dm integrity env (commit_msg mode ndx e h) t = (t', acks)"
  shows "resting (dt_files t') \<and> (\<exists>outcome. acks = [AckFileOutcome ndx outcome])"
  using assms fc_commit_held [OF assms(1)]
  by (cases mode) (fastforce simp: dc_step_def dc_commit_def report_outcomes_def split: prod.splits)+

lemma commit_resting:
  assumes "resting (dt_files t)" "dc_step dm integrity env (commit_msg mode ndx e h) t = (t', acks)"
  shows "resting (dt_files t') \<and> acks = []"
  using assms
  by (cases mode; cases "dt_files t")
    (auto simp: dc_step_def dc_commit_def fc_commit_def resting_def active_of_def report_outcomes_def)


lemma payloads_in_transfer:
  assumes "list_all (\<lambda>(env, msg). payload_msg mode ndx e msg) msgs" "in_transfer dm mode ndx e (dt_files t) acks"
  shows "\<exists>t' acks'. in_transfer dm mode ndx e (dt_files t') (acks @ acks') \<and>
    (\<forall>rest. dc_task_run dm integrity (msgs @ rest) t = (let (u, as) = dc_task_run dm integrity rest t' in (u, acks' @ as)))"
  using assms
proof (induction msgs arbitrary: t acks)
  case Nil
  then show ?case
    by (intro exI [of _ t] exI [of _ "[]"]) (auto split: prod.split)
next
  case (Cons m msgs)
  obtain env msg where m: "m = (env, msg)" by (cases m)
  obtain t1 acks1 where st: "dc_step dm integrity env msg t = (t1, acks1)"
    by (cases "dc_step dm integrity env msg t")
  have pm: "payload_msg mode ndx e msg" using Cons.prems(1) m by simp
  then have ns: "msg \<noteq> DShutdown" by (cases mode) auto
  have "in_transfer dm mode ndx e (dt_files t1) (acks @ acks1)"
    using Cons.prems(2) payload_held [OF _ pm st] payload_resting [OF _ pm st]
    by (auto simp: in_transfer_def)
  with Cons.IH [of t1 "acks @ acks1"] Cons.prems(1) obtain t2 acks2 where
    ih: "in_transfer dm mode ndx e (dt_files t2) ((acks @ acks1) @ acks2)"
      "\<And>rest. dc_task_run dm integrity (msgs @ rest) t1
        = (let (u, as) = dc_task_run dm integrity rest t2 in (u, acks2 @ as))"
    by auto
  then show ?case
    by (intro exI [of _ t2] exI [of _ "acks1 @ acks2"]) (auto simp: m st ns split: prod.split)
qed

text \<open>
  C13. Every transfer handed to the disk-commit task gets exactly one outcome: whatever the
  payload in between, and wherever the storage fails - at the begin, while reading the
  basis, while writing, or at the commit - a begin followed by payload and commit of the same
  file yields one acknowledgement, for that index, and leaves the task ready for the next
  transfer.
\<close>

theorem one_outcome_per_transfer:
  assumes "resting (dt_files t)" "list_all (\<lambda>(env, msg). payload_msg mode ndx (oi_entry item) msg) msgs"
  shows "\<exists>t' outcome. resting (dt_files t') \<and>
    (\<forall>rest. dc_task_run dm integrity ((env, begin_msg mode ndx item block_size) # msgs
        @ (env', commit_msg mode ndx (oi_entry item) h) # rest) t
      = (let (u, acks) = dc_task_run dm integrity rest t' in (u, AckFileOutcome ndx outcome # acks)))"
proof -
  obtain t1 acks1 where 1: "dc_step dm integrity env (begin_msg mode ndx item block_size) t = (t1, acks1)"
    by (cases "dc_step dm integrity env (begin_msg mode ndx item block_size) t")
  obtain t2 acks2 where 2: "in_transfer dm mode ndx (oi_entry item) (dt_files t2) (acks1 @ acks2)"
    "\<And>rest. dc_task_run dm integrity (msgs @ rest) t1
        = (let (u, as) = dc_task_run dm integrity rest t2 in (u, acks2 @ as))"
    using payloads_in_transfer [OF assms(2) begin_in_transfer [OF assms(1) 1]] by blast
  obtain t3 acks3 where 3: "dc_step dm integrity env' (commit_msg mode ndx (oi_entry item) h) t2 = (t3, acks3)"
    by (cases "dc_step dm integrity env' (commit_msg mode ndx (oi_entry item) h) t2")
  have "resting (dt_files t3) \<and> (\<exists>outcome. acks1 @ acks2 @ acks3 = [AckFileOutcome ndx outcome])"
    using 2(1) commit_held [OF _ 3] commit_resting [OF _ 3]
    by (auto simp: in_transfer_def)
  then obtain outcome where o: "resting (dt_files t3)" "acks1 @ acks2 @ acks3 = [AckFileOutcome ndx outcome]" by blast
  have ns: "begin_msg mode ndx item block_size \<noteq> DShutdown" "commit_msg mode ndx (oi_entry item) h \<noteq> DShutdown"
    by (cases mode; simp)+
  have "dc_task_run dm integrity ((env, begin_msg mode ndx item block_size) # msgs
        @ (env', commit_msg mode ndx (oi_entry item) h) # rest) t
      = (let (u, acks) = dc_task_run dm integrity rest t3 in (u, (acks1 @ acks2 @ acks3) @ acks))" for rest
    using ns by (simp add: 1 2(2) 3 split: prod.split)
  with o show ?thesis by auto
qed

subsection \<open>Only paths below the destination root are written\<close>

definition path_safe :: "('e, 'v, 'm) data_model \<Rightarrow> 'e commit_state \<Rightarrow> bool" where
  "path_safe dm state \<longleftrightarrow>
     (\<forall>af. active_of state = Some af \<longrightarrow> validate_relative_path (path_of dm (oi_entry (af_entry af))))"

lemma path_safe_simps [simp]:
  "path_safe dm FcIdle" "path_safe dm FcFailed" "path_safe dm FcCompleted" "path_safe dm FcCommitting"
  "path_safe dm (FcFullActive af) = validate_relative_path (path_of dm (oi_entry (af_entry af)))"
  "path_safe dm (FcDeltaActive af) = validate_relative_path (path_of dm (oi_entry (af_entry af)))"
  by (simp_all add: path_safe_def active_of_def)

lemma fc_begin_path_safe: "path_safe dm state \<Longrightarrow> path_safe dm (fst (fc_begin dm env ndx item bs state))"
  by (cases state) (auto simp: fc_begin_def Let_def split: basis_observation.splits option.splits sum.splits)

lemma fc_push_full_path_safe: "path_safe dm state \<Longrightarrow> path_safe dm (fc_push_full wopen ndx chunk state)"
  by (cases state) (auto simp: fc_push_full_def)

lemma flush_basis_entry: "flush_basis rd wopen dx af = Inr (dx1, af1) \<Longrightarrow> af_entry af1 = af_entry af"
  by (simp add: flush_basis_keeps)

lemma fc_push_delta_path_safe:
  "path_safe dm state \<Longrightarrow> path_safe dm (fst (fc_push_delta dm rd wopen e token state))"
  by (cases state) (auto simp: fc_push_delta_def Let_def delta_emit_def flush_basis_entry
      split: active_file_mode.split reconstruct_step.split sum.split)

lemma fc_commit_path_safe:
  "path_safe dm state \<Longrightarrow> path_safe dm (fst (fc_commit dm rd wopen integrity finish ndx e h mode state))"
  by (cases state) (auto simp: fc_commit_def Let_def
      split: active_file_mode.split sum.split file_outcome.split)

lemma dc_step_path_safe:
  assumes "path_safe dm (dt_files t)"
  shows "path_safe dm (dt_files (fst (dc_step dm integrity env msg t)))"
  using assms fc_begin_path_safe [OF assms] fc_push_full_path_safe [OF assms] fc_push_delta_path_safe [OF assms]
    fc_commit_path_safe [OF assms]
  by (cases msg) (simp_all add: dc_step_def dc_commit_def fc_abort_def split_beta split: option.split)

text \<open>
  No file is ever written outside the destination root: after any messages, and
  whatever the storage answers, a file that the task has open has a relative path without
  parent components.
\<close>

theorem open_files_have_safe_paths:
  assumes "active_of (dt_files (fold (\<lambda>(env, msg) t. fst (dc_step dm integrity env msg t)) msgs (dc_task_new p))) = Some af"
  shows "validate_relative_path (path_of dm (oi_entry (af_entry af)))"
proof -
  have "path_safe dm (dt_files t) \<Longrightarrow>
    path_safe dm (dt_files (fold (\<lambda>(env, msg) t. fst (dc_step dm integrity env msg t)) msgs t))" for t
    by (induction msgs arbitrary: t) (auto simp: dc_step_path_safe)
  from this [of "dc_task_new p"] assms show ?thesis
    by (auto simp: dc_task_new_def path_safe_def active_of_def)
qed

subsection \<open>A concrete task\<close>

definition toy_dc_env :: "toy_entry dc_env" where
  "toy_dc_env = \<lparr>de_begin = \<lparr>be_basis = BasisFound 0, be_prepare_error = None\<rparr>, de_read = (\<lambda>_ _. Inr []),
     de_writer_open = True,
     de_finish = (\<lambda>af. \<lparr>fe_write_error = None, fe_received_size = of_nat (length (sent_bytes (af_sent af))),
        fe_input_ended = True, fe_received_hash = ''h'', fe_commit_error = None\<rparr>),
     de_create_symlink = (\<lambda>_ _. None), de_delete_marker = (\<lambda>_. None)\<rparr>"

definition toy_chunk :: data_chunk where
  "toy_chunk = \<lparr>dc_offset = 0, dc_data = [7]\<rparr>"

definition toy_file_item :: "toy_entry observed_item" where
  "toy_file_item = \<lparr>oi_entry = (''f'', False, 1, 0), oi_version_index = None\<rparr>"

lemma one_outcome_per_transfer_witness:
  "\<exists>t outcome. dc_task_run toy_model True
    ((toy_dc_env, begin_msg TransferFull 3 toy_file_item 0) # [(toy_dc_env, DFileChunk 3 toy_chunk)]
      @ (toy_dc_env, commit_msg TransferFull 3 (oi_entry toy_file_item) (Some ''h'')) # [])
    (dc_task_new progress_new) = (t, [AckFileOutcome 3 outcome])"
proof -
  have rest: "resting (dt_files (dc_task_new progress_new :: toy_entry dc_task))"
    by (simp add: dc_task_new_def resting_def active_of_def)
  have "list_all (\<lambda>(env, msg). payload_msg TransferFull 3 (oi_entry toy_file_item) msg)
      [(toy_dc_env, DFileChunk 3 toy_chunk)]"
    by simp
  from one_outcome_per_transfer [OF rest this, of toy_model True toy_dc_env 0 toy_dc_env "Some ''h''"]
  obtain t' outcome where "dc_task_run toy_model True
    ((toy_dc_env, begin_msg TransferFull 3 toy_file_item 0) # [(toy_dc_env, DFileChunk 3 toy_chunk)]
      @ (toy_dc_env, commit_msg TransferFull 3 (oi_entry toy_file_item) (Some ''h'')) # [])
    (dc_task_new progress_new)
    = (let (u, acks) = dc_task_run toy_model True [] t' in (u, AckFileOutcome 3 outcome # acks))"
    by blast
  then show ?thesis by simp
qed

lemma success_only_for_verified_files_witness:
  "let af = \<lparr>af_ndx = 3, af_entry = \<lparr>oi_entry = (''f'', False, 1, 0), oi_version_index = None\<rparr>, af_size = 1,
       af_mode = ModeFull, af_sent = [\<lparr>sk_offset = 0, sk_data = [7], sk_unchanged_basis = False\<rparr>]\<rparr>
   in \<exists>af1. fe_received_size (de_finish toy_dc_env af1) = af_size af"
  unfolding Let_def
  using success_only_for_verified_files [of toy_model "\<lambda>_ _. Inr []" True True "de_finish toy_dc_env" 3
      "(''f'', False, 1, 0)" "Some ''h''" TransferFull
      "FcFullActive \<lparr>af_ndx = 3, af_entry = \<lparr>oi_entry = (''f'', False, 1, 0), oi_version_index = None\<rparr>, af_size = 1,
       af_mode = ModeFull, af_sent = [\<lparr>sk_offset = 0, sk_data = [7], sk_unchanged_basis = False\<rparr>]\<rparr>"
      FcCompleted "[(3, OutcomeSuccess)]" 3]
  by (auto simp: fc_commit_def mode_transfer_mode_def toy_dc_env_def finalize_file_def active_of_def)

lemma open_files_have_safe_paths_witness:
  "validate_relative_path (path_of toy_model (oi_entry toy_file_item))"
  using open_files_have_safe_paths [of toy_model True "[(toy_dc_env, DFileBegin 3 toy_file_item)]" progress_new]
  by (simp add: dc_step_def dc_task_new_def fc_begin_def toy_dc_env_def active_of_def toy_file_item_def toy_model_def
      validate_relative_path_def)

end
