(* ===== verification/EndToEnd.thy ===== *)
theory EndToEnd
  imports SenderProofs DiskCommit
begin

section \<open>From the source file to the destination writer\<close>

text \<open>
  The three parts of a remote transfer composed: the messages the sender session sends for a
  requested file, the receiver session that consumes them, and the disk-commit task that
  carries out what the receiver session tells it.
\<close>

subsection \<open>The receiver on a stream of payload\<close>

definition dc_msgs :: "'e act list \<Rightarrow> 'e disk_commit_msg list" where
  "dc_msgs acts = concat (map (\<lambda>a. case a of Dc m \<Rightarrow> [m] | _ \<Rightarrow> []) acts)"

lemma dc_msgs_simps [simp]:
  "dc_msgs [] = []" "dc_msgs (Dc m # as) = m # dc_msgs as" "dc_msgs (as @ bs) = dc_msgs as @ dc_msgs bs"
  "dc_msgs (map Tx ms) = []"
  by (induction ms) (simp_all add: dc_msgs_def)

text \<open>An account in which accepting less than \<open>2 ^ 63\<close> bytes cannot overflow.\<close>

definition credit_safe :: "receiver_credit \<Rightarrow> bool" where
  "credit_safe cr \<longleftrightarrow> unat (cr_accepted_pending cr) < unat (cr_grant_threshold cr) \<and> unat (cr_grant_threshold cr) \<le> 2 ^ 63"

definition receiver_open :: "'e rx_env \<Rightarrow> bool" where
  "receiver_open env \<longleftrightarrow> en_tx_open env \<and> en_dc_open env"

lemma record_accepted_safe:
  assumes "credit_safe cr" "unat bytes < 2 ^ 63"
  shows "\<exists>cr' out. record_accepted cr bytes = Inr (cr', out) \<and> credit_safe cr'"
proof -
  have "unat (cr_accepted_pending cr) + unat bytes < 2 ^ 64"
    using assms by (simp add: credit_safe_def)
  then have "checked_add (cr_accepted_pending cr) bytes = Some (cr_accepted_pending cr + bytes)"
    by (simp add: checked_add_def)
  then show ?thesis
    using assms(1) by (auto simp: record_accepted_def credit_safe_def word_less_nat_alt)
qed

lemma credit_accepted_safe:
  assumes "credit_safe (ss_credit s)" "receiver_open env" "length data < 2 ^ 63"
  shows "\<exists>cr' grants. session_credit_accepted env (payload_credit_cost data) s = Inr (s\<lparr>ss_credit := cr'\<rparr>, map Tx grants)
    \<and> credit_safe cr'"
proof -
  have "unat (payload_credit_cost data) < 2 ^ 63"
    using assms(3) by (simp add: payload_credit_cost_def unat_of_nat take_bit_nat_eq_self)
  from record_accepted_safe [OF assms(1) this] obtain cr' out where
    "record_accepted (ss_credit s) (payload_credit_cost data) = Inr (cr', out)" "credit_safe cr'" by blast
  with assms(2) have "session_credit_accepted env (payload_credit_cost data) s =
      Inr (s\<lparr>ss_credit := cr'\<rparr>, map Tx (case out of Pending \<Rightarrow> [] | Grant n \<Rightarrow> [RCreditGrant n None]))"
    by (cases out) (simp_all add: session_credit_accepted_def credit_accepted_def receiver_open_def)
  with \<open>credit_safe cr'\<close> show ?thesis by blast
qed

lemma rx_loop_append:
  "rx_loop dm config features th (xs @ ys) s =
    (case rx_loop dm config features th xs s of
       (s1, acts, Continue) \<Rightarrow> (let (s2, acts', fl) = rx_loop dm config features th ys s1 in (s2, acts @ acts', fl))
     | r \<Rightarrow> r)"
proof (induction xs arbitrary: s)
  case (Cons x xs)
  obtain env input where x: "x = (env, input)" by (cases x)
  obtain s1 acts1 fl1 where st: "rx_step dm config features th env input s = (s1, acts1, fl1)"
    by (cases "rx_step dm config features th env input s") auto
  show ?case
    using Cons [of s1] by (cases fl1) (auto simp: x st split: prod.splits flow.splits)
qed (simp split: prod.splits)

definition from_sender :: "'e rx_env \<Rightarrow> 'e sender_msg list \<Rightarrow> ('e rx_env \<times> 'e rx_input) list" where
  "from_sender env msgs = map (\<lambda>m. (env, FromSender m)) msgs"

lemma from_sender_simps [simp]:
  "from_sender env [] = []" "from_sender env (m # ms) = (env, FromSender m) # from_sender env ms"
  "from_sender env (as @ bs) = from_sender env as @ from_sender env bs"
  by (simp_all add: from_sender_def)

fun data_chunks :: "u64 \<Rightarrow> bytes list \<Rightarrow> data_chunk list" where
  "data_chunks offset [] = []"
| "data_chunks offset (c # cs) = \<lparr>dc_offset = offset, dc_data = c\<rparr> # data_chunks (offset + of_nat (length c)) cs"

lemma file_data_chunks: "file_data ndx offset cs = map (SFileData ndx) (data_chunks offset cs)"
  by (induction offset cs rule: data_chunks.induct) simp_all

lemma data_chunks_lengths: "c \<in> set (data_chunks off cs) \<Longrightarrow> dc_data c \<in> set cs"
  by (induction off cs rule: data_chunks.induct) auto

lemma rx_loop_file_data:
  assumes "ss_active s = ActiveFull ndx" "receiver_open env" "credit_safe (ss_credit s)"
    "\<forall>c \<in> set chs. length (dc_data c) < 2 ^ 63"
  shows "\<exists>cr' acts. rx_loop dm config features th (from_sender env (map (SFileData ndx) chs)) s
      = (s\<lparr>ss_credit := cr'\<rparr>, acts, Continue) \<and>
    dc_msgs acts = map (DFileChunk ndx) chs \<and> credit_safe cr'"
  using assms(1,3,4)
proof (induction chs arbitrary: s)
  case Nil
  then show ?case by (intro exI [of _ "ss_credit s"] exI [of _ "[]"]) simp
next
  case (Cons c chs)
  obtain cr1 grants where cr: "session_credit_accepted env (payload_credit_cost (dc_data c)) s
      = Inr (s\<lparr>ss_credit := cr1\<rparr>, map Tx grants)" "credit_safe cr1"
    using credit_accepted_safe [OF Cons.prems(2) assms(2)] Cons.prems(3) by fastforce
  have st: "rx_step dm config features th env (FromSender (SFileData ndx c)) s
      = (s\<lparr>ss_credit := cr1\<rparr>, Dc (DFileChunk ndx c) # map Tx grants, Continue)"
    using Cons.prems(1) assms(2) cr(1)
    by (simp add: rx_step_def rx_message_def accept_full_chunk_def push_full_chunk_def receiver_open_def accepted_flow_def)
  from Cons.IH [of "s\<lparr>ss_credit := cr1\<rparr>"] Cons.prems cr(2) obtain cr' acts where
    "rx_loop dm config features th (from_sender env (map (SFileData ndx) chs)) (s\<lparr>ss_credit := cr1\<rparr>)
      = (s\<lparr>ss_credit := cr'\<rparr>, acts, Continue)" "dc_msgs acts = map (DFileChunk ndx) chs" "credit_safe cr'"
    by auto
  then show ?case
    by (intro exI [of _ cr'] exI [of _ "Dc (DFileChunk ndx c) # map Tx grants @ acts"]) (simp add: st)
qed

text \<open>The receiver is ready for a transfer of that index.\<close>

definition ready_for :: "'e session_state \<Rightarrow> i32 \<Rightarrow> 'e observed_item \<Rightarrow> bool" where
  "ready_for s ndx item \<longleftrightarrow> ndx_get (ss_ndx_table s) ndx = Some item \<and> ndx \<notin> tl_terminated_ndx (ss_ledger s) \<and>
     ss_active s = Idle \<and> credit_safe (ss_credit s)"

lemma rx_loop_full:
  assumes "ready_for s ndx item" "receiver_open env" "\<forall>c \<in> set cs. length c < 2 ^ 63"
  shows "\<exists>cr' acts. rx_loop dm config features th
      (from_sender env (SFileBegin ndx # file_data ndx 0 cs @ [SEndOfFile ndx h])) s
      = (s\<lparr>ss_credit := cr'\<rparr>, acts, Continue) \<and>
    dc_msgs acts = DFileBegin ndx item # map (DFileChunk ndx) (data_chunks 0 cs) @ [DFileCommit ndx (oi_entry item) h]"
proof -
  have bg: "rx_step dm config features th env (FromSender (SFileBegin ndx)) s
      = (s\<lparr>ss_active := ActiveFull ndx\<rparr>, [Dc (DFileBegin ndx item)], Continue)"
    using assms(1) by (simp add: rx_step_def rx_message_def begin_full_def ready_for_def)
  have "\<forall>c \<in> set (data_chunks 0 cs). length (dc_data c) < 2 ^ 63"
    using assms(3) data_chunks_lengths by blast
  note chunks = this
  have "ss_active (s\<lparr>ss_active := ActiveFull ndx\<rparr>) = ActiveFull ndx" "credit_safe (ss_credit (s\<lparr>ss_active := ActiveFull ndx\<rparr>))"
    using assms(1) by (simp_all add: ready_for_def)
  from rx_loop_file_data [OF this(1) assms(2) this(2) chunks, of dm config features th]
  obtain cr' acts where pl: "rx_loop dm config features th (from_sender env (map (SFileData ndx) (data_chunks 0 cs)))
        (s\<lparr>ss_active := ActiveFull ndx\<rparr>)
      = (s\<lparr>ss_active := ActiveFull ndx, ss_credit := cr'\<rparr>, acts, Continue)"
    "dc_msgs acts = map (DFileChunk ndx) (data_chunks 0 cs)"
    by blast
  have en: "rx_step dm config features th env (FromSender (SEndOfFile ndx h))
        (s\<lparr>ss_active := ActiveFull ndx, ss_credit := cr'\<rparr>)
      = (s\<lparr>ss_credit := cr'\<rparr>, [Dc (DFileCommit ndx (oi_entry item) h)], Continue)"
    using assms(1) by (simp add: rx_step_def rx_message_def handle_end_of_file_def commit_full_def ready_for_def)
  show ?thesis
    by (intro exI [of _ cr'] exI [of _ "Dc (DFileBegin ndx item) # acts @ [Dc (DFileCommit ndx (oi_entry item) h)]"])
      (simp add: bg file_data_chunks rx_loop_append pl en)
qed

subsection \<open>The disk-commit task on a full transfer\<close>

definition stream_of :: "data_chunk \<Rightarrow> stream_chunk" where
  "stream_of c = \<lparr>sk_offset = dc_offset c, sk_data = dc_data c, sk_unchanged_basis = False\<rparr>"

lemma dt_files_id: "dt_files t = x \<Longrightarrow> t\<lparr>dt_files := x\<rparr> = t"
  by (cases t) simp

lemma dc_run_chunks:
  assumes "de_writer_open env"
  shows "dt_files t = FcFullActive af \<Longrightarrow> af_ndx af = ndx \<Longrightarrow>
    dc_task_run dm integrity (map (Pair env) (map (DFileChunk ndx) chs) @ rest) t
      = dc_task_run dm integrity rest (t\<lparr>dt_files := FcFullActive (af\<lparr>af_sent := af_sent af @ map stream_of chs\<rparr>)\<rparr>)"
proof (induction chs arbitrary: t af)
  case (Cons c chs)
  from Cons.IH [of "t\<lparr>dt_files := FcFullActive (af\<lparr>af_sent := af_sent af @ [stream_of c]\<rparr>)\<rparr>"] Cons.prems show ?case
    by (simp add: dc_step_def fc_push_full_def send_chunk_def assms stream_of_def split_beta)
qed (simp add: dt_files_id)

lemma data_chunks_stream:
  "unat off + length (concat cs) < 2 ^ 64 \<Longrightarrow>
    sent_bytes (map stream_of (data_chunks off cs)) = concat cs \<and>
    chunks_from basis (unat off) (map stream_of (data_chunks off cs))"
proof (induction off cs rule: data_chunks.induct)
  case (2 off c cs)
  have "unat (of_nat (length c) :: u64) = length c"
    using 2(2) by (simp add: unat_of_nat take_bit_nat_eq_self)
  then have off: "unat (off + of_nat (length c)) = unat off + length c"
    using 2(2) by (simp add: unat_add_small)
  with 2 show ?case by (simp add: stream_of_def add.assoc)
qed simp

lemma dc_run_full:
  assumes "resting (dt_files t)" "de_writer_open env" "be_prepare_error (de_begin env) = None"
    "validate_relative_path (path_of dm (oi_entry item))" "length (concat cs) < 2 ^ 64"
  shows "\<exists>af. sent_bytes (af_sent af) = concat cs \<and> chunks_from [] 0 (af_sent af) \<and>
    snd (dc_task_run dm integrity (map (Pair env) (DFileBegin ndx item # map (DFileChunk ndx) (data_chunks 0 cs)
        @ [DFileCommit ndx (oi_entry item) h])) t)
      = [AckFileOutcome ndx (finalize_file integrity (de_finish env af) (item_get_size dm item) h)]"
proof -
  let ?opened = "\<lparr>af_ndx = ndx, af_entry = item, af_size = item_get_size dm item, af_mode = ModeFull, af_sent = []\<rparr>"
  let ?written = "\<lparr>af_ndx = ndx, af_entry = item, af_size = item_get_size dm item, af_mode = ModeFull,
    af_sent = map stream_of (data_chunks 0 cs)\<rparr>"
  have bg: "dc_step dm integrity env (DFileBegin ndx item) t = (t\<lparr>dt_files := FcFullActive ?opened\<rparr>, [])"
    using assms(1,3,4)
    by (cases "dt_files t") (simp_all add: dc_step_def fc_begin_def resting_def active_of_def report_outcomes_def)
  have "snd (dc_task_run dm integrity (map (Pair env) (DFileBegin ndx item # map (DFileChunk ndx) (data_chunks 0 cs)
        @ [DFileCommit ndx (oi_entry item) h])) t)
      = [AckFileOutcome ndx (finalize_file integrity (de_finish env ?written) (item_get_size dm item) h)]"
  proof -
    obtain u where cm: "dc_step dm integrity env (DFileCommit ndx (oi_entry item) h) (t\<lparr>dt_files := FcFullActive ?written\<rparr>)
        = (u, [AckFileOutcome ndx (finalize_file integrity (de_finish env ?written) (item_get_size dm item) h)])"
      by (simp add: dc_step_def dc_commit_def fc_commit_def active_of_def mode_transfer_mode_def report_outcomes_def Let_def)
    have "dc_task_run dm integrity (map (Pair env) (map (DFileChunk ndx) (data_chunks 0 cs))
          @ [(env, DFileCommit ndx (oi_entry item) h)]) (t\<lparr>dt_files := FcFullActive ?opened\<rparr>)
        = dc_task_run dm integrity [(env, DFileCommit ndx (oi_entry item) h)] (t\<lparr>dt_files := FcFullActive ?written\<rparr>)"
      using dc_run_chunks [OF assms(2), of "t\<lparr>dt_files := FcFullActive ?opened\<rparr>" ?opened ndx dm integrity "data_chunks 0 cs"
          "[(env, DFileCommit ndx (oi_entry item) h)]"] by simp
    then show ?thesis by (simp add: bg cm split: prod.split)
  qed
  then show ?thesis
    using data_chunks_stream [of 0 cs "[]"] assms(5) by (intro exI [of _ ?written]) simp
qed

subsection \<open>A full transfer\<close>

definition transfers_data :: "('e, 'v, 'm) data_model \<Rightarrow> 'e observed_item \<Rightarrow> bool" where
  "transfers_data dm item \<longleftrightarrow>
     (case view_version dm (item_view item) of None \<Rightarrow> True | Some v \<Rightarrow> \<not> v_is_delete_marker dm v) \<and>
     (item_get_is_dir dm item \<longrightarrow> history_of dm (oi_entry item) \<noteq> None \<or> marker_object_of dm (oi_entry item) \<noteq> None) \<and>
     \<not> item_get_is_symlink dm item"

lemma full_messages_data:
  "transfers_data dm item \<Longrightarrow> se_open senv item = Opened \<lparr>pl_chunks = cs, pl_end = Evidence h\<rparr> \<Longrightarrow>
    full_messages dm senv ndx item = (SFileBegin ndx # file_data ndx 0 cs @ [SEndOfFile ndx (Some h)], Inr Sent)"
  by (auto simp: full_messages_def transfers_data_def Let_def split: option.splits)

text \<open>
  C7. A full transfer delivers the file. When the source is read in chunks \<open>cs\<close>, whatever
  their sizes, the messages the sender session sends, consumed by a receiver session that
  knows the index and has no other transfer open, leave that session ready for the next
  transfer, and make the disk-commit task write exactly the bytes of the source at
  consecutive offsets from 0 and report one outcome: what \<open>finalize_file\<close> says of that file
  against the size the receiver was told and the hash the sender computed - success, when
  these are those of the bytes and the engine reports truthfully.
\<close>

theorem full_transfer_delivers:
  assumes "transfers_data dm item" "se_open senv item = Opened \<lparr>pl_chunks = cs, pl_end = Evidence h\<rparr>"
    "ready_for s ndx item" "receiver_open renv" "length (concat cs) < 2 ^ 63"
    "rx_loop dm config features th (from_sender renv (fst (full_messages dm senv ndx item))) s = (s', acts, fl)"
    "resting (dt_files t)" "de_writer_open denv" "be_prepare_error (de_begin denv) = None"
    "validate_relative_path (path_of dm (oi_entry item))"
  shows "fl = Continue \<and> ss_active s' = Idle \<and> ss_ledger s' = ss_ledger s \<and>
    (\<exists>af. sent_bytes (af_sent af) = concat cs \<and> chunks_from [] 0 (af_sent af) \<and>
      snd (dc_task_run dm integrity (map (Pair denv) (dc_msgs acts)) t)
        = [AckFileOutcome ndx (finalize_file integrity (de_finish denv af) (item_get_size dm item) (Some h))] \<and>
      (item_get_size dm item = of_nat (length (concat cs)) \<and> h = H (concat cs) \<and> de_finish denv af = honest_finish H af \<longrightarrow>
        snd (dc_task_run dm integrity (map (Pair denv) (dc_msgs acts)) t) = [AckFileOutcome ndx OutcomeSuccess]))"
proof -
  have "length c \<le> length (concat cs)" if "c \<in> set cs" for c
    using that by (induction cs) auto
  then have small: "\<forall>c \<in> set cs. length c < 2 ^ 63" using assms(5) by (meson le_less_trans)
  from rx_loop_full [OF assms(3,4) small, of dm config features th "Some h"] assms(6) full_messages_data [OF assms(1,2)]
  obtain cr' where rx: "s' = s\<lparr>ss_credit := cr'\<rparr>" "fl = Continue"
    "dc_msgs acts = DFileBegin ndx item # map (DFileChunk ndx) (data_chunks 0 cs) @ [DFileCommit ndx (oi_entry item) (Some h)]"
    by fastforce
  have "length (concat cs) < 2 ^ 64" using assms(5) by simp
  from dc_run_full [OF assms(7-10) this, of integrity ndx "Some h"] rx(3) obtain af where
    af: "sent_bytes (af_sent af) = concat cs" "chunks_from [] 0 (af_sent af)"
      "snd (dc_task_run dm integrity (map (Pair denv) (dc_msgs acts)) t)
        = [AckFileOutcome ndx (finalize_file integrity (de_finish denv af) (item_get_size dm item) (Some h))]"
    by metis
  have "finalize_file integrity (honest_finish H af) (of_nat (length (concat cs))) (Some (H (concat cs))) = OutcomeSuccess"
    using af(1) by (simp add: honest_finish_def finalize_file_def)
  with af rx assms(3) show ?thesis by (intro conjI exI [of _ af]) (auto simp: ready_for_def)
qed

definition toy_source :: "toy_entry observed_item" where
  "toy_source = \<lparr>oi_entry = (''d/a'', False, 3, 5), oi_version_index = None\<rparr>"

definition toy_receiver :: "toy_entry session_state" where
  "toy_receiver = session_default\<lparr>ss_ndx_table := [0 \<mapsto> toy_source]\<rparr>"

lemma toy_ready: "ready_for toy_receiver 0 toy_source"
  by (simp add: ready_for_def toy_receiver_def session_default_def ledger_default_def ndx_get_def credit_safe_def
      receiver_credit_default_def DEFAULT_CREDIT_WINDOW_BYTES_def)

lemma toy_transfers_data: "transfers_data toy_model toy_source"
  by (simp add: transfers_data_def toy_source_def item_view_def view_version_def toy_model_def
      item_get_is_dir_def view_get_is_dir_def item_get_is_symlink_def view_get_is_symlink_def)

lemma full_transfer_delivers_witness:
  "let senv = toy_sn_env\<lparr>se_open := (\<lambda>_. Opened \<lparr>pl_chunks = [[1, 2], [3]], pl_end = Evidence ''h''\<rparr>)\<rparr>
   in \<exists>s' acts af. rx_loop toy_model toy_config features_current 0
        (from_sender (toy_env []) (fst (full_messages toy_model senv 0 toy_source))) toy_receiver = (s', acts, Continue) \<and>
      sent_bytes (af_sent (af :: toy_entry active_file)) = [1, 2, 3]"
proof -
  let ?senv = "toy_sn_env\<lparr>se_open := (\<lambda>_. Opened \<lparr>pl_chunks = [[1, 2], [3]], pl_end = Evidence ''h''\<rparr>)\<rparr>"
  obtain s' acts fl where run: "rx_loop toy_model toy_config features_current 0
      (from_sender (toy_env []) (fst (full_messages toy_model ?senv 0 toy_source))) toy_receiver = (s', acts, fl)"
    by (cases "rx_loop toy_model toy_config features_current 0
      (from_sender (toy_env []) (fst (full_messages toy_model ?senv 0 toy_source))) toy_receiver") auto
  have "fl = Continue \<and> (\<exists>af :: toy_entry active_file. sent_bytes (af_sent af) = [1, 2, 3])"
    using full_transfer_delivers [OF toy_transfers_data _ toy_ready _ _ run, where cs = "[[1, 2], [3]]" and h = "''h''"
        and t = "dc_task_new progress_new" and denv = toy_dc_env and H = "\<lambda>_. ''h''" and integrity = True]
    by (fastforce simp: receiver_open_def toy_env_def resting_def dc_task_new_def active_of_def toy_dc_env_def
        toy_source_def toy_model_def validate_relative_path_def)
  with run show ?thesis by auto
qed

subsection \<open>The receiver on a stream of tokens\<close>

definition dc_token :: "'e \<Rightarrow> delta_token \<Rightarrow> 'e disk_commit_msg" where
  "dc_token e tok = (case tok of Match i \<Rightarrow> DDeltaMatch e i | Data d \<Rightarrow> DDeltaData e d)"

definition token_small :: "delta_token \<Rightarrow> bool" where
  "token_small tok \<longleftrightarrow> (case tok of Match _ \<Rightarrow> True | Data d \<Rightarrow> length d < 2 ^ 63)"

lemma rx_token:
  assumes "ndx_get (ss_ndx_table s) ndx = Some item" "ndx \<notin> tl_terminated_ndx (ss_ledger s)"
    "ss_active s = ActiveDelta ndx" "credit_safe (ss_credit s)" "receiver_open env" "token_small tok"
  shows "\<exists>cr' grants. rx_step dm config features th env (FromSender (token_message ndx tok)) s
      = (s\<lparr>ss_credit := cr'\<rparr>, Dc (dc_token (oi_entry item) tok) # map Tx grants, Continue) \<and> credit_safe cr'"
proof (cases tok)
  case (Match i)
  then show ?thesis
    using assms by (intro exI [of _ "ss_credit s"] exI [of _ "[]"])
      (simp add: token_message_def dc_token_def rx_step_def rx_message_def push_delta_match_def ensure_delta_active_def)
next
  case (Data d)
  obtain cr' grants where "session_credit_accepted env (payload_credit_cost d) s = Inr (s\<lparr>ss_credit := cr'\<rparr>, map Tx grants)"
    "credit_safe cr'"
    using credit_accepted_safe [OF assms(4,5), of d] assms(6) Data by (auto simp: token_small_def)
  then show ?thesis
    using assms Data by (intro exI [of _ cr'] exI [of _ grants])
      (simp add: token_message_def dc_token_def rx_step_def rx_message_def accept_delta_data_def push_delta_data_def
        ensure_delta_active_def receiver_open_def accepted_flow_def)
qed

lemma rx_delta_end:
  assumes "ndx_get (ss_ndx_table s) ndx = Some item" "ndx \<notin> tl_terminated_ndx (ss_ledger s)" "ss_active s = ActiveDelta ndx"
  shows "rx_step dm config features th env (FromSender (SEndOfFile ndx h)) s
    = (s\<lparr>ss_active := Idle\<rparr>, [Dc (DDeltaCommit ndx (oi_entry item) h)], Continue)"
  using assms
  by (simp add: rx_step_def rx_message_def handle_end_of_file_def commit_full_def commit_delta_def ensure_delta_active_def)

lemma rx_loop_tokens:
  assumes "ndx_get (ss_ndx_table s) ndx = Some item" "ndx \<notin> tl_terminated_ndx (ss_ledger s)"
    "ss_active s = ActiveDelta ndx" "credit_safe (ss_credit s)" "receiver_open env" "list_all token_small toks"
  shows "\<exists>cr' acts. rx_loop dm config features th (from_sender env (map (token_message ndx) toks @ [SEndOfFile ndx h])) s
      = (s\<lparr>ss_credit := cr', ss_active := Idle\<rparr>, acts, Continue) \<and>
    dc_msgs acts = map (dc_token (oi_entry item)) toks @ [DDeltaCommit ndx (oi_entry item) h]"
  using assms
proof (induction toks arbitrary: s)
  case Nil
  show ?case
    using rx_delta_end [OF Nil(1-3), of dm config features th env h]
    by (intro exI [of _ "ss_credit s"] exI [of _ "[Dc (DDeltaCommit ndx (oi_entry item) h)]"]) simp
next
  case (Cons tok toks)
  obtain cr1 grants where st: "rx_step dm config features th env (FromSender (token_message ndx tok)) s
      = (s\<lparr>ss_credit := cr1\<rparr>, Dc (dc_token (oi_entry item) tok) # map Tx grants, Continue)" "credit_safe cr1"
    using rx_token [OF Cons.prems(1-5), of tok dm config features th] Cons.prems(6) by auto
  from Cons.IH [of "s\<lparr>ss_credit := cr1\<rparr>"] Cons.prems st(2) obtain cr' acts where
    "rx_loop dm config features th (from_sender env (map (token_message ndx) toks @ [SEndOfFile ndx h])) (s\<lparr>ss_credit := cr1\<rparr>)
      = (s\<lparr>ss_credit := cr', ss_active := Idle\<rparr>, acts, Continue)"
    "dc_msgs acts = map (dc_token (oi_entry item)) toks @ [DDeltaCommit ndx (oi_entry item) h]"
    by auto
  then show ?case
    by (intro exI [of _ cr'] exI [of _ "Dc (dc_token (oi_entry item) tok) # map Tx grants @ acts"]) (simp add: st(1))
qed

text \<open>The first message of an idle session opens the delta.\<close>

definition opens_delta :: "i32 \<Rightarrow> 'e sender_msg \<Rightarrow> bool" where
  "opens_delta ndx m \<longleftrightarrow> (\<exists>tok. m = token_message ndx tok) \<or> (\<exists>h. m = SEndOfFile ndx h)"

lemma rx_open_delta:
  assumes "ready_for s ndx item" "opens_delta ndx m"
  shows "rx_step dm config features th env (FromSender m) s
    = (let (s1, acts, fl) = rx_step dm config features th env (FromSender m) (s\<lparr>ss_active := ActiveDelta ndx\<rparr>)
       in (s1, Dc (DDeltaBegin ndx (oi_entry item) (en_block_size env (ext_get_size dm (oi_entry item)))) # acts, fl))"
  using assms(2) unfolding opens_delta_def
proof (elim disjE exE)
  fix tok assume "m = token_message ndx tok"
  with assms(1) show ?thesis
    by (cases tok) (auto simp: ready_for_def token_message_def rx_step_def rx_message_def push_delta_match_def
        accept_delta_data_def push_delta_data_def ensure_delta_active_def accepted_flow_def session_credit_accepted_def
        split: sum.split)
next
  fix h assume "m = SEndOfFile ndx h"
  with assms(1) show ?thesis
    by (simp add: ready_for_def rx_step_def rx_message_def handle_end_of_file_def commit_full_def commit_delta_def
        ensure_delta_active_def)
qed

lemma rx_loop_delta:
  assumes "ready_for s ndx item" "receiver_open env" "list_all token_small toks"
  shows "\<exists>cr' acts. rx_loop dm config features th (from_sender env (map (token_message ndx) toks @ [SEndOfFile ndx h])) s
      = (s\<lparr>ss_credit := cr'\<rparr>, acts, Continue) \<and>
    dc_msgs acts = DDeltaBegin ndx (oi_entry item) (en_block_size env (ext_get_size dm (oi_entry item)))
      # map (dc_token (oi_entry item)) toks @ [DDeltaCommit ndx (oi_entry item) h]"
proof -
  let ?msgs = "map (token_message ndx) toks @ [SEndOfFile ndx h] :: 'a sender_msg list"
  let ?opened = "Dc (DDeltaBegin ndx (oi_entry item) (en_block_size env (ext_get_size dm (oi_entry item))))"
  obtain m ms where m: "?msgs = m # ms" by (cases toks) auto
  then have op: "opens_delta ndx m" by (cases toks) (auto simp: opens_delta_def)
  obtain cr' acts where run: "rx_loop dm config features th (from_sender env ?msgs) (s\<lparr>ss_active := ActiveDelta ndx\<rparr>)
      = (s\<lparr>ss_active := ActiveDelta ndx, ss_credit := cr', ss_active := Idle\<rparr>, acts, Continue)"
    "dc_msgs acts = map (dc_token (oi_entry item)) toks @ [DDeltaCommit ndx (oi_entry item) h]"
    using rx_loop_tokens [of "s\<lparr>ss_active := ActiveDelta ndx\<rparr>" ndx item env toks dm config features th h] assms
    by (auto simp: ready_for_def)
  have "rx_loop dm config features th (from_sender env ?msgs) s
      = (s\<lparr>ss_active := ActiveDelta ndx, ss_credit := cr', ss_active := Idle\<rparr>, ?opened # acts, Continue)"
    using run(1) unfolding m
    by (simp add: rx_open_delta [OF assms(1) op] split: prod.splits flow.splits)
  moreover have "s\<lparr>ss_active := ActiveDelta ndx, ss_credit := cr', ss_active := Idle\<rparr> = s\<lparr>ss_credit := cr'\<rparr>"
    using assms(1) by (cases s) (simp add: ready_for_def)
  ultimately show ?thesis using run(2) by (intro exI [of _ cr'] exI [of _ "?opened # acts"]) simp
qed

subsection \<open>The disk-commit task on a delta transfer\<close>

lemma dc_step_token:
  "dc_step dm integrity env (dc_token e tok) t =
    (let (files, outs) = fc_push_delta dm (de_read env) (de_writer_open env) e tok (dt_files t)
     in (t\<lparr>dt_files := files\<rparr>, report_outcomes outs))"
  by (cases tok) (simp_all add: dc_step_def dc_token_def)

lemma dc_run_tokens:
  assumes "de_writer_open env" "reads_basis basis (de_read env)" "length basis < 2 ^ 64"
    "path_of dm (oi_entry item) = path_of dm e"
  shows "active_delta basis bs ndx item sz out (dt_files t) \<Longrightarrow>
    length out + length (expand basis bs toks) < 2 ^ 64 \<Longrightarrow>
    \<exists>t'. active_delta basis bs ndx item sz (out @ expand basis bs toks) (dt_files t') \<and>
      (\<forall>rest. dc_task_run dm integrity (map (Pair env) (map (dc_token e) toks) @ rest) t = dc_task_run dm integrity rest t')"
proof (induction toks arbitrary: out t)
  case (Cons tok toks)
  let ?files = "fst (fc_push_delta dm (de_read env) True e tok (dt_files t))"
  have push: "active_delta basis bs ndx item sz (out @ token_bytes basis bs tok) ?files"
    "snd (fc_push_delta dm (de_read env) True e tok (dt_files t)) = []"
    using fc_push_delta_active [OF Cons.prems(1) assms(4,2,3), of tok] Cons.prems(2) by simp_all
  have st: "dc_step dm integrity env (dc_token e tok) t = (t\<lparr>dt_files := ?files\<rparr>, [])"
    using push(2) by (simp add: dc_step_token assms(1) split_beta report_outcomes_def)
  have ns: "dc_token e tok \<noteq> DShutdown" by (cases tok) (simp_all add: dc_token_def)
  from Cons.IH [of "out @ token_bytes basis bs tok" "t\<lparr>dt_files := ?files\<rparr>"] push(1) Cons.prems(2) obtain t' where
    "active_delta basis bs ndx item sz (out @ expand basis bs (tok # toks)) (dt_files t')"
    "\<And>rest. dc_task_run dm integrity (map (Pair env) (map (dc_token e) toks) @ rest) (t\<lparr>dt_files := ?files\<rparr>)
      = dc_task_run dm integrity rest t'"
    by auto
  then show ?case using st ns by (intro exI [of _ t']) (simp split: prod.split)
qed auto

lemma dc_run_delta:
  assumes "resting (dt_files t)" "de_writer_open env" "be_prepare_error (de_begin env) = None"
    "be_basis (de_begin env) = BasisFound (of_nat (length basis))" "reads_basis basis (de_read env)"
    "length basis < 2 ^ 64" "validate_relative_path (path_of dm e)" "length (expand basis (unat n) toks) < 2 ^ 64"
  shows "\<exists>af. sent_bytes (af_sent af) = expand basis (unat n) toks \<and> chunks_from basis 0 (af_sent af) \<and>
    snd (dc_task_run dm integrity (map (Pair env) (DDeltaBegin ndx e n # map (dc_token e) toks @ [DDeltaCommit ndx e h])) t)
      = [AckFileOutcome ndx (finalize_file integrity (de_finish env af)
          (item_get_size dm \<lparr>oi_entry = e, oi_version_index = None\<rparr>) h)]"
proof -
  let ?item = "\<lparr>oi_entry = e, oi_version_index = None\<rparr>"
  obtain t1 where bg: "dc_step dm integrity env (DDeltaBegin ndx e n) t = (t1, [])"
    "active_delta basis (unat n) ndx ?item (item_get_size dm ?item) [] (dt_files t1)"
    using assms(1,3,4,7)
    by (cases "dt_files t")
      (auto simp: dc_step_def fc_begin_def resting_def active_of_def report_outcomes_def active_delta_def re_new_def
        delta_ok_def virtual_output_def pending_bytes_def)
  obtain t2 where toks: "active_delta basis (unat n) ndx ?item (item_get_size dm ?item) (expand basis (unat n) toks) (dt_files t2)"
    "\<And>rest. dc_task_run dm integrity (map (Pair env) (map (dc_token e) toks) @ rest) t1 = dc_task_run dm integrity rest t2"
    using dc_run_tokens [OF assms(2,5,6) _ bg(2), of dm e toks integrity] assms(8) by auto
  obtain af where af: "\<And>integrity finish hash. snd (fc_commit dm (de_read env) True integrity finish ndx e hash TransferDelta (dt_files t2))
      = [(ndx, finalize_file integrity (finish af) (item_get_size dm ?item) hash)]"
    "sent_bytes (af_sent af) = expand basis (unat n) toks" "chunks_from basis 0 (af_sent af)"
    using fc_commit_active [OF toks(1) _ assms(5), of dm e] by auto
  have cm: "snd (dc_step dm integrity env (DDeltaCommit ndx e h) t2)
      = [AckFileOutcome ndx (finalize_file integrity (de_finish env af) (item_get_size dm ?item) h)]"
    using af(1) by (simp add: dc_step_def dc_commit_def assms(2) split_beta report_outcomes_def)
  then obtain u where cm: "dc_step dm integrity env (DDeltaCommit ndx e h) t2
      = (u, [AckFileOutcome ndx (finalize_file integrity (de_finish env af) (item_get_size dm ?item) h)])"
    by (cases "dc_step dm integrity env (DDeltaCommit ndx e h) t2") simp
  have "dc_task_run dm integrity (map (Pair env) (DDeltaBegin ndx e n # map (dc_token e) toks @ [DDeltaCommit ndx e h])) t
      = (case dc_task_run dm integrity [(env, DDeltaCommit ndx e h)] t2 of (v, acks) \<Rightarrow> (v, acks))"
    using toks(2) [of "[(env, DDeltaCommit ndx e h)]"] by (simp add: bg(1))
  then show ?thesis using af(2,3) by (intro exI [of _ af]) (simp add: cm)
qed

subsection \<open>A delta transfer\<close>

lemma delta_messages_data:
  "se_open senv item = Opened \<lparr>pl_chunks = cs, pl_end = Evidence h\<rparr> \<Longrightarrow>
    delta_messages dm senv ndx n sigs item
      = (map (token_message ndx) (delta_match (se_blake3 senv) (concat cs) (map signature_of sigs) n) @ [SEndOfFile ndx (Some h)],
         Inr Sent)"
proof -
  assume op: "se_open senv item = Opened \<lparr>pl_chunks = cs, pl_end = Evidence h\<rparr>"
  have "feed (dm_stream_push b) m cs = Some (push_all b m cs)" for b m
    by (induction b m cs rule: push_all.induct) (simp_all add: dm_stream_push_def split: prod.split)
  then have "snd (push_all b m cs) @ snd (dm_finish b (fst (push_all b m cs))) = toks"
    if "stream_result (dm_stream_push b) (\<lambda>dm. snd (dm_finish b dm)) m cs = Some toks" for b m toks
    using that by (simp add: stream_result_def split_beta)
  from this [OF streamed_matches [OF refl]] show ?thesis
    by (simp add: delta_messages_def op Let_def split_beta flip: map_append)
qed

lemma signature_of_wire: "map signature_of (map wire_of sigs) = sigs"
  by (induction sigs) (simp_all add: signature_of_def wire_of_def)

lemma token_ok_small: "list_all data_token_ok toks \<Longrightarrow> list_all token_small toks"
  by (auto simp: list_all_iff token_small_def data_token_ok_def LITERAL_LIMIT_def split: delta_token.splits)

text \<open>
  C1. A delta transfer delivers the file. The receiver computes the signatures of its basis,
  read in any chunks, and requests the delta with them; the sender matches its source, read
  in any chunks, and streams the tokens; the receiver session opens the delta with the first
  of them and closes it at the end of the file; the disk-commit task rebuilds the file from
  basis and data. If the strong hash separates the blocks of the two files, the writer gets
  exactly the source bytes at consecutive offsets - unchanged chunks being what the basis has
  there - and one outcome is reported, success when size and hash are those of the source and
  the engine reports truthfully.
\<close>

theorem delta_transfer_delivers:
  assumes "basis_signatures (se_blake3 senv) n bcs = Some sigs" "n \<noteq> 0"
    "length (chunks (unat n) (concat bcs)) \<le> 2 ^ 32" "no_confusion (se_blake3 senv) (unat n) (concat bcs) (concat cs)"
    "se_open senv item = Opened \<lparr>pl_chunks = cs, pl_end = Evidence h\<rparr>"
    "ready_for s ndx item" "receiver_open renv" "length (concat cs) < 2 ^ 63"
    "n = en_block_size renv (ext_get_size dm (oi_entry item))"
    "rx_loop dm config features th (from_sender renv (fst (delta_messages dm senv ndx n (map wire_of sigs) item))) s
      = (s', acts, fl)"
    "resting (dt_files t)" "de_writer_open denv" "be_prepare_error (de_begin denv) = None"
    "be_basis (de_begin denv) = BasisFound (of_nat (length (concat bcs)))" "reads_basis (concat bcs) (de_read denv)"
    "validate_relative_path (path_of dm (oi_entry item))"
    "item_get_size dm \<lparr>oi_entry = oi_entry item, oi_version_index = None\<rparr> = of_nat (length (concat cs))"
  shows "fl = Continue \<and> ss_active s' = Idle \<and> ss_ledger s' = ss_ledger s \<and>
    (\<exists>af. sent_bytes (af_sent af) = concat cs \<and> chunks_from (concat bcs) 0 (af_sent af) \<and>
      snd (dc_task_run dm integrity (map (Pair denv) (dc_msgs acts)) t)
        = [AckFileOutcome ndx (finalize_file integrity (de_finish denv af) (of_nat (length (concat cs))) (Some h))] \<and>
      (h = H (concat cs) \<and> de_finish denv af = honest_finish H af \<longrightarrow>
        snd (dc_task_run dm integrity (map (Pair denv) (dc_msgs acts)) t) = [AckFileOutcome ndx OutcomeSuccess]))"
proof -
  let ?toks = "delta_match (se_blake3 senv) (concat cs) sigs n"
  have sigs: "sigs = map (block_sig (se_blake3 senv)) (chunks (unat n) (concat bcs))"
    using assms(1) streamed_signatures [OF refl assms(2), of "se_blake3 senv" bcs] by (simp add: basis_signatures_def)
  have ex: "expand (concat bcs) (unat n) ?toks = concat cs"
    using delta_match_expand [OF assms(2-4)] by (simp add: sigs)
  have small: "list_all token_small ?toks" by (rule token_ok_small [OF delta_match_tokens_ok])
  have msgs: "fst (delta_messages dm senv ndx n (map wire_of sigs) item)
      = map (token_message ndx) ?toks @ [SEndOfFile ndx (Some h)]"
    using delta_messages_data [OF assms(5), of dm ndx n "map wire_of sigs"] by (simp only: signature_of_wire fst_conv)
  from rx_loop_delta [OF assms(6,7) small, of dm config features th "Some h"] assms(10)
  obtain cr' where rx: "s' = s\<lparr>ss_credit := cr'\<rparr>" "fl = Continue"
    "dc_msgs acts = DDeltaBegin ndx (oi_entry item) n # map (dc_token (oi_entry item)) ?toks @ [DDeltaCommit ndx (oi_entry item) (Some h)]"
    unfolding msgs assms(9) [symmetric] by fastforce
  have "length (expand (concat bcs) (unat n) ?toks) < 2 ^ 64" using assms(8) ex by simp
  from dc_run_delta [OF assms(11-15) basis_below_u64 [OF assms(2,3)] assms(16) this, of integrity ndx "Some h"] rx(3) ex
    assms(17) obtain af where
    af: "sent_bytes (af_sent af) = concat cs" "chunks_from (concat bcs) 0 (af_sent af)"
      "snd (dc_task_run dm integrity (map (Pair denv) (dc_msgs acts)) t)
        = [AckFileOutcome ndx (finalize_file integrity (de_finish denv af) (of_nat (length (concat cs))) (Some h))]"
    by auto
  have "finalize_file integrity (honest_finish H af) (of_nat (length (concat cs))) (Some (H (concat cs))) = OutcomeSuccess"
    using af(1) by (simp add: honest_finish_def finalize_file_def)
  with af rx assms(6) show ?thesis by (intro conjI exI [of _ af]) (auto simp: ready_for_def)
qed

lemma delta_transfer_delivers_witness:
  "let senv = toy_sn_env\<lparr>se_open := (\<lambda>_. Opened \<lparr>pl_chunks = [[1, 2], [9]], pl_end = Evidence ''h''\<rparr>),
       se_blake3 := pad_hash\<rparr>;
     sigs = map (block_sig pad_hash) [[1, 2], [3]]
   in \<exists>s' acts af. rx_loop toy_model toy_config features_current 0
        (from_sender (toy_env []\<lparr>en_block_size := \<lambda>_. 2\<rparr>)
          (fst (delta_messages toy_model senv 0 2 (map wire_of sigs) toy_source))) toy_receiver = (s', acts, Continue) \<and>
      sent_bytes (af_sent (af :: toy_entry active_file)) = [1, 2, 9]"
proof -
  let ?senv = "toy_sn_env\<lparr>se_open := (\<lambda>_. Opened \<lparr>pl_chunks = [[1, 2], [9]], pl_end = Evidence ''h''\<rparr>),
       se_blake3 := pad_hash\<rparr>"
  let ?sigs = "map (block_sig pad_hash) [[1, 2], [3]]"
  let ?renv = "toy_env []\<lparr>en_block_size := \<lambda>_. 2\<rparr>"
  let ?denv = "toy_dc_env\<lparr>de_begin := \<lparr>be_basis = BasisFound 3, be_prepare_error = None\<rparr>, de_read := slice_reader [1, 2, 3]\<rparr>"
  let ?loop = "rx_loop toy_model toy_config features_current 0
      (from_sender ?renv (fst (delta_messages toy_model ?senv 0 2 (map wire_of ?sigs) toy_source))) toy_receiver"
  have ch: "chunks 2 [1, 2, 3 :: u8] = [[1, 2], [3]]" by (simp add: chunks.simps)
  have nc: "no_confusion pad_hash (unat (2 :: u32)) [1, 2, 3] [1, 2, 9]"
    by (simp add: no_confusion_def ch) (simp add: blake3_truncated_def STRONG_HASH_LEN_def pad_hash_def)
  have sg: "basis_signatures pad_hash 2 [[1, 2, 3]] = Some ?sigs"
    using streamed_signatures [of "[[1, 2, 3]]" "[1, 2, 3]" 2 pad_hash]
    by (simp add: ch basis_signatures_def)
  have reads: "reads_basis [1, 2, 3] (slice_reader [1, 2, 3])"
    by (simp add: reads_basis_def slice_reader_def)
  obtain s' acts fl where run: "?loop = (s', acts, fl)" by (cases ?loop) auto
  have env: "basis_signatures (se_blake3 ?senv) 2 [[1, 2, 3]] = Some ?sigs"
    "length (chunks (unat (2 :: u32)) (concat [[1, 2, 3 :: u8]])) \<le> 2 ^ 32"
    "no_confusion (se_blake3 ?senv) (unat (2 :: u32)) (concat [[1, 2, 3]]) (concat [[1, 2], [9]])"
    "se_open ?senv toy_source = Opened \<lparr>pl_chunks = [[1, 2], [9]], pl_end = Evidence ''h''\<rparr>"
    "receiver_open ?renv" "2 = en_block_size ?renv (ext_get_size toy_model (oi_entry toy_source))"
    using sg nc ch by (simp_all add: receiver_open_def toy_env_def)
  have disk: "resting (dt_files (dc_task_new progress_new :: toy_entry dc_task))" "de_writer_open ?denv"
    "be_prepare_error (de_begin ?denv) = None"
    "be_basis (de_begin ?denv) = BasisFound (of_nat (length (concat [[1, 2, 3 :: u8]])))"
    "reads_basis (concat [[1, 2, 3]]) (de_read ?denv)" "validate_relative_path (path_of toy_model (oi_entry toy_source))"
    "item_get_size toy_model \<lparr>oi_entry = oi_entry toy_source, oi_version_index = None\<rparr> = of_nat (length (concat [[1, 2], [9 :: u8]]))"
    using reads by (simp_all add: resting_def dc_task_new_def active_of_def toy_dc_env_def toy_source_def toy_model_def
        validate_relative_path_def item_get_size_def view_get_size_def item_view_def view_version_def unwrap_or_default_def)
  from delta_transfer_delivers [OF env(1) _ env(2-4) toy_ready env(5) _ env(6) run disk, of True "\<lambda>_. ''h''"]
  have "fl = Continue" "\<exists>af :: toy_entry active_file. sent_bytes (af_sent af) = [1, 2, 9]" by auto
  with run show ?thesis by (auto simp: Let_def)
qed

end
