(* ===== verification/ScanRows.thy ===== *)
theory ScanRows
  imports Observation
begin

section \<open>Rows of the scan catalogue (crates/db/src/schema, scan/rows.rs, scan/candidate_cache.rs)\<close>

text \<open>
  The light query row of an entry, its projection from an observation, the persistent
  identity that links an entry across scans, and the digest by which a cached candidate row
  is compared with the current catalogue. An \<open>i64\<close> is a 64-bit word read with sign.
  What the rows take from the crate data-mover-model beside the accessors of
  \<open>data_model\<close> - the kind of backend and the identity of an object - is a record of
  functions, as are BLAKE3 (to its hexadecimal text) and the JSON text of a list of tags.
\<close>

type_synonym i64 = "64 word"

datatype backend_kind = Local | Nfs | Cifs | S3 | Hdfs

record 'e scan_facts =
  sf_backend :: "'e \<Rightarrow> backend_kind"
  sf_stable_bytes :: "'e \<Rightarrow> bytes option"
  sf_identity_key :: "'e \<Rightarrow> bytes"
  sf_hash :: "bytes \<Rightarrow> string"
  sf_tags_json :: "(string \<times> string) list \<Rightarrow> string"

record entry_summary =
  es_name :: string
  es_relative_path :: string
  es_size :: u64
  es_ext :: "string option"
  es_ctime :: i64
  es_mtime :: i64
  es_atime :: i64
  es_mode :: "u32 option"
  es_storage_type :: string
  es_is_symlink :: bool
  es_is_dir :: bool
  es_is_regular_file :: bool
  es_hard_links :: u32
  es_current_state :: u8
  es_uid :: "u32 option"
  es_gid :: "u32 option"
  es_ino :: "u64 option"
  es_file_handle :: "string option"
  es_version_id :: string
  es_tags :: "string option"
  es_marker_state :: "string option"

type_synonym path_key = "string \<times> string"

definition row_key :: "entry_summary \<Rightarrow> path_key" where
  "row_key row = (es_relative_path row, es_version_id row)"

subsection \<open>Bytes of strings and integers\<close>

definition str_bytes :: "string \<Rightarrow> bytes" where
  "str_bytes s = map of_char s"

definition le_bytes :: "nat \<Rightarrow> 'a::len word \<Rightarrow> bytes" where
  "le_bytes n w = map (\<lambda>i. ucast (drop_bit (8 * i) w)) [0..<n]"

lemma length_le_bytes [simp]: "length (le_bytes n w) = n"
  by (simp add: le_bytes_def)

lemma le_bytes_inj:
  fixes v w :: "'a::len word"
  assumes "le_bytes n v = le_bytes n w" "LENGTH('a) \<le> 8 * n"
  shows "v = w"
proof (rule bit_word_eqI)
  fix k assume k: "k < LENGTH('a)"
  then have i: "k div 8 < n" using assms(2) by auto
  have "(ucast (drop_bit (8 * (k div 8)) v) :: u8) = ucast (drop_bit (8 * (k div 8)) w)"
    using arg_cong [OF assms(1), of "\<lambda>xs. xs ! (k div 8)"] i by (simp add: le_bytes_def)
  then have "bit (ucast (drop_bit (8 * (k div 8)) v) :: u8) (k mod 8)
      = bit (ucast (drop_bit (8 * (k div 8)) w) :: u8) (k mod 8)" by simp
  then show "bit v k = bit w k" by (simp add: bit_ucast_iff bit_drop_bit_eq)
qed

lemma str_bytes_inj: "str_bytes s = str_bytes t \<longleftrightarrow> s = t"
proof -
  have "inj (of_char :: char \<Rightarrow> u8)"
  proof (rule injI)
    fix c d assume "(of_char c :: u8) = of_char d"
    then have "(word_of_nat (of_char c) :: u8) = word_of_nat (of_char d)" by (simp only: of_nat_of_char)
    from arg_cong [OF this, of unat] have "(of_char c :: nat) mod 2 ^ 8 = of_char d mod 2 ^ 8"
      by (simp only: unat_of_nat) simp
    then have "(of_char c :: nat) = of_char d" by simp
    then show "c = d" by simp
  qed
  then show ?thesis by (simp add: str_bytes_def inj_map_eq_map)
qed

lemma length_str_bytes [simp]: "length (str_bytes s) = length s"
  by (simp add: str_bytes_def)

subsection \<open>The identity that survives a scan (schema/identity.rs)\<close>

definition PERSISTED_IDENTITY_PREFIX :: string where
  "PERSISTED_IDENTITY_PREFIX = ''54534934''"

definition has_cross_scan_identity :: "'e scan_facts \<Rightarrow> 'e \<Rightarrow> bool" where
  "has_cross_scan_identity sf e \<longleftrightarrow> sf_backend sf e \<noteq> Local \<and> sf_stable_bytes sf e \<noteq> None"

definition hex_byte :: "u8 \<Rightarrow> string" where
  "hex_byte b = [''0123456789abcdef'' ! unat (drop_bit 4 b), ''0123456789abcdef'' ! unat (take_bit 4 b)]"

definition encoded_file_handle :: "'e scan_facts \<Rightarrow> 'e \<Rightarrow> string option" where
  "encoded_file_handle sf e =
     (if has_cross_scan_identity sf e
      then Some (PERSISTED_IDENTITY_PREFIX @ concat (map hex_byte (sf_identity_key sf e))) else None)"

subsection \<open>Projection of an observation (scan/rows.rs)\<close>

text \<open>
  \<open>std::path\<close>: the last component that is neither empty nor \<open>.\<close>, unless it is \<open>..\<close>; its
  extension is what follows its last dot, if the dot is not its first character.
\<close>

fun split_on :: "char \<Rightarrow> string \<Rightarrow> string list" where
  "split_on c [] = [[]]"
| "split_on c (x # xs) =
     (if x = c then [] # split_on c xs else (case split_on c xs of [] \<Rightarrow> [[x]] | p # ps \<Rightarrow> (x # p) # ps))"

definition path_file_name :: "string \<Rightarrow> string option" where
  "path_file_name path =
     (case rev (filter (\<lambda>p. p \<noteq> [] \<and> p \<noteq> ''.'') (split_on (CHR ''/'') path)) of
        [] \<Rightarrow> None | p # _ \<Rightarrow> if p = ''..'' then None else Some p)"

definition path_extension :: "string \<Rightarrow> string option" where
  "path_extension path =
     (case path_file_name path of
        None \<Rightarrow> None
      | Some name \<Rightarrow>
          (case rev (split_on (CHR ''.'') name) of
             ext # before # rest \<Rightarrow> if rest = [] \<and> before = [] then None else Some ext
           | _ \<Rightarrow> None))"

definition directory_marker_state :: "('e, 'v, 'm) data_model \<Rightarrow> 'e scan_facts \<Rightarrow> 'e \<Rightarrow> string option" where
  "directory_marker_state dm sf e =
     (case marker_object_of dm e of
        None \<Rightarrow> None
      | Some marker \<Rightarrow>
          Some (sf_hash sf
            (sf_identity_key sf marker
             @ le_bytes 16 (word_of_int (case modified_of dm marker of Some t \<Rightarrow> t | None \<Rightarrow> 0) :: 128 word)
             @ (case m_tags dm (metadata_of dm marker) of
                  None \<Rightarrow> []
                | Some tags \<Rightarrow> 1 # concat (map (\<lambda>(k, v).
                    le_bytes 8 (of_nat (length k) :: u64) @ str_bytes k
                    @ le_bytes 8 (of_nat (length v) :: u64) @ str_bytes v) tags)))))"

definition capture_summary ::
  "('e, 'v, 'm) data_model \<Rightarrow> 'e scan_facts \<Rightarrow> 'e observed_view \<Rightarrow> u8 \<Rightarrow> entry_summary" where
  "capture_summary dm sf v generation =
     (let e = ov_entry v; path = path_of dm e; meta = view_metadata dm v
      in \<lparr>es_name = (case path_file_name path of Some n \<Rightarrow> n | None \<Rightarrow> []),
          es_relative_path = view_path_key dm v,
          es_size = view_get_size dm v,
          es_ext = path_extension path,
          es_ctime = word_of_int (timestamp_nanos (m_created dm meta)),
          es_mtime = word_of_int (view_get_mtime dm v),
          es_atime = word_of_int (timestamp_nanos (m_accessed dm meta)),
          es_mode = view_mode dm v,
          es_storage_type = (case sf_backend sf e of S3 \<Rightarrow> ''s3'' | Hdfs \<Rightarrow> ''hdfs'' | _ \<Rightarrow> ''nas''),
          es_is_symlink = view_get_is_symlink dm v,
          es_is_dir = view_get_is_dir dm v,
          es_is_regular_file = (kind_of dm e = File),
          es_hard_links = 1,
          es_current_state = generation,
          es_uid = view_uid dm v,
          es_gid = view_gid dm v,
          es_ino = None,
          es_file_handle = encoded_file_handle sf e,
          es_version_id = view_version_id dm v,
          es_tags = map_option (sf_tags_json sf) (m_tags dm meta),
          es_marker_state = directory_marker_state dm sf e\<rparr>)"

text \<open>The key row a batch stages for the comparison.\<close>

record scan_key =
  nk_relative_path :: string
  nk_version_id :: string
  nk_file_handle :: "string option"

definition capture_key :: "('e, 'v, 'm) data_model \<Rightarrow> 'e scan_facts \<Rightarrow> 'e observed_view \<Rightarrow> scan_key" where
  "capture_key dm sf v = \<lparr>nk_relative_path = view_path_key dm v, nk_version_id = view_version_id dm v,
     nk_file_handle = encoded_file_handle sf (ov_entry v)\<rparr>"

text \<open>Event rows: a summary under an operation name, with the source path of a rename as comment.\<close>

record event_row =
  ev_operation :: string
  ev_entry :: entry_summary
  ev_comment :: "string option"
  ev_create_at :: i64

definition incremental_record :: "entry_summary \<Rightarrow> string \<Rightarrow> string option \<Rightarrow> i64 \<Rightarrow> event_row" where
  "incremental_record row operation comment time =
     \<lparr>ev_operation = operation, ev_entry = row, ev_comment = comment, ev_create_at = time\<rparr>"

definition event_record ::
  "('e, 'v, 'm) data_model \<Rightarrow> 'e scan_facts \<Rightarrow> 'e scan_event \<Rightarrow> i64 \<Rightarrow> event_row" where
  "event_record dm sf ev time =
     incremental_record (capture_summary dm sf (item_view (event_item ev)) 0) (event_operation ev)
       (case ev of EvRenamed from _ \<Rightarrow> Some (view_path_key dm (item_view from)) | _ \<Rightarrow> None) time"

subsection \<open>The metadata digest (scan/candidate_cache.rs)\<close>

definition hash_str :: "string \<Rightarrow> bytes" where
  "hash_str s = le_bytes 8 (of_nat (length s) :: u64) @ str_bytes s"

definition hash_bool :: "bool \<Rightarrow> bytes" where
  "hash_bool b = [if b then 1 else 0]"

definition hash_option :: "('a \<Rightarrow> bytes) \<Rightarrow> 'a option \<Rightarrow> bytes" where
  "hash_option f x = hash_bool (x \<noteq> None) @ (case x of None \<Rightarrow> [] | Some v \<Rightarrow> f v)"

definition hash_u32 :: "u32 \<Rightarrow> bytes" where
  "hash_u32 w = le_bytes 4 w"

definition hash_u64 :: "u64 \<Rightarrow> bytes" where
  "hash_u64 w = le_bytes 8 w"

definition metadata_bytes :: "entry_summary \<Rightarrow> bytes" where
  "metadata_bytes row =
     str_bytes (''terrasync scan event metadata v1'' @ [CHR 0x00])
     @ hash_str (es_name row) @ hash_str (es_relative_path row) @ hash_u64 (es_size row)
     @ hash_option hash_str (es_ext row) @ hash_u64 (es_ctime row) @ hash_u64 (es_mtime row)
     @ hash_u64 (es_atime row) @ hash_option hash_u32 (es_mode row) @ hash_str (es_storage_type row)
     @ hash_bool (es_is_symlink row) @ hash_bool (es_is_dir row) @ hash_bool (es_is_regular_file row)
     @ hash_u32 (es_hard_links row) @ hash_option hash_u32 (es_uid row) @ hash_option hash_u32 (es_gid row)
     @ hash_option hash_u64 (es_ino row) @ hash_option hash_str (es_file_handle row) @ hash_str (es_version_id row)
     @ hash_option hash_str (es_tags row) @ hash_option hash_str (es_marker_state row)"

definition scan_metadata_hash :: "(bytes \<Rightarrow> string) \<Rightarrow> entry_summary \<Rightarrow> string" where
  "scan_metadata_hash hash row = hash (metadata_bytes row)"

text \<open>Only the keys of candidate events get a digest in the catalogue.\<close>

definition candidate_metadata_cache :: "('e, 'v, 'm) data_model \<Rightarrow> 'e scan_event list \<Rightarrow> path_key set" where
  "candidate_metadata_cache dm events =
     {(view_path_key dm (item_view item), view_version_id dm (item_view item)) | item. EvCandidate item \<in> set events}"

definition cache_apply :: "(bytes \<Rightarrow> string) \<Rightarrow> path_key set \<Rightarrow> entry_summary \<Rightarrow> string option" where
  "cache_apply hash cache row = (if row_key row \<in> cache then Some (scan_metadata_hash hash row) else None)"

text \<open>
  Every field is written so that its end can be found without looking at what follows: that
  is what makes the concatenation unambiguous.
\<close>

locale field_code =
  fixes enc :: "'a \<Rightarrow> bytes" and ok :: "'a \<Rightarrow> bool"
  assumes decodes: "ok x \<Longrightarrow> ok y \<Longrightarrow> enc x @ s = enc y @ t \<Longrightarrow> x = y \<and> s = t"
begin

lemma append_iff: "ok x \<Longrightarrow> ok y \<Longrightarrow> enc x @ s = enc y @ t \<longleftrightarrow> x = y \<and> s = t"
  using decodes by blast

lemma last_iff: "ok x \<Longrightarrow> ok y \<Longrightarrow> enc x = enc y \<longleftrightarrow> x = y"
  using append_iff [of x y "[]" "[]"] by simp

lemma option_decodes:
  assumes "pred_option ok x" "pred_option ok y" "hash_option enc x @ s = hash_option enc y @ t"
  shows "x = y \<and> s = t"
  using assms by (cases x; cases y) (auto simp: hash_option_def hash_bool_def dest: decodes)

end

interpretation str_code: field_code hash_str "\<lambda>s. length s < 2 ^ 64"
proof
  fix x y :: string and s t
  assume len: "length x < 2 ^ 64" "length y < 2 ^ 64" and eq: "hash_str x @ s = hash_str y @ t"
  then have "le_bytes 8 (of_nat (length x) :: u64) = le_bytes 8 (of_nat (length y) :: u64)"
    and rest: "str_bytes x @ s = str_bytes y @ t" by (auto simp: hash_str_def)
  then have "(of_nat (length x) :: u64) = of_nat (length y)" by (intro le_bytes_inj) auto
  from arg_cong [OF this, of unat] len have "length x = length y" by (simp add: unat_of_nat)
  with rest show "x = y \<and> s = t" by (simp add: str_bytes_inj)
qed

interpretation u32_code: field_code hash_u32 "\<lambda>_. True"
  by unfold_locales (auto simp: hash_u32_def dest: le_bytes_inj)

interpretation u64_code: field_code hash_u64 "\<lambda>_. True"
  by unfold_locales (auto simp: hash_u64_def dest: le_bytes_inj)

interpretation bool_code: field_code hash_bool "\<lambda>_. True"
  by unfold_locales (auto simp: hash_bool_def split: if_splits)

interpretation opt_str_code: field_code "hash_option hash_str" "pred_option (\<lambda>s. length s < 2 ^ 64)"
  by unfold_locales (rule str_code.option_decodes)

interpretation opt_u32_code: field_code "hash_option hash_u32" "\<lambda>_. True"
  by unfold_locales (rule u32_code.option_decodes, auto simp: pred_option_def)

interpretation opt_u64_code: field_code "hash_option hash_u64" "\<lambda>_. True"
  by unfold_locales (rule u64_code.option_decodes, auto simp: pred_option_def)

lemmas field_codes = str_code.append_iff u32_code.append_iff u64_code.append_iff bool_code.append_iff
  opt_str_code.append_iff opt_u32_code.append_iff opt_u64_code.append_iff opt_str_code.last_iff

text \<open>A Rust \<open>String\<close> is never longer than \<open>isize::MAX\<close> bytes.\<close>

definition strings_fit :: "entry_summary \<Rightarrow> bool" where
  "strings_fit row \<longleftrightarrow> length (es_name row) < 2 ^ 64 \<and> length (es_relative_path row) < 2 ^ 64 \<and>
     pred_option (\<lambda>s. length s < 2 ^ 64) (es_ext row) \<and> length (es_storage_type row) < 2 ^ 64 \<and>
     pred_option (\<lambda>s. length s < 2 ^ 64) (es_file_handle row) \<and> length (es_version_id row) < 2 ^ 64 \<and>
     pred_option (\<lambda>s. length s < 2 ^ 64) (es_tags row) \<and> pred_option (\<lambda>s. length s < 2 ^ 64) (es_marker_state row)"

lemma metadata_bytes_inj:
  assumes "strings_fit a" "strings_fit b" "metadata_bytes a = metadata_bytes b"
  shows "a\<lparr>es_current_state := c\<rparr> = b\<lparr>es_current_state := c\<rparr>"
  using assms unfolding strings_fit_def metadata_bytes_def
  by (cases a; cases b) (simp add: field_codes)

lemma metadata_bytes_state [simp]: "metadata_bytes (row\<lparr>es_current_state := c\<rparr>) = metadata_bytes row"
  by (simp add: metadata_bytes_def)

text \<open>
  C33. The metadata digest identifies a row up to its scan generation: as long as the hash
  does not collide on the two encodings, two rows have the same digest exactly if they agree
  in every column but \<open>current_state\<close>, absent values and field boundaries included.
\<close>

theorem metadata_digest_identifies:
  assumes "strings_fit a" "strings_fit b"
    "hash (metadata_bytes a) = hash (metadata_bytes b) \<Longrightarrow> metadata_bytes a = metadata_bytes b"
  shows "scan_metadata_hash hash a = scan_metadata_hash hash b
    \<longleftrightarrow> a\<lparr>es_current_state := 0\<rparr> = b\<lparr>es_current_state := 0\<rparr>"
proof
  assume "scan_metadata_hash hash a = scan_metadata_hash hash b"
  with assms show "a\<lparr>es_current_state := 0\<rparr> = b\<lparr>es_current_state := 0\<rparr>"
    by (auto simp: scan_metadata_hash_def intro: metadata_bytes_inj)
next
  assume "a\<lparr>es_current_state := 0\<rparr> = b\<lparr>es_current_state := 0\<rparr>"
  from arg_cong [OF this, of metadata_bytes] show "scan_metadata_hash hash a = scan_metadata_hash hash b"
    by (simp add: scan_metadata_hash_def)
qed

text \<open>Rows for the witnesses.\<close>

definition toy_row :: "string \<Rightarrow> string option \<Rightarrow> entry_summary" where
  "toy_row path handle = \<lparr>es_name = path, es_relative_path = path, es_size = 17, es_ext = None, es_ctime = 0,
     es_mtime = 0, es_atime = 0, es_mode = None, es_storage_type = ''nas'', es_is_symlink = False, es_is_dir = False,
     es_is_regular_file = True, es_hard_links = 1, es_current_state = 0, es_uid = None, es_gid = None, es_ino = None,
     es_file_handle = handle, es_version_id = '''', es_tags = None, es_marker_state = None\<rparr>"

definition text_hash :: "bytes \<Rightarrow> string" where
  "text_hash b = map (\<lambda>x. char_of (unat x)) b"

lemma text_hash_eq: "text_hash x = text_hash y \<longleftrightarrow> x = y"
proof -
  have "inj (\<lambda>x :: u8. (char_of (unat x) :: char))"
    by (rule injI, drule arg_cong [of _ _ "of_char :: char \<Rightarrow> nat"]) (use unat_byte_less in \<open>simp add: word_unat_eq_iff\<close>)
  then show ?thesis by (simp add: text_hash_def inj_map_eq_map)
qed

lemma metadata_digest_identifies_witness:
  "scan_metadata_hash text_hash ((toy_row ''a'' None)\<lparr>es_current_state := 1\<rparr>) = scan_metadata_hash text_hash (toy_row ''a'' None) \<and>
   scan_metadata_hash text_hash ((toy_row ''a'' None)\<lparr>es_tags := Some ''''\<rparr>) \<noteq> scan_metadata_hash text_hash (toy_row ''a'' None)"
proof -

  let ?a = "toy_row ''a'' None"
  have fit: "strings_fit ?a" "strings_fit (?a\<lparr>es_current_state := 1\<rparr>)" "strings_fit (?a\<lparr>es_tags := Some ''''\<rparr>)"
    by (simp_all add: strings_fit_def toy_row_def)
  from metadata_digest_identifies [OF fit(2,1), of text_hash] metadata_digest_identifies [OF fit(3,1), of text_hash]
  show ?thesis by (simp only: text_hash_eq) (simp add: toy_row_def)
qed

end
