(* ===== verification/ScanCompare.thy ===== *)
theory ScanCompare
  imports ScanRows "HOL-Library.List_Lexorder" "HOL-Library.Char_ord" "HOL-Library.Multiset"
begin

section \<open>Comparing a scanned batch with the catalogue (crates/db/src/scan/compare.rs)\<close>

text \<open>
  A batch of observations is compared with the baseline rows of its keys. A key the first
  answer lacks is looked up again before it counts as new, in groups of keys that fit one
  query. The answers of the database are fields of a record, one record for each moment at
  which the code asks: what an earlier answer lacked a later one may contain.
\<close>

subsection \<open>Baselines\<close>

record baseline =
  bl_marker_state :: "string option"
  bl_relative_path :: string
  bl_version_id :: string
  bl_size :: u64
  bl_mtime :: i64
  bl_mode :: "u32 option"
  bl_uid :: "u32 option"
  bl_gid :: "u32 option"
  bl_is_dir :: bool
  bl_identity_changed :: bool
  bl_previous_generation :: bool



definition baseline_change ::
  "('e, 'v, 'm) data_model \<Rightarrow> 'e scan_facts \<Rightarrow> baseline \<Rightarrow> 'e observed_item \<Rightarrow> change_kind option" where
  "baseline_change dm sf b item =
     (if bl_is_dir b
      then (let marker = directory_marker_state dm sf (oi_entry item)
            in if bl_marker_state b \<noteq> None \<and> marker = None then Some DirectoryMarkerRemoved
               else if bl_marker_state b \<noteq> marker then Some DataOnly else None)
      else (let v = item_view item;
                data = bl_size b \<noteq> view_get_size dm v \<or> bl_mtime b \<noteq> word_of_int (view_get_mtime dm v);
                meta = bl_mode b \<noteq> view_mode dm v \<or> bl_uid b \<noteq> view_uid dm v \<or> bl_gid b \<noteq> view_gid dm v
            in case (data, meta) of
                 (True, True) \<Rightarrow> Some Both
               | (True, False) \<Rightarrow> Some DataOnly
               | (False, True) \<Rightarrow> Some MetadataOnlyChange
               | (False, False) \<Rightarrow> None))"


subsection \<open>Queries\<close>

record scan_queries =
  sq_baselines :: "string \<Rightarrow> string \<Rightarrow> bool \<Rightarrow> string + baseline list"
  sq_keys :: "path_key list \<Rightarrow> bool \<Rightarrow> string + baseline list"
  sq_displaced :: "string \<Rightarrow> string \<Rightarrow> string + entry_summary list"

definition SPARSE_KEY_BYTES :: nat where
  "SPARSE_KEY_BYTES = 16384"

text \<open>
  \<open>key_len\<close> is the length of a key as the client encodes it. The lengths of encodings that
  exist in memory cannot overflow a \<open>usize\<close>, so they are naturals.
\<close>

function group_loop :: "(path_key \<Rightarrow> nat) \<Rightarrow> path_key list \<Rightarrow> nat \<Rightarrow> nat \<Rightarrow> nat \<Rightarrow> nat" where
  "group_loop key_len keys start end bytes =
     (if end < length keys
      then (let next = key_len (keys ! end) + (if end > start then 1 else 0)
            in if bytes + next > SPARSE_KEY_BYTES then end
               else group_loop key_len keys start (end + 1) (bytes + next))
      else end)"
  by pat_completeness auto
termination
  by (relation "measure (\<lambda>(key_len, keys, start, end, bytes). length keys - end)") auto

declare group_loop.simps [simp del]

definition sparse_key_group_end :: "(path_key \<Rightarrow> nat) \<Rightarrow> path_key list \<Rightarrow> nat \<Rightarrow> nat" where
  "sparse_key_group_end key_len keys start = group_loop key_len keys start start 2"

lemma group_loop_done [simp]: "\<not> end < length keys \<Longrightarrow> group_loop f keys start end bytes = end"
  by (simp add: group_loop.simps)

lemma group_loop_bounds:
  "end \<le> length keys \<Longrightarrow> end \<le> group_loop f keys start end bytes \<and> group_loop f keys start end bytes \<le> length keys"
proof (induction f keys start "end" bytes rule: group_loop.induct)
  case (1 f keys start "end" bytes)
  then show ?case by (subst (1 2) group_loop.simps) (auto simp: Let_def)
qed

lemma group_end_bounds:
  "start \<le> length keys \<Longrightarrow>
    start \<le> sparse_key_group_end f keys start \<and> sparse_key_group_end f keys start \<le> length keys"
  unfolding sparse_key_group_end_def by (rule group_loop_bounds)

text \<open>
  The loop over the groups of keys. A key too long for any group makes the loop fall back to
  the staged comparison.
\<close>

function confirm_loop ::
  "(path_key \<Rightarrow> nat) \<Rightarrow> scan_queries \<Rightarrow> path_key list \<Rightarrow> string \<Rightarrow> string \<Rightarrow> bool \<Rightarrow> nat \<Rightarrow> baseline list \<Rightarrow>
    string + baseline list" where
  "confirm_loop key_len db keys lo hi by_handle start rows =
     (if start < length keys
      then (let end = sparse_key_group_end key_len keys start
            in if end = start then sq_baselines db lo hi by_handle
               else (case sq_keys db (take (end - start) (drop start keys)) by_handle of
                       Inl e \<Rightarrow> Inl e
                     | Inr found \<Rightarrow> confirm_loop key_len db keys lo hi by_handle end (rows @ found)))
      else Inr rows)"
  by pat_completeness auto
termination
proof (relation "measure (\<lambda>(key_len, db, keys, lo, hi, by_handle, start, rows). length keys - start)", goal_cases)
  case (2 key_len db keys lo hi by_handle start rows "end" found)
  then show ?case using group_end_bounds [of start keys key_len] by auto
qed auto

declare confirm_loop.simps [simp del]

lemma confirm_loop_done [simp]:
  "\<not> start < length keys \<Longrightarrow> confirm_loop f db keys lo hi by_handle start rows = Inr rows"
  by (simp add: confirm_loop.simps)


subsection \<open>The comparison\<close>



definition changed_events ::
  "('e, 'v, 'm) data_model \<Rightarrow> 'e scan_facts \<Rightarrow> baseline \<Rightarrow> 'e observed_item \<Rightarrow> 'e scan_event list" where
  "changed_events dm sf old item =
     (case baseline_change dm sf old item of Some kind \<Rightarrow> [EvChanged item kind] | None \<Rightarrow> [])"







subsection \<open>Groups of keys\<close>

definition encoded_length :: "(path_key \<Rightarrow> nat) \<Rightarrow> path_key list \<Rightarrow> nat" where
  "encoded_length key_len ks = 2 + sum_list (map key_len ks) + (length ks - 1)"

lemma encoded_length_snoc:
  "encoded_length f (ks @ [k]) = encoded_length f ks + f k + (if ks = [] then 0 else 1)"
  by (cases ks) (auto simp: encoded_length_def)

abbreviation slice :: "nat \<Rightarrow> nat \<Rightarrow> 'a list \<Rightarrow> 'a list" where
  "slice i j xs \<equiv> take (j - i) (drop i xs)"

lemma slice_snoc: "i \<le> j \<Longrightarrow> j < length xs \<Longrightarrow> slice i (Suc j) xs = slice i j xs @ [xs ! j]"
  by (simp add: Suc_diff_le take_Suc_conv_app_nth)

lemma group_loop_fits:
  assumes "start \<le> end" "end \<le> length keys" "bytes = encoded_length f (slice start end keys)" "bytes \<le> SPARSE_KEY_BYTES"
    "stop = group_loop f keys start end bytes"
  shows "encoded_length f (slice start stop keys) \<le> SPARSE_KEY_BYTES \<and>
    (stop < length keys \<longrightarrow> SPARSE_KEY_BYTES < encoded_length f (slice start (Suc stop) keys))"
  using assms
proof (induction f keys start "end" bytes rule: group_loop.induct)
  case (1 f keys start "end" bytes)
  let ?next = "f (keys ! end) + (if end > start then 1 else 0)"
  show ?case
  proof (cases "end < length keys")
    case False
    with "1.prems" show ?thesis by simp
  next
    case True
    then have grow: "encoded_length f (slice start (Suc end) keys) = bytes + ?next"
      using "1.prems"(1,3) by (simp add: slice_snoc encoded_length_snoc)
    show ?thesis
    proof (cases "bytes + ?next > SPARSE_KEY_BYTES")
      case True
      with \<open>end < length keys\<close> "1.prems" grow show ?thesis
        by (simp add: group_loop.simps [of f keys start "end"])
    next
      case False
      with \<open>end < length keys\<close> have "stop = group_loop f keys start (end + 1) (bytes + ?next)"
        using "1.prems"(5) by (simp add: group_loop.simps [of f keys start "end"] Let_def)
      with False \<open>end < length keys\<close> "1.prems"(1) grow show ?thesis
        by (intro "1.IH") auto
    qed
  qed
qed

lemma group_end_fits:
  assumes "start \<le> length keys"
  shows "encoded_length f (slice start (sparse_key_group_end f keys start) keys) \<le> SPARSE_KEY_BYTES \<and>
    (sparse_key_group_end f keys start < length keys \<longrightarrow>
      SPARSE_KEY_BYTES < encoded_length f (slice start (Suc (sparse_key_group_end f keys start)) keys))"
  by (rule group_loop_fits [OF _ assms _ _ sparse_key_group_end_def])
    (simp_all add: encoded_length_def SPARSE_KEY_BYTES_def)

text \<open>The groups a confirmation asks for, as a list; none if a key fits no group.\<close>

function key_groups :: "(path_key \<Rightarrow> nat) \<Rightarrow> path_key list \<Rightarrow> nat \<Rightarrow> path_key list list option" where
  "key_groups key_len keys start =
     (if start < length keys
      then (let end = sparse_key_group_end key_len keys start
            in if end = start then None
               else map_option ((#) (slice start end keys)) (key_groups key_len keys end))
      else Some [])"
  by pat_completeness auto
termination
proof (relation "measure (\<lambda>(key_len, keys, start). length keys - start)", goal_cases)
  case (2 key_len keys start "end")
  then show ?case using group_end_bounds [of start keys key_len] by auto
qed auto

declare key_groups.simps [simp del]

fun ask_groups :: "scan_queries \<Rightarrow> bool \<Rightarrow> path_key list list \<Rightarrow> string + baseline list" where
  "ask_groups db by_handle [] = Inr []"
| "ask_groups db by_handle (g # gs) =
     (case sq_keys db g by_handle of
        Inl e \<Rightarrow> Inl e
      | Inr found \<Rightarrow> (case ask_groups db by_handle gs of Inl e \<Rightarrow> Inl e | Inr others \<Rightarrow> Inr (found @ others)))"

lemma key_groups_fit:
  assumes "key_groups f keys start = Some gs" "start \<le> length keys"
  shows "concat gs = drop start keys \<and> (\<forall>g \<in> set gs. g \<noteq> [] \<and> encoded_length f g \<le> SPARSE_KEY_BYTES)"
  using assms
proof (induction f keys start arbitrary: gs rule: key_groups.induct)
  case (1 f keys start)
  let ?halt = "sparse_key_group_end f keys start"
  show ?case
  proof (cases "start < length keys")
    case False
    with "1.prems" show ?thesis by (simp add: key_groups.simps [of f keys start])
  next
    case True
    with "1.prems" obtain hs where hs: "?halt \<noteq> start" "key_groups f keys ?halt = Some hs" "gs = slice start ?halt keys # hs"
      by (auto simp: key_groups.simps [of f keys start] Let_def split: if_splits)
    have bounds: "start < ?halt" "?halt \<le> length keys" using group_end_bounds [of start keys f] hs(1) True by auto
    have "concat hs = drop ?halt keys \<and> (\<forall>g \<in> set hs. g \<noteq> [] \<and> encoded_length f g \<le> SPARSE_KEY_BYTES)"
      using "1.IH" [OF True refl hs(1,2)] bounds by simp
    moreover have "slice start ?halt keys @ drop ?halt keys = drop start keys"
      using bounds by (metis append_take_drop_id drop_drop le_add_diff_inverse2 less_imp_le_nat)
    ultimately show ?thesis using hs(3) bounds group_end_fits [of start keys f] True by auto
  qed
qed

lemma key_groups_none:
  assumes "key_groups f keys start = None" "start \<le> length keys"
  shows "\<exists>k \<in> set keys. SPARSE_KEY_BYTES < 2 + f k"
  using assms
proof (induction f keys start rule: key_groups.induct)
  case (1 f keys start)
  let ?halt = "sparse_key_group_end f keys start"
  have True: "start < length keys" using "1.prems" by (simp add: key_groups.simps [of f keys start] split: if_splits)
  show ?case
  proof (cases "?halt = start")
    case True
    with \<open>start < length keys\<close> group_end_fits [of start keys f]
    have "SPARSE_KEY_BYTES < encoded_length f (slice start (Suc start) keys)" by simp
    then have "SPARSE_KEY_BYTES < 2 + f (keys ! start)"
      using \<open>start < length keys\<close> by (simp add: take_Suc_conv_app_nth encoded_length_def)
    with \<open>start < length keys\<close> show ?thesis by (intro bexI [of _ "keys ! start"]) auto
  next
    case False
    with "1.prems" True have "key_groups f keys ?halt = None"
      by (auto simp: key_groups.simps [of f keys start] Let_def)
    with False True "1.IH" group_end_bounds [of start keys f] show ?thesis by auto
  qed
qed

lemma confirm_loop_groups:
  assumes "key_groups f keys start = Some gs" "start \<le> length keys"
  shows "confirm_loop f db keys lo hi h start rows
    = (case ask_groups db h gs of Inl e \<Rightarrow> Inl e | Inr found \<Rightarrow> Inr (rows @ found))"
  using assms
proof (induction f keys start arbitrary: gs rows rule: key_groups.induct)
  case (1 f keys start)
  let ?halt = "sparse_key_group_end f keys start"
  show ?case
  proof (cases "start < length keys")
    case False
    with "1.prems" show ?thesis by (auto simp: key_groups.simps [of f keys start])
  next
    case True
    with "1.prems" obtain hs where hs: "?halt \<noteq> start" "key_groups f keys ?halt = Some hs" "gs = slice start ?halt keys # hs"
      by (auto simp: key_groups.simps [of f keys start] Let_def split: if_splits)
    have IH: "confirm_loop f db keys lo hi h ?halt rows'
        = (case ask_groups db h hs of Inl e \<Rightarrow> Inl e | Inr found \<Rightarrow> Inr (rows' @ found))" for rows'
      by (rule "1.IH" [OF True refl hs(1,2)]) (use group_end_bounds [of start keys f] True in simp)
    show ?thesis
      using True hs by (simp add: confirm_loop.simps [of f db keys lo hi h start] Let_def IH split: sum.split)
  qed
qed

text \<open>
  C34. Looking keys up again always ends, and if no single key is longer than a query may be,
  it asks for every missing key exactly once and in order, in non-empty groups whose encoding
  with its brackets and commas stays within the limit of 16384 bytes, and returns the rows of
  all groups.
\<close>

theorem confirmation_groups:
  shows "(\<forall>k \<in> set keys. 2 + key_len k \<le> SPARSE_KEY_BYTES) \<longrightarrow>
    (\<exists>gs. concat gs = keys \<and> (\<forall>g \<in> set gs. g \<noteq> [] \<and> encoded_length key_len g \<le> SPARSE_KEY_BYTES) \<and>
      confirm_loop key_len db keys lo hi by_handle 0 [] = ask_groups db by_handle gs)"
proof (intro impI, goal_cases)
  case 1
  then obtain gs where gs: "key_groups key_len keys 0 = Some gs"
    using key_groups_none [of key_len keys 0] by (cases "key_groups key_len keys 0") (auto simp: not_less)
  have "(case r of Inl e \<Rightarrow> Inl e | Inr found \<Rightarrow> Inr ([] @ found)) = r" for r :: "string + baseline list"
    by (cases r) auto
  with key_groups_fit [OF gs] confirm_loop_groups [OF gs, of db lo hi by_handle "[]"] show ?case by auto
qed

subsection \<open>The comparison against a lossy first answer\<close>























lemma changed_events_identity [simp]:
  "changed_events dm sf (old\<lparr>bl_identity_changed := c\<rparr>) item = changed_events dm sf old item"
  by (simp add: changed_events_def baseline_change_def Let_def)





subsection \<open>A batch whose first read comes back empty\<close>

definition toy_facts :: "toy_entry scan_facts" where
  "toy_facts = \<lparr>sf_backend = (\<lambda>_. Nfs), sf_stable_bytes = (\<lambda>e. Some (str_bytes (fst e))),
     sf_identity_key = (\<lambda>e. str_bytes (fst e)), sf_hash = text_hash, sf_tags_json = (\<lambda>_. ''[]'')\<rparr>"

definition toy_known :: toy_entry where
  "toy_known = (''a'', False, 1, 5)"

definition toy_added :: toy_entry where
  "toy_added = (''b'', False, 2, 6)"

definition toy_baseline :: baseline where
  "toy_baseline = \<lparr>bl_marker_state = None, bl_relative_path = ''a'', bl_version_id = '''', bl_size = 1, bl_mtime = 5,
     bl_mode = None, bl_uid = None, bl_gid = None, bl_is_dir = False, bl_identity_changed = False,
     bl_previous_generation = True\<rparr>"

definition toy_catalogue :: "bool \<Rightarrow> path_key \<Rightarrow> baseline option" where
  "toy_catalogue h k = (if k = (''a'', '''') then Some toy_baseline else None)"

definition toy_queries :: "nat \<Rightarrow> scan_queries" where
  "toy_queries n =
     (if n = 0 then \<lparr>sq_baselines = (\<lambda>_ _ _. Inr []), sq_keys = (\<lambda>_ _. Inr []), sq_displaced = (\<lambda>_ _. Inr [])\<rparr>
      else \<lparr>sq_baselines = (\<lambda>_ _ _. Inr [toy_baseline]),
            sq_keys = (\<lambda>ks _. Inr (if (''a'', '''') \<in> set ks then [toy_baseline] else [])),
            sq_displaced = (\<lambda>_ _. Inr [])\<rparr>)"

lemmas toy_scan_defs = toy_facts_def toy_known_def toy_added_def toy_baseline_def toy_catalogue_def toy_queries_def
  toy_model_def












lemma confirmation_groups_witness:
  "\<exists>gs. concat gs = [(''a'', ''''), (''b'', '''')] \<and>
    (\<forall>g \<in> set gs. g \<noteq> [] \<and> encoded_length (\<lambda>_. 9000) g \<le> SPARSE_KEY_BYTES) \<and>
    confirm_loop (\<lambda>_. 9000) (toy_queries 1) [(''a'', ''''), (''b'', '''')] ''a'' ''b'' True 0 [] = ask_groups (toy_queries 1) True gs"
  using confirmation_groups [of "[(''a'', ''''), (''b'', '''')]" "\<lambda>_. 9000"] by (simp add: SPARSE_KEY_BYTES_def)

end
