(* ===== verification/FinalEvents.thy ===== *)
theory FinalEvents
  imports ScanCompare "HOL-Library.Product_Lexorder"
begin

section \<open>The final events of a scan (crates/db/src/scan/compare.rs, scan/mod.rs, app/src/scan_resume.rs)\<close>

text \<open>
  After the last batch the round is finalised: entries of the previous generation that were
  not seen again are deleted or, if a new path carries their identity, renamed; candidates
  that are not the target of a rename are new. The decisions are logged as events, then the
  old rows are removed, in batches, and an interrupted finalisation starts over from what the
  log and the catalogue then say. The tables are modelled as what a query on them sees: the
  live rows of the job after deduplication (\<open>FINAL\<close>), and the events of the round.
\<close>

subsection \<open>Tables\<close>

record scan_row =
  sr_entry :: entry_summary
  sr_active :: bool
  sr_metadata_hash :: "string option"

record tables =
  tb_base :: "scan_row list"
  tb_events :: "event_row list"

datatype final_query = QOldProbe | QOld | QDisplaced | QCached | QReferences | QReread | QHistory | QCounts

datatype db_error = QueryFailed final_query | ConversionError string

definition ask :: "final_query set \<Rightarrow> final_query \<Rightarrow> 'a \<Rightarrow> db_error + 'a" where
  "ask fails q answer = (if q \<in> fails then Inl (QueryFailed q) else Inr answer)"

text \<open>\<open>LIMIT 1 BY\<close>: the first row of each key.\<close>

fun limit_1_by :: "('a \<Rightarrow> 'k) \<Rightarrow> 'a list \<Rightarrow> 'a list" where
  "limit_1_by f [] = []"
| "limit_1_by f (x # xs) = x # filter (\<lambda>y. f y \<noteq> f x) (limit_1_by f xs)"

definition event_key :: "event_row \<Rightarrow> string \<times> path_key" where
  "event_key ev = (ev_operation ev, row_key (ev_entry ev))"

subsection \<open>Final events (scan/mod.rs)\<close>

datatype final_event = Added entry_summary | DeletedRow entry_summary | Renamed string string entry_summary

fun final_item :: "final_event \<Rightarrow> entry_summary" where
  "final_item (Added row) = row"
| "final_item (DeletedRow row) = row"
| "final_item (Renamed from_path from_version to) = to"

fun final_operation :: "final_event \<Rightarrow> string" where
  "final_operation (Added row) = ''new''"
| "final_operation (DeletedRow row) = ''deleted''"
| "final_operation (Renamed from_path from_version to) = ''rename''"

fun previous_path :: "final_event \<Rightarrow> string option" where
  "previous_path (Renamed from_path from_version to) = Some from_path"
| "previous_path _ = None"

fun deletion_key :: "final_event \<Rightarrow> path_key option" where
  "deletion_key (Added row) = None"
| "deletion_key (DeletedRow row) = Some (row_key row)"
| "deletion_key (Renamed from_path from_version to) = Some (from_path, from_version)"

definition final_event_record :: "i64 \<Rightarrow> final_event \<Rightarrow> event_row" where
  "final_event_record time ev = incremental_record (final_item ev) (final_operation ev) (previous_path ev) time"

subsection \<open>Candidates and their cache\<close>

record candidate_reference =
  cr_key :: path_key
  cr_current_state :: u8
  cr_metadata_hash :: "string option"

fun verify_rows ::
  "(bytes \<Rightarrow> string) \<Rightarrow> (path_key \<Rightarrow> candidate_reference option) \<Rightarrow> entry_summary list \<Rightarrow> entry_summary list option" where
  "verify_rows hash current [] = Some []"
| "verify_rows hash current (row # rows) =
     (case current (row_key row) of
        None \<Rightarrow> None
      | Some reference \<Rightarrow>
          if cr_metadata_hash reference \<noteq> Some (scan_metadata_hash hash row) then None
          else map_option ((#) (row\<lparr>es_current_state := cr_current_state reference\<rparr>)) (verify_rows hash current rows))"

text \<open>The checkpoints for cancellation between the chunks only end the read and are left out.\<close>

definition verified_candidates ::
  "(bytes \<Rightarrow> string) \<Rightarrow> entry_summary list \<Rightarrow> candidate_reference list \<Rightarrow> entry_summary list option" where
  "verified_candidates hash cached references =
     (if card (row_key ` set cached) \<noteq> length cached \<or> length references \<noteq> length cached then None
      else let current = map_of (rev (map (\<lambda>r. (cr_key r, r)) references))
           in if card (cr_key ` set references) \<noteq> length cached then None else verify_rows hash current cached)"

definition active_rows :: "tables \<Rightarrow> scan_row list" where
  "active_rows tb = filter sr_active (tb_base tb)"

definition candidate_events :: "tables \<Rightarrow> event_row list" where
  "candidate_events tb = filter (\<lambda>ev. ev_operation ev = ''candidate_new'') (tb_events tb)"

definition candidate_keys :: "tables \<Rightarrow> path_key set" where
  "candidate_keys tb = set (map (\<lambda>ev. row_key (ev_entry ev)) (candidate_events tb))"

definition reread_candidates :: "tables \<Rightarrow> entry_summary list" where
  "reread_candidates tb =
     limit_1_by row_key (sort_key row_key
       (map sr_entry (filter (\<lambda>r. row_key (sr_entry r) \<in> candidate_keys tb) (active_rows tb))))"

definition candidate_rows :: "final_query set \<Rightarrow> (bytes \<Rightarrow> string) \<Rightarrow> tables \<Rightarrow> db_error + entry_summary list" where
  "candidate_rows fails hash tb =
     (case ask fails QCached (sort_key row_key (map ev_entry (candidate_events tb))) of
        Inl e \<Rightarrow> Inl e
      | Inr cached \<Rightarrow>
          if cached = [] then Inr []
          else (case ask fails QReferences
                  (map (\<lambda>r. \<lparr>cr_key = row_key (sr_entry r), cr_current_state = es_current_state (sr_entry r),
                             cr_metadata_hash = sr_metadata_hash r\<rparr>)
                    (filter (\<lambda>r. row_key (sr_entry r) \<in> candidate_keys tb) (active_rows tb))) of
                  Inl e \<Rightarrow> Inl e
                | Inr references \<Rightarrow>
                    (case verified_candidates hash cached references of
                       Some rows \<Rightarrow> Inr rows
                     | None \<Rightarrow> ask fails QReread (reread_candidates tb))))"

subsection \<open>Resolving the round\<close>

datatype decision = DAdded | DRenamed string string

record resolve_state =
  rs_originals :: "string \<Rightarrow> path_key list"
  rs_decisions :: "path_key \<Rightarrow> decision option"
  rs_renamed :: "path_key set"

definition add_original :: "string option \<Rightarrow> path_key \<Rightarrow> resolve_state \<Rightarrow> resolve_state" where
  "add_original handle key st =
     (case handle of
        None \<Rightarrow> st
      | Some h \<Rightarrow> st\<lparr>rs_originals := (rs_originals st)(h := List.insert key (rs_originals st h))\<rparr>)"

definition history_step :: "event_row \<Rightarrow> resolve_state \<Rightarrow> db_error + resolve_state" where
  "history_step ev st =
     (let row = ev_entry ev; key = row_key row
      in if ev_operation ev = ''new'' then Inr (st\<lparr>rs_decisions := (rs_decisions st)(key \<mapsto> DAdded)\<rparr>)
         else if ev_operation ev = ''deleted'' then Inr (add_original (es_file_handle row) key st)
         else if ev_operation ev = ''rename''
         then (case ev_comment ev of
                 None \<Rightarrow> Inl (ConversionError ''Recorded rename lacks source path'')
               | Some from_path \<Rightarrow>
                   (let from_key = (from_path, es_version_id row); st1 = add_original (es_file_handle row) from_key st
                    in Inr (st1\<lparr>rs_renamed := insert from_key (rs_renamed st1),
                                rs_decisions := (rs_decisions st1)(key \<mapsto> DRenamed from_path (es_version_id row))\<rparr>)))
         else Inr st)"

fun history_loop :: "event_row list \<Rightarrow> resolve_state \<Rightarrow> db_error + resolve_state" where
  "history_loop [] st = Inr st"
| "history_loop (ev # evs) st = (case history_step ev st of Inl e \<Rightarrow> Inl e | Inr st' \<Rightarrow> history_loop evs st')"

definition inferred_decision ::
  "(string \<Rightarrow> path_key list) \<Rightarrow> (string \<Rightarrow> nat option) \<Rightarrow> entry_summary \<Rightarrow> decision option" where
  "inferred_decision originals counts row =
     (case es_file_handle row of
        None \<Rightarrow> None
      | Some h \<Rightarrow>
          (case originals h of
             [(path, version)] \<Rightarrow> if counts h = Some 1 then Some (DRenamed path version) else None
           | _ \<Rightarrow> None))"

definition candidate_event :: "resolve_state \<Rightarrow> (string \<Rightarrow> nat option) \<Rightarrow> entry_summary \<Rightarrow> final_event" where
  "candidate_event st counts row =
     (case (case rs_decisions st (row_key row) of
              Some d \<Rightarrow> d
            | None \<Rightarrow> (case inferred_decision (rs_originals st) counts row of Some d \<Rightarrow> d | None \<Rightarrow> DAdded)) of
        DAdded \<Rightarrow> Added row
      | DRenamed from_path from_version \<Rightarrow> Renamed from_path from_version row)"

definition rename_sources :: "final_event list \<Rightarrow> path_key set" where
  "rename_sources evs = {(p, v). \<exists>to. Renamed p v to \<in> set evs}"

definition resolve_final_events ::
  "entry_summary list \<Rightarrow> entry_summary list \<Rightarrow> event_row list \<Rightarrow> (string \<Rightarrow> nat option) \<Rightarrow> db_error + final_event list" where
  "resolve_final_events old candidates history counts =
     (case history_loop history
        (fold (\<lambda>row. add_original (es_file_handle row) (row_key row)) old
          \<lparr>rs_originals = (\<lambda>_. []), rs_decisions = (\<lambda>_. None), rs_renamed = {}\<rparr>) of
        Inl e \<Rightarrow> Inl e
      | Inr st \<Rightarrow>
          (let events = map (candidate_event st counts) candidates;
               renamed = rs_renamed st \<union> rename_sources events
           in Inr (events @ map DeletedRow (filter (\<lambda>row. row_key row \<notin> renamed) old))))"

subsection \<open>Reading what the resolution needs\<close>

fun extend_unknown :: "(path_key \<times> string option) set \<Rightarrow> entry_summary list \<Rightarrow> entry_summary list" where
  "extend_unknown known [] = []"
| "extend_unknown known (row # rows) =
     (let k = (row_key row, es_file_handle row)
      in if k \<in> known then extend_unknown known rows else row # extend_unknown (insert k known) rows)"

definition old_rows :: "tables \<Rightarrow> entry_summary list" where
  "old_rows tb = limit_1_by row_key (sort_key row_key (map sr_entry (filter (\<lambda>r. \<not> sr_active r) (tb_base tb))))"

definition displaced_rows :: "tables \<Rightarrow> entry_summary list" where
  "displaced_rows tb = map ev_entry (filter (\<lambda>ev. ev_operation ev = ''displaced_old'') (tb_events tb))"

definition membership :: "tables \<Rightarrow> string set" where
  "membership tb = {h. \<exists>ev \<in> set (candidate_events tb). es_file_handle (ev_entry ev) = Some h}"

definition decided_in :: "string set \<Rightarrow> event_row \<Rightarrow> bool" where
  "decided_in handles ev \<longleftrightarrow> ev_operation ev \<in> {''new'', ''deleted'', ''rename''} \<and>
     (case es_file_handle (ev_entry ev) of Some h \<Rightarrow> h \<in> handles | None \<Rightarrow> False)"

definition history_filter :: "string set \<Rightarrow> bool \<Rightarrow> bool \<Rightarrow> (event_row \<Rightarrow> bool) option" where
  "history_filter handles typed_candidates old_is_empty =
     (case (typed_candidates, old_is_empty) of
        (True, True) \<Rightarrow> Some (decided_in handles)
      | (True, False) \<Rightarrow> Some (\<lambda>ev. decided_in handles ev \<or> ev_operation ev = ''rename'')
      | (False, False) \<Rightarrow> Some (\<lambda>ev. ev_operation ev = ''rename'')
      | (False, True) \<Rightarrow> None)"

definition alias_counts :: "tables \<Rightarrow> string \<Rightarrow> nat option" where
  "alias_counts tb h =
     (let n = length (filter (\<lambda>r. es_file_handle (sr_entry r) = Some h) (active_rows tb))
      in if h \<in> membership tb \<and> n > 0 then Some n else None)"

definition final_events :: "final_query set \<Rightarrow> (bytes \<Rightarrow> string) \<Rightarrow> tables \<Rightarrow> db_error + final_event list" where
  "final_events fails hash tb =
     (case ask fails QOldProbe (list_ex (\<lambda>r. \<not> sr_active r) (tb_base tb)) of
        Inl e \<Rightarrow> Inl e
      | Inr has_old \<Rightarrow>
     (case (if has_old then ask fails QOld (old_rows tb) else Inr []) of
        Inl e \<Rightarrow> Inl e
      | Inr base_old \<Rightarrow>
     (case ask fails QDisplaced (displaced_rows tb) of
        Inl e \<Rightarrow> Inl e
      | Inr displaced \<Rightarrow>
     (let old = base_old @ extend_unknown ((\<lambda>row. (row_key row, es_file_handle row)) ` set base_old) displaced
      in case candidate_rows fails hash tb of
        Inl e \<Rightarrow> Inl e
      | Inr candidates \<Rightarrow>
     (let typed_candidates = list_ex (\<lambda>row. es_file_handle row \<noteq> None) candidates
      in case (case history_filter (membership tb) typed_candidates (old = []) of
                 None \<Rightarrow> Inr []
               | Some P \<Rightarrow> ask fails QHistory (filter P (tb_events tb))) of
        Inl e \<Rightarrow> Inl e
      | Inr history \<Rightarrow>
     (let originals = {h. (\<exists>row \<in> set old. es_file_handle row = Some h) \<or>
            (\<exists>ev \<in> set history. ev_operation ev \<in> {''deleted'', ''rename''} \<and> es_file_handle (ev_entry ev) = Some h)};
          wanted = typed_candidates \<and>
            list_ex (\<lambda>row. case es_file_handle row of Some h \<Rightarrow> h \<in> originals | None \<Rightarrow> False) candidates
      in case (if wanted then ask fails QCounts (alias_counts tb) else Inr (\<lambda>_. None)) of
        Inl e \<Rightarrow> Inl e
      | Inr counts \<Rightarrow> resolve_final_events old candidates history counts))))))"

subsection \<open>Finalisation (app/src/scan_resume.rs)\<close>

text \<open>
  The event log keeps one row per operation, path and version, the last one written. A
  deletion removes rows of the previous generation only.
\<close>

definition write_event :: "event_row \<Rightarrow> event_row list \<Rightarrow> event_row list" where
  "write_event ev evs = filter (\<lambda>x. event_key x \<noteq> event_key ev) evs @ [ev]"

definition write_final_events :: "i64 \<Rightarrow> final_event list \<Rightarrow> tables \<Rightarrow> tables" where
  "write_final_events time evs tb = tb\<lparr>tb_events := fold write_event (map (final_event_record time) evs) (tb_events tb)\<rparr>"

definition delete_resume_entries :: "path_key list \<Rightarrow> tables \<Rightarrow> tables" where
  "delete_resume_entries keys tb =
     tb\<lparr>tb_base := filter (\<lambda>r. sr_active r \<or> row_key (sr_entry r) \<notin> set keys) (tb_base tb)\<rparr>"

definition temporary_event :: "event_row \<Rightarrow> bool" where
  "temporary_event ev \<longleftrightarrow> ev_operation ev \<in> {''candidate_new'', ''displaced_old''}"

definition cleanup_candidates :: "(event_row \<Rightarrow> bool) \<Rightarrow> tables \<Rightarrow> tables" where
  "cleanup_candidates kept tb = tb\<lparr>tb_events := filter (\<lambda>ev. \<not> temporary_event ev \<or> kept ev) (tb_events tb)\<rparr>"

text \<open>
  A run makes at most \<open>budget\<close> database changes before it is interrupted (\<open>None\<close>); what an
  interrupted cleanup has left is given by \<open>kept\<close>.
\<close>

definition flush_final_events :: "i64 \<Rightarrow> final_event list \<Rightarrow> nat \<Rightarrow> tables \<Rightarrow> tables \<times> nat option" where
  "flush_final_events time evs budget tb =
     (if budget = 0 then (tb, None)
      else let tb1 = write_final_events time evs tb
           in if budget = 1 then (tb1, None)
              else (delete_resume_entries (List.map_filter deletion_key evs) tb1, Some (budget - 2)))"

fun finalize_loop :: "i64 \<Rightarrow> nat \<Rightarrow> final_event list \<Rightarrow> final_event list \<Rightarrow> nat \<Rightarrow> tables \<Rightarrow> tables \<times> nat option" where
  "finalize_loop time batch_size pending [] budget tb = flush_final_events time pending budget tb"
| "finalize_loop time batch_size pending (ev # evs) budget tb =
     (let pending' = pending @ [ev]
      in if length pending' \<ge> batch_size
         then (case flush_final_events time pending' budget tb of
                 (tb', None) \<Rightarrow> (tb', None)
               | (tb', Some budget') \<Rightarrow> finalize_loop time batch_size [] evs budget' tb')
         else finalize_loop time batch_size pending' evs budget tb)"

definition finalize_events ::
  "final_query set \<Rightarrow> (bytes \<Rightarrow> string) \<Rightarrow> i64 \<Rightarrow> nat \<Rightarrow> nat \<Rightarrow> (event_row \<Rightarrow> bool) \<Rightarrow> tables \<Rightarrow> tables \<times> bool" where
  "finalize_events fails hash time batch_size budget kept tb =
     (case final_events fails hash tb of
        Inl e \<Rightarrow> (tb, False)
      | Inr evs \<Rightarrow>
          (case finalize_loop time batch_size [] evs budget tb of
             (tb', None) \<Rightarrow> (tb', False)
           | (tb', Some 0) \<Rightarrow> (cleanup_candidates kept tb', False)
           | (tb', Some (Suc _)) \<Rightarrow> (cleanup_candidates (\<lambda>_. False) tb', True)))"

end
