(* ===== verification/FinalProofs.thy ===== *)
theory FinalProofs
  imports FinalEvents
begin

section \<open>Finalisation: every row accounted for\<close>

text \<open>
  The resolution of a round in closed form, what a state of the tables satisfies, and the
  equivalence of the cached and the direct reading of candidates.
\<close>

subsection \<open>What the history says\<close>

definition source_key :: "event_row \<Rightarrow> path_key option" where
  "source_key ev =
     (if ev_operation ev = ''rename'' then map_option (\<lambda>p. (p, es_version_id (ev_entry ev))) (ev_comment ev) else None)"

definition original_key :: "event_row \<Rightarrow> path_key option" where
  "original_key ev = (if ev_operation ev = ''deleted'' then Some (row_key (ev_entry ev)) else source_key ev)"

definition decision_of :: "event_row \<Rightarrow> decision option" where
  "decision_of ev =
     (if ev_operation ev = ''new'' then Some DAdded
      else map_option (\<lambda>(p, v). DRenamed p v) (source_key ev))"

definition logged_originals :: "event_row list \<Rightarrow> string \<Rightarrow> path_key set" where
  "logged_originals hist h =
     {k. \<exists>ev \<in> set hist. es_file_handle (ev_entry ev) = Some h \<and> original_key ev = Some k}"

definition logged_sources :: "event_row list \<Rightarrow> path_key set" where
  "logged_sources hist = {k. \<exists>ev \<in> set hist. source_key ev = Some k}"

definition old_originals :: "entry_summary list \<Rightarrow> string \<Rightarrow> path_key set" where
  "old_originals old h = {row_key row | row. row \<in> set old \<and> es_file_handle row = Some h}"

fun logged_decision :: "event_row list \<Rightarrow> path_key \<Rightarrow> decision option" where
  "logged_decision [] k = None"
| "logged_decision (ev # evs) k =
     (case logged_decision evs k of
        Some d \<Rightarrow> Some d
      | None \<Rightarrow> if row_key (ev_entry ev) = k then decision_of ev else None)"

definition renames_sourced :: "event_row list \<Rightarrow> bool" where
  "renames_sourced hist \<longleftrightarrow> (\<forall>ev \<in> set hist. ev_operation ev = ''rename'' \<longrightarrow> ev_comment ev \<noteq> None)"

lemma originals_add [simp]:
  "set (rs_originals (add_original handle k st) h)
    = set (rs_originals st h) \<union> (if handle = Some h then {k} else {})"
  "distinct (rs_originals (add_original handle k st) h) \<longleftrightarrow> distinct (rs_originals st h)"
  "rs_decisions (add_original handle k st) = rs_decisions st"
  "rs_renamed (add_original handle k st) = rs_renamed st"
  by (auto simp: add_original_def distinct_insert split: option.split)

lemma history_step_effect:
  assumes "history_step ev st = Inr st'"
  shows "set (rs_originals st' h) = set (rs_originals st h) \<union> logged_originals [ev] h \<and>
    (distinct (rs_originals st' h) \<longleftrightarrow> distinct (rs_originals st h)) \<and>
    rs_decisions st' k = (case logged_decision [ev] k of Some d \<Rightarrow> Some d | None \<Rightarrow> rs_decisions st k) \<and>
    rs_renamed st' = rs_renamed st \<union> logged_sources [ev]"
  using assms
  by (auto simp: history_step_def Let_def logged_originals_def original_key_def source_key_def decision_of_def
      logged_sources_def split: if_splits option.splits)

lemma logged_originals_Cons: "logged_originals (ev # evs) h = logged_originals [ev] h \<union> logged_originals evs h"
  by (auto simp: logged_originals_def)

lemma logged_sources_Cons: "logged_sources (ev # evs) = logged_sources [ev] \<union> logged_sources evs"
  by (auto simp: logged_sources_def)

lemma history_loop_effect:
  assumes "history_loop hist st = Inr st'"
  shows "set (rs_originals st' h) = set (rs_originals st h) \<union> logged_originals hist h \<and>
    (distinct (rs_originals st' h) \<longleftrightarrow> distinct (rs_originals st h)) \<and>
    rs_decisions st' k = (case logged_decision hist k of Some d \<Rightarrow> Some d | None \<Rightarrow> rs_decisions st k) \<and>
    rs_renamed st' = rs_renamed st \<union> logged_sources hist"
  using assms
proof (induction hist arbitrary: st)
  case Nil
  then show ?case by (simp add: logged_originals_def logged_sources_def)
next
  case (Cons ev evs)
  then obtain st1 where st1: "history_step ev st = Inr st1" "history_loop evs st1 = Inr st'"
    by (auto split: sum.splits)
  from history_step_effect [OF st1(1), of h k] Cons.IH [OF st1(2)] show ?case
    by (auto simp: logged_originals_Cons [of ev evs] logged_sources_Cons [of ev evs] split: option.split)
qed

lemma history_loop_succeeds: "(\<exists>st'. history_loop hist st = Inr st') \<longleftrightarrow> renames_sourced hist"
proof (induction hist arbitrary: st)
  case (Cons ev evs)
  have "(\<exists>st1. history_step ev st = Inr st1) \<longleftrightarrow> (ev_operation ev = ''rename'' \<longrightarrow> ev_comment ev \<noteq> None)"
    by (auto simp: history_step_def Let_def split: option.split)
  then show ?case
    using Cons.IH by (cases "history_step ev st") (auto simp: renames_sourced_def)
qed (simp add: renames_sourced_def)

lemma fold_add_original:
  "set (rs_originals (fold (\<lambda>row. add_original (es_file_handle row) (row_key row)) old st) h)
      = set (rs_originals st h) \<union> old_originals old h"
  "distinct (rs_originals (fold (\<lambda>row. add_original (es_file_handle row) (row_key row)) old st) h)
      \<longleftrightarrow> distinct (rs_originals st h)"
  "rs_decisions (fold (\<lambda>row. add_original (es_file_handle row) (row_key row)) old st) = rs_decisions st"
  "rs_renamed (fold (\<lambda>row. add_original (es_file_handle row) (row_key row)) old st) = rs_renamed st"
  by (induction old arbitrary: st) (auto simp: old_originals_def)

lemma singleton_list: "distinct xs \<Longrightarrow> set xs = {x} \<longleftrightarrow> xs = [x]"
  by (cases xs; cases "tl xs") (auto simp: insert_absorb dest: equalityD1)

text \<open>The decision on a candidate, as a function of the three sets.\<close>

definition decide ::
  "(path_key \<Rightarrow> decision option) \<Rightarrow> (string \<Rightarrow> path_key set) \<Rightarrow> (string \<Rightarrow> nat option) \<Rightarrow> entry_summary \<Rightarrow> final_event" where
  "decide decisions originals counts row =
     (case decisions (row_key row) of
        Some DAdded \<Rightarrow> Added row
      | Some (DRenamed p v) \<Rightarrow> Renamed p v row
      | None \<Rightarrow>
          (case es_file_handle row of
             None \<Rightarrow> Added row
           | Some h \<Rightarrow>
               if is_singleton (originals h) \<and> counts h = Some 1
               then (case the_elem (originals h) of (p, v) \<Rightarrow> Renamed p v row) else Added row))"

lemma candidate_event_decide:
  assumes "\<And>h. distinct (rs_originals st h)"
  shows "candidate_event st counts row = decide (rs_decisions st) (\<lambda>h. set (rs_originals st h)) counts row"
proof -
  have "inferred_decision (rs_originals st) counts row =
      (case es_file_handle row of
         None \<Rightarrow> None
       | Some h \<Rightarrow> if is_singleton (set (rs_originals st h)) \<and> counts h = Some 1
           then (case the_elem (set (rs_originals st h)) of (p, v) \<Rightarrow> Some (DRenamed p v)) else None)"
  proof (cases "es_file_handle row")
    case (Some h)
    have single: "is_singleton (set (rs_originals st h)) \<longleftrightarrow> (\<exists>x. rs_originals st h = [x])"
      using singleton_list [OF assms] by (auto simp: is_singleton_def)
    show ?thesis
    proof (cases "rs_originals st h")
      case (Cons x xs)
      then show ?thesis using Some single by (cases x; cases xs) (auto simp: inferred_decision_def)
    qed (use Some single in \<open>auto simp: inferred_decision_def\<close>)
  qed (simp add: inferred_decision_def)
  then show ?thesis
    by (auto simp: candidate_event_def decide_def split: option.split decision.split prod.split)
qed

text \<open>Resolution in closed form.\<close>

lemma resolve_closed_form:
  assumes "renames_sourced hist"
    "evs = map (decide (logged_decision hist) (\<lambda>h. old_originals old h \<union> logged_originals hist h) counts) candidates"
  shows "resolve_final_events old candidates hist counts
    = Inr (evs @ map DeletedRow (filter (\<lambda>row. row_key row \<notin> logged_sources hist \<union> rename_sources evs) old))"
proof -
  let ?st0 = "fold (\<lambda>row. add_original (es_file_handle row) (row_key row)) old
    \<lparr>rs_originals = (\<lambda>_. []), rs_decisions = (\<lambda>_. None), rs_renamed = {}\<rparr>"
  from assms(1) history_loop_succeeds obtain st where st: "history_loop hist ?st0 = Inr st" by blast
  have sets: "set (rs_originals st h) = old_originals old h \<union> logged_originals hist h"
    "distinct (rs_originals st h)" "rs_decisions st k = logged_decision hist k" "rs_renamed st = logged_sources hist" for h k
    using history_loop_effect [OF st, of h k] by (simp_all add: fold_add_original split: option.splits)
  have "map (candidate_event st counts) candidates = evs"
    unfolding assms(2) by (intro map_cong refl, subst candidate_event_decide) (use sets in \<open>auto simp: decide_def\<close>)
  with st sets show ?thesis by (simp add: resolve_final_events_def Let_def)
qed

lemma resolve_error_iff: "(\<exists>evs. resolve_final_events old candidates hist counts = Inr evs) \<longleftrightarrow> renames_sourced hist"
  using history_loop_succeeds [of hist "fold (\<lambda>row. add_original (es_file_handle row) (row_key row)) old
      \<lparr>rs_originals = (\<lambda>_. []), rs_decisions = (\<lambda>_. None), rs_renamed = {}\<rparr>"]
  by (auto simp: resolve_final_events_def Let_def split: sum.splits)

lemma final_item_decide [simp]: "final_item (decide d orig c row) = row"
  by (auto simp: decide_def split: option.split decision.split prod.split)

lemma decide_not_deleted [simp]: "decide d orig c row \<noteq> DeletedRow r" "final_operation (decide d orig c row) \<noteq> ''deleted''"
  by (auto simp: decide_def split: option.split decision.split prod.split)

lemmas deleted_not_decide [simp] = decide_not_deleted(1) [symmetric]

lemma rename_sources_append [simp]: "rename_sources (evs @ map DeletedRow rows) = rename_sources evs"
  by (auto simp: rename_sources_def)

lemma decision_of_rename: "decision_of ev = Some (DRenamed p v) \<longleftrightarrow> source_key ev = Some (p, v)"
  by (auto simp: decision_of_def source_key_def)

lemma logged_decision_Some:
  "logged_decision hist k = Some d \<Longrightarrow> \<exists>ev \<in> set hist. row_key (ev_entry ev) = k \<and> decision_of ev = Some d"
  by (induction hist) (auto split: option.splits if_splits)

text \<open>
  C15. The final events account for every row. Each candidate gives exactly one event, in
  order; each old row is deleted unless it is the source of a rename, and never both; and a
  rename is not a guess: either the log already records it, or the object's identity occurs
  at exactly one old path, counting those the log says were removed, and at exactly one live
  path. The only error is a logged rename without its source.
\<close>

theorem final_events_account_for_rows:
  shows "(resolve_final_events old candidates hist counts = Inr evs \<longrightarrow>
      map final_item (filter (\<lambda>e. final_operation e \<noteq> ''deleted'') evs) = candidates \<and>
      (\<forall>row. DeletedRow row \<in> set evs \<longleftrightarrow> row \<in> set old \<and> row_key row \<notin> logged_sources hist \<union> rename_sources evs) \<and>
      (\<forall>p v to. Renamed p v to \<in> set evs \<longrightarrow>
        (\<exists>ev \<in> set hist. row_key (ev_entry ev) = row_key to \<and> source_key ev = Some (p, v)) \<or>
        (\<exists>h. es_file_handle to = Some h \<and> counts h = Some 1 \<and>
          old_originals old h \<union> logged_originals hist h = {(p, v)}))) \<and>
    ((\<exists>e. resolve_final_events old candidates hist counts = Inl e)
      \<longleftrightarrow> (\<exists>ev \<in> set hist. ev_operation ev = ''rename'' \<and> ev_comment ev = None))"
proof (rule conjI [OF impI], goal_cases)
  case 1
  then have "renames_sourced hist" using resolve_error_iff by blast
  let ?orig = "\<lambda>h. old_originals old h \<union> logged_originals hist h"
  let ?events = "map (decide (logged_decision hist) ?orig counts) candidates"
  from resolve_closed_form [OF \<open>renames_sourced hist\<close> refl, where old = old and counts = counts and candidates = candidates] 1
  have evs: "evs = ?events @ map DeletedRow (filter (\<lambda>row. row_key row \<notin> logged_sources hist \<union> rename_sources ?events) old)"
    by simp
  have "filter (\<lambda>e. final_operation e \<noteq> ''deleted'') evs = ?events"
    unfolding evs by (simp add: filter_map comp_def filter_id_conv)
  moreover have "(\<exists>ev \<in> set hist. row_key (ev_entry ev) = row_key to \<and> source_key ev = Some (p, v)) \<or>
      (\<exists>h. es_file_handle to = Some h \<and> counts h = Some 1 \<and> ?orig h = {(p, v)})"
    if "Renamed p v to \<in> set evs" for p v to
  proof -
    from that obtain c where "c \<in> set candidates" and c: "decide (logged_decision hist) ?orig counts c = Renamed p v to"
      unfolding evs by auto
    then have "c = to" using final_item_decide [of "logged_decision hist" ?orig counts c] by simp
    with c show ?thesis
      by (auto simp: decide_def is_singleton_the_elem decision_of_rename
          dest!: logged_decision_Some split: option.splits decision.splits if_splits prod.splits)
  qed
  ultimately show ?case unfolding evs by (auto simp: comp_def rename_sources_append)
next
  case 2
  then show ?case using resolve_error_iff [of old candidates hist counts]
    by (cases "resolve_final_events old candidates hist counts") (auto simp: renames_sourced_def)
qed

lemma final_events_account_for_rows_witness:
  "let old = [toy_row ''old'' (Some ''h''), toy_row ''gone'' None]; new = toy_row ''new'' (Some ''h'');
     evs = [Renamed ''old'' '''' new, DeletedRow (toy_row ''gone'' None)]
   in resolve_final_events old [new] [] [''h'' \<mapsto> 1] = Inr evs \<and>
      map final_item (filter (\<lambda>e. final_operation e \<noteq> ''deleted'') evs) = [new]"
proof -
  let ?old = "[toy_row ''old'' (Some ''h''), toy_row ''gone'' None]" and ?new = "toy_row ''new'' (Some ''h'')"
  have run: "resolve_final_events ?old [?new] [] [''h'' \<mapsto> 1]
      = Inr [Renamed ''old'' '''' ?new, DeletedRow (toy_row ''gone'' None)]"
    by (simp add: resolve_final_events_def Let_def add_original_def candidate_event_def inferred_decision_def
        rename_sources_def toy_row_def row_key_def)
  with final_events_account_for_rows [of ?old "[?new]" "[]" "[''h'' \<mapsto> 1]"] show ?thesis
    unfolding Let_def by blast
qed

subsection \<open>Reading the tables\<close>

lemma limit_1_by_distinct [simp]: "distinct (map f xs) \<Longrightarrow> limit_1_by f xs = xs"
  by (induction xs) (auto simp: filter_id_conv rev_image_eqI)

lemma distinct_map_sort_key [simp]: "distinct (map f (sort_key g xs)) \<longleftrightarrow> distinct (map f xs)"
  by (metis mset_map mset_sort mset_eq_imp_distinct_iff)

lemma sort_key_unique:
  assumes "sorted (map f xs)" "distinct (map f xs)" "set xs = set ys" "distinct (map f ys)"
  shows "xs = sort_key f ys"
proof -
  have "mset ys = mset xs"
    using assms by (metis distinct_map set_eq_iff_mset_eq_distinct)
  moreover have "inj_on f (set ys)" using assms(4) by (simp add: distinct_map)
  ultimately show ?thesis using assms(1) by (metis sort_key_inj_key_eq)
qed

definition all_old :: "tables \<Rightarrow> entry_summary list" where
  "all_old tb = sort_key row_key (map sr_entry (filter (\<lambda>r. \<not> sr_active r) (tb_base tb))) @ displaced_rows tb"

definition live_candidates :: "tables \<Rightarrow> entry_summary list" where
  "live_candidates tb =
     sort_key row_key (map sr_entry (filter (\<lambda>r. row_key (sr_entry r) \<in> candidate_keys tb) (active_rows tb)))"

definition entry_keys :: "tables \<Rightarrow> path_key list" where
  "entry_keys tb = map (\<lambda>r. row_key (sr_entry r)) (tb_base tb)"

text \<open>
  What every state of a round satisfies: a key has one live row and an operation one event
  per key; a displaced row's key is no longer one of the previous generation; the digest
  column holds digests that tell the rows apart; a candidate event carries the identity of
  the current row.
\<close>

definition tables_ok :: "(bytes \<Rightarrow> string) \<Rightarrow> tables \<Rightarrow> bool" where
  "tables_ok hash tb \<longleftrightarrow>
     distinct (entry_keys tb) \<and>
     distinct (map event_key (filter temporary_event (tb_events tb))) \<and>
     (\<forall>row \<in> set (displaced_rows tb). \<forall>r \<in> set (tb_base tb). row_key row = row_key (sr_entry r) \<longrightarrow> sr_active r) \<and>
     (\<forall>r \<in> set (tb_base tb). \<forall>d. sr_metadata_hash r = Some d \<longrightarrow> d = scan_metadata_hash hash (sr_entry r)) \<and>
     (\<forall>r \<in> set (tb_base tb). \<forall>ev \<in> set (candidate_events tb).
       scan_metadata_hash hash (ev_entry ev) = scan_metadata_hash hash (sr_entry r) \<longrightarrow>
       (ev_entry ev)\<lparr>es_current_state := 0\<rparr> = (sr_entry r)\<lparr>es_current_state := 0\<rparr>) \<and>
     (\<forall>r \<in> set (tb_base tb). \<forall>ev \<in> set (candidate_events tb). row_key (ev_entry ev) = row_key (sr_entry r) \<longrightarrow>
       es_file_handle (ev_entry ev) = es_file_handle (sr_entry r))"

lemma filter_keys_distinct:
  "distinct (map f xs) \<Longrightarrow> distinct (map f (filter P xs))"
  by (simp add: distinct_map inj_on_subset [of f "set xs"])

lemma temporary_events:
  "candidate_events tb = filter (\<lambda>ev. ev_operation ev = ''candidate_new'') (filter temporary_event (tb_events tb))"
  "displaced_rows tb = map ev_entry (filter (\<lambda>ev. ev_operation ev = ''displaced_old'') (filter temporary_event (tb_events tb)))"
  by (auto simp: candidate_events_def displaced_rows_def temporary_event_def intro!: filter_cong arg_cong [of _ _ "map ev_entry"])

lemma same_operation_keys:
  assumes "distinct (map event_key evs)" "\<forall>ev \<in> set evs. ev_operation ev = op"
  shows "distinct (map (\<lambda>ev. row_key (ev_entry ev)) evs)"
proof -
  have "map event_key evs = map (Pair op \<circ> (\<lambda>ev. row_key (ev_entry ev))) evs"
    using assms(2) by (auto simp: event_key_def)
  with assms(1) show ?thesis by (metis distinct_map list.map_comp)
qed

lemma candidate_events_distinct: "tables_ok hash tb \<Longrightarrow> distinct (map (\<lambda>ev. row_key (ev_entry ev)) (candidate_events tb))"
  unfolding temporary_events(1)
  by (rule same_operation_keys [OF filter_keys_distinct]) (auto simp: tables_ok_def)

lemma displaced_distinct: "tables_ok hash tb \<Longrightarrow> distinct (map row_key (displaced_rows tb))"
  unfolding temporary_events(2) map_map comp_def
  by (rule same_operation_keys [OF filter_keys_distinct]) (auto simp: tables_ok_def)

lemma old_entries_distinct:
  "tables_ok hash tb \<Longrightarrow> distinct (map row_key (map sr_entry (filter P (tb_base tb))))"
  unfolding tables_ok_def entry_keys_def map_map comp_def by (intro filter_keys_distinct) auto

lemma all_old_distinct: "tables_ok hash tb \<Longrightarrow> distinct (map row_key (all_old tb))"
  using old_entries_distinct [of hash tb] displaced_distinct [of hash tb]
  by (auto simp: all_old_def simp flip: map_map) (auto simp: tables_ok_def)

lemma extend_unknown_all:
  "distinct (map row_key rows) \<Longrightarrow> (\<And>row h. row \<in> set rows \<Longrightarrow> (row_key row, h) \<notin> known) \<Longrightarrow> extend_unknown known rows = rows"
proof (induction known rows rule: extend_unknown.induct)
  case (2 known row rows)
  have "extend_unknown (insert (row_key row, es_file_handle row) known) rows = rows"
    by (rule "2.IH" (2) [OF refl]) (use "2.prems" in \<open>auto simp: image_iff\<close>)
  with "2.prems" show ?case by (auto simp: Let_def)
qed simp

lemma old_with_displaced:
  assumes "tables_ok hash tb"
  shows "old_rows tb @ extend_unknown ((\<lambda>row. (row_key row, es_file_handle row)) ` set (old_rows tb)) (displaced_rows tb)
    = all_old tb"
proof -
  have "old_rows tb = sort_key row_key (map sr_entry (filter (\<lambda>r. \<not> sr_active r) (tb_base tb)))"
    unfolding old_rows_def using old_entries_distinct [OF assms] by simp
  moreover have "extend_unknown ((\<lambda>row. (row_key row, es_file_handle row)) ` set (old_rows tb)) (displaced_rows tb) = displaced_rows tb"
    using all_old_distinct [OF assms] displaced_distinct [OF assms] calculation
    by (intro extend_unknown_all) (auto simp: all_old_def)
  ultimately show ?thesis by (simp add: all_old_def)
qed

subsection \<open>The candidate cache is transparent\<close>

lemma verify_rows_Some:
  "verify_rows hash current rows = Some rows' \<Longrightarrow>
    list_all2 (\<lambda>row row'. \<exists>reference. current (row_key row) = Some reference \<and>
      cr_metadata_hash reference = Some (scan_metadata_hash hash row) \<and>
      row' = row\<lparr>es_current_state := cr_current_state reference\<rparr>) rows rows'"
  by (induction rows arbitrary: rows') (auto split: option.splits if_splits)

lemma list_all2_right_source: "list_all2 P xs ys \<Longrightarrow> y \<in> set ys \<Longrightarrow> \<exists>x \<in> set xs. P x y"
  by (induction rule: list_all2_induct) auto

lemma same_row_up_to_state:
  "a\<lparr>es_current_state := 0\<rparr> = b\<lparr>es_current_state := 0\<rparr> \<Longrightarrow> a\<lparr>es_current_state := es_current_state b\<rparr> = b"
  by (cases a; cases b) simp

lemma verified_candidates_exact:
  assumes ok: "tables_ok hash tb"
    and refs: "refs = map (\<lambda>r. \<lparr>cr_key = row_key (sr_entry r), cr_current_state = es_current_state (sr_entry r),
        cr_metadata_hash = sr_metadata_hash r\<rparr>) (filter (\<lambda>r. row_key (sr_entry r) \<in> candidate_keys tb) (active_rows tb))"
    and rows: "verified_candidates hash (sort_key row_key (map ev_entry (candidate_events tb))) refs = Some rows"
  shows "rows = live_candidates tb"
proof -
  let ?cached = "sort_key row_key (map ev_entry (candidate_events tb))"
  let ?live = "filter (\<lambda>r. row_key (sr_entry r) \<in> candidate_keys tb) (active_rows tb)"
  let ?current = "map_of (rev (map (\<lambda>r. (cr_key r, r)) refs))"
  from rows have verified: "verify_rows hash ?current ?cached = Some rows"
    and card: "card (cr_key ` set refs) = length ?cached"
    by (auto simp: verified_candidates_def Let_def split: if_splits)
  note pairs = verify_rows_Some [OF verified]
  have live_distinct: "distinct (map row_key (map sr_entry ?live))"
    using old_entries_distinct [OF ok, of "\<lambda>r. row_key (sr_entry r) \<in> candidate_keys tb \<and> sr_active r"]
    by (simp add: active_rows_def conj_commute)
  have cached_distinct: "distinct (map row_key ?cached)"
    using candidate_events_distinct [OF ok] by (simp add: comp_def)
  have keys: "map row_key rows = map row_key ?cached"
    using pairs by (induction rule: list_all2_induct) (auto simp: row_key_def)
  have row: "row' \<in> sr_entry ` set ?live" if "row' \<in> set rows" for row'
  proof -
    from that pairs obtain row reference where r: "row \<in> set ?cached" "?current (row_key row) = Some reference"
      "cr_metadata_hash reference = Some (scan_metadata_hash hash row)"
      "row' = row\<lparr>es_current_state := cr_current_state reference\<rparr>"
      by (blast dest: list_all2_right_source)
    from map_of_SomeD [OF r(2)] obtain b where b: "b \<in> set ?live" "reference = \<lparr>cr_key = row_key (sr_entry b),
        cr_current_state = es_current_state (sr_entry b), cr_metadata_hash = sr_metadata_hash b\<rparr>"
      by (auto simp: refs)
    from b(1) have "b \<in> set (tb_base tb)" by (simp add: active_rows_def)
    from r(1) obtain ev where ev: "ev \<in> set (candidate_events tb)" "row = ev_entry ev" by auto
    from ok \<open>b \<in> set (tb_base tb)\<close> b(2) r(3) have "scan_metadata_hash hash row = scan_metadata_hash hash (sr_entry b)"
      unfolding tables_ok_def by auto
    with ok \<open>b \<in> set (tb_base tb)\<close> ev have "row\<lparr>es_current_state := 0\<rparr> = (sr_entry b)\<lparr>es_current_state := 0\<rparr>"
      unfolding tables_ok_def by blast
    from same_row_up_to_state [OF this] r(4) b show ?thesis by auto
  qed
  have "row_key ` set rows = row_key ` sr_entry ` set ?live"
  proof (rule card_subset_eq)
    show "row_key ` set rows \<subseteq> row_key ` sr_entry ` set ?live" using row by blast
    have "card (row_key ` set rows) = length ?cached"
      using keys cached_distinct by (metis distinct_card length_map list.set_map)
    also have "\<dots> = card (row_key ` sr_entry ` set ?live)" using card by (simp add: refs image_image)
    finally show "card (row_key ` set rows) = card (row_key ` sr_entry ` set ?live)" .
  qed simp
  then have "set rows = sr_entry ` set ?live"
    using row live_distinct by (auto simp: distinct_map inj_on_def)
  moreover have "sorted (map row_key rows)" unfolding keys by simp
  ultimately show ?thesis
    unfolding live_candidates_def using live_distinct cached_distinct keys by (intro sort_key_unique) auto
qed

lemma candidate_rows_exact:
  assumes "tables_ok hash tb"
  shows "candidate_rows {} hash tb = Inr (live_candidates tb)"
proof (cases "candidate_events tb = []")
  case True
  then have "sort_key row_key (map ev_entry (candidate_events tb)) = []" by simp
  with True show ?thesis
    by (simp add: candidate_rows_def ask_def live_candidates_def candidate_keys_def)
next
  case False
  then have "sort_key row_key (map ev_entry (candidate_events tb)) \<noteq> []" by (metis length_0_conv length_map length_sort)
  moreover have "reread_candidates tb = live_candidates tb"
    using old_entries_distinct [OF assms, of "\<lambda>r. row_key (sr_entry r) \<in> candidate_keys tb \<and> sr_active r"]
    by (simp add: reread_candidates_def live_candidates_def active_rows_def conj_commute)
  ultimately show ?thesis
    using verified_candidates_exact [OF assms refl] by (simp add: candidate_rows_def ask_def split: option.split)
qed

text \<open>
  C32. Reading candidates through the cached event rows and their digests gives the same rows,
  in the same order, as reading them from the catalogue: stale, missing or duplicate cache
  entries only cost a second query. No cached metadata survives a change of the current row.
\<close>

theorem candidate_cache_is_transparent:
  assumes "tables_ok hash tb"
  shows "candidate_rows {} hash tb = Inr (live_candidates tb)"
  by (rule candidate_rows_exact [OF assms])

text \<open>A round with one file moved from \<open>a\<close> to \<open>b\<close>.\<close>

definition toy_tables :: "string \<Rightarrow> string \<Rightarrow> tables" where
  "toy_tables old_version new_version =
     (let b = (toy_row ''b'' (Some ''h''))\<lparr>es_version_id := new_version\<rparr>
      in \<lparr>tb_base = [\<lparr>sr_entry = (toy_row ''a'' (Some ''h''))\<lparr>es_version_id := old_version\<rparr>, sr_active = False, sr_metadata_hash = None\<rparr>,
                   \<lparr>sr_entry = b, sr_active = True, sr_metadata_hash = Some (scan_metadata_hash text_hash b)\<rparr>],
          tb_events = [\<lparr>ev_operation = ''candidate_new'', ev_entry = b, ev_comment = None, ev_create_at = 7\<rparr>]\<rparr>)"

lemma toy_row_fits: "length version < 2 ^ 64 \<Longrightarrow>
    strings_fit ((toy_row [c] (Some ''h''))\<lparr>es_version_id := version\<rparr>)"
  by (simp add: strings_fit_def toy_row_def)

lemma toy_tables_ok:
  assumes "length old_version < 2 ^ 64" "length new_version < 2 ^ 64"
  shows "tables_ok text_hash (toy_tables old_version new_version)"
proof -
  let ?a = "(toy_row ''a'' (Some ''h''))\<lparr>es_version_id := old_version\<rparr>"
    and ?b = "(toy_row ''b'' (Some ''h''))\<lparr>es_version_id := new_version\<rparr>"
  have "scan_metadata_hash text_hash ?b \<noteq> scan_metadata_hash text_hash ?a"
    using metadata_bytes_inj [OF toy_row_fits [OF assms(2)] toy_row_fits [OF assms(1)], of "CHR ''b''" "CHR ''a''" 0]
    by (auto simp: scan_metadata_hash_def text_hash_eq toy_row_def)
  then show ?thesis
    by (simp add: tables_ok_def toy_tables_def Let_def entry_keys_def event_key_def displaced_rows_def candidate_events_def
        temporary_event_def row_key_def) (simp add: toy_row_def)
qed

lemma candidate_cache_is_transparent_witness:
  "candidate_rows {} text_hash (toy_tables '''' '''') = Inr [toy_row ''b'' (Some ''h'')]"
proof -
  have "live_candidates (toy_tables '''' '''') = [toy_row ''b'' (Some ''h'')]"
    by (simp add: live_candidates_def toy_tables_def Let_def active_rows_def candidate_keys_def candidate_events_def
        row_key_def toy_row_def)
  with candidate_cache_is_transparent [OF toy_tables_ok [of "''''" "''''"]] show ?thesis by simp
qed

end
