(* ===== verification/FinalCrash.thy ===== *)
theory FinalCrash
  imports FinalProofs
begin

section \<open>Interrupted finalisations\<close>

text \<open>
  A finalisation logs decisions and removes rows in batches, and may stop between any two
  database changes, also inside the final cleanup. The next attempt starts from what the log
  and the catalogue then hold. This theory shows that the attempts together do exactly what
  one uninterrupted finalisation does.
\<close>

subsection \<open>What a finalisation reads\<close>

definition typed :: "entry_summary list \<Rightarrow> bool" where
  "typed rows \<longleftrightarrow> list_ex (\<lambda>row. es_file_handle row \<noteq> None) rows"

definition read_history :: "tables \<Rightarrow> event_row list" where
  "read_history tb =
     (case history_filter (membership tb) (typed (live_candidates tb)) (all_old tb = []) of
        None \<Rightarrow> [] | Some P \<Rightarrow> filter P (tb_events tb))"

definition known_identities :: "tables \<Rightarrow> string set" where
  "known_identities tb =
     {h. (\<exists>row \<in> set (all_old tb). es_file_handle row = Some h) \<or>
       (\<exists>ev \<in> set (read_history tb). ev_operation ev \<in> {''deleted'', ''rename''} \<and> es_file_handle (ev_entry ev) = Some h)}"

definition read_counts :: "tables \<Rightarrow> string \<Rightarrow> nat option" where
  "read_counts tb =
     (if typed (live_candidates tb) \<and> list_ex (\<lambda>row. case es_file_handle row of Some h \<Rightarrow> h \<in> known_identities tb | None \<Rightarrow> False)
           (live_candidates tb)
      then alias_counts tb else (\<lambda>_. None))"

lemma final_events_exact:
  assumes "tables_ok hash tb"
  shows "final_events {} hash tb = resolve_final_events (all_old tb) (live_candidates tb) (read_history tb) (read_counts tb)"
proof -
  have probe: "(if list_ex (\<lambda>r. \<not> sr_active r) (tb_base tb) then Inr (old_rows tb) else Inr []) = (Inr (old_rows tb) :: db_error + _)"
    by (auto simp: old_rows_def list_ex_iff)
  have hist: "(case history_filter (membership tb) (typed (live_candidates tb)) (all_old tb = []) of
      None \<Rightarrow> Inr [] | Some P \<Rightarrow> Inr (filter P (tb_events tb))) = (Inr (read_history tb) :: db_error + _)"
    by (simp add: read_history_def split: option.split)
  have counts: "(if typed (live_candidates tb) \<and> list_ex (\<lambda>row. case es_file_handle row of Some h \<Rightarrow> h \<in> known_identities tb | None \<Rightarrow> False)
        (live_candidates tb) then Inr (alias_counts tb) else Inr (\<lambda>_. None)) = (Inr (read_counts tb) :: db_error + _)"
    by (simp add: read_counts_def)
  show ?thesis
    unfolding final_events_def ask_def
    by (simp only: empty_iff if_False sum.case probe candidate_rows_exact [OF assms]
        Let_def old_with_displaced [OF assms] typed_def [symmetric] hist known_identities_def [symmetric] counts)
qed










subsection \<open>The plan of a round\<close>


definition fresh :: "tables \<Rightarrow> entry_summary \<Rightarrow> final_event" where
  "fresh tb = decide (\<lambda>_. None) (old_originals (all_old tb)) (alias_counts tb)"

definition plan :: "tables \<Rightarrow> final_event list" where
  "plan tb =
     (let cs = map (fresh tb) (live_candidates tb)
      in cs @ map DeletedRow (filter (\<lambda>row. row_key row \<notin> rename_sources cs) (all_old tb)))"









lemma fresh_not_deleted [simp]: "fresh tb c \<noteq> DeletedRow row" "DeletedRow row \<noteq> fresh tb c"
  by (simp_all add: fresh_def)

lemma fresh_not_deleted_operation [simp]:
  "final_operation (fresh tb c) \<noteq> ''deleted''" "''deleted'' \<noteq> final_operation (fresh tb c)"
  using decide_not_deleted(2) [of "\<lambda>_. None" "old_originals (all_old tb)" "alias_counts tb" c]
  by (auto simp: fresh_def dest: sym)


lemma rename_sources_plan: "rename_sources (plan tb) = rename_sources (map (fresh tb) (live_candidates tb))"
  by (simp add: plan_def Let_def)





text \<open>A logged decision is the planned one.\<close>

lemma final_event_record_fields [simp]:
  "ev_operation (final_event_record time e) = final_operation e" "ev_entry (final_event_record time e) = final_item e"
  "ev_comment (final_event_record time e) = previous_path e"
  by (simp_all add: final_event_record_def incremental_record_def)

lemma temporary_record [simp]: "\<not> temporary_event (final_event_record time e)"
  by (cases e) (auto simp: temporary_event_def)


subsection \<open>The state between two attempts\<close>


















subsection \<open>An attempt decides what was planned\<close>










subsection \<open>An attempt finishes what is missing\<close>





subsection \<open>Writing and removing\<close>














subsection \<open>All attempts together\<close>




record attempt =
  at_fails :: "final_query set"
  at_batch_size :: nat
  at_budget :: nat
  at_kept :: "event_row \<Rightarrow> bool"

fun finalize_attempts :: "(bytes \<Rightarrow> string) \<Rightarrow> i64 \<Rightarrow> attempt list \<Rightarrow> tables \<Rightarrow> tables" where
  "finalize_attempts hash time [] tb = tb"
| "finalize_attempts hash time (a # as) tb = finalize_attempts hash time as
     (fst (finalize_events (at_fails a) hash time (at_batch_size a) (at_budget a) (at_kept a) tb))"





text \<open>
  The hypothesis on versions is needed: the log keeps the version of the target only, so a
  replayed rename between versions misses its source, which is then reported deleted as well.
\<close>

lemma replayed_rename_forgets_version:
  "final_events {} text_hash (toy_tables ''1'' ''2'') = Inr [Renamed ''a'' ''1'' ((toy_row ''b'' (Some ''h''))\<lparr>es_version_id := ''2''\<rparr>)]"
  "final_events {} text_hash (finalize_attempts text_hash 7
      [\<lparr>at_fails = {}, at_batch_size = 1, at_budget = 1, at_kept = (\<lambda>_. True)\<rparr>] (toy_tables ''1'' ''2''))
    = Inr [Renamed ''a'' ''2'' ((toy_row ''b'' (Some ''h''))\<lparr>es_version_id := ''2''\<rparr>),
           DeletedRow ((toy_row ''a'' (Some ''h''))\<lparr>es_version_id := ''1''\<rparr>)]"
proof -
  let ?tb = "toy_tables ''1'' ''2''"
  let ?b = "(toy_row ''b'' (Some ''h''))\<lparr>es_version_id := ''2''\<rparr>" and ?a = "(toy_row ''a'' (Some ''h''))\<lparr>es_version_id := ''1''\<rparr>"
  let ?base = "[\<lparr>sr_entry = ?a, sr_active = False, sr_metadata_hash = None\<rparr>,
      \<lparr>sr_entry = ?b, sr_active = True, sr_metadata_hash = Some (scan_metadata_hash text_hash ?b)\<rparr>]"
  let ?cev = "\<lparr>ev_operation = ''candidate_new'', ev_entry = ?b, ev_comment = None, ev_create_at = 7\<rparr>"
  have keys: "row_key ?a = (''a'', ''1'')" "row_key ?b = (''b'', ''2'')" "es_file_handle ?a = Some ''h''" "es_file_handle ?b = Some ''h''"
    by (simp_all add: row_key_def toy_row_def)
  have tb: "?tb = \<lparr>tb_base = ?base, tb_events = [?cev]\<rparr>" by (simp add: toy_tables_def Let_def)
  let ?rename = "Renamed ''a'' ''1'' ?b"
  let ?tb1 = "\<lparr>tb_base = ?base, tb_events = [?cev, final_event_record 7 ?rename]\<rparr>"
  have ok: "tables_ok text_hash ?tb" by (rule toy_tables_ok) simp_all
  have "tables_ok text_hash ?tb1"
    using ok unfolding tb by (simp add: tables_ok_def entry_keys_def displaced_rows_def candidate_events_def)
  note exact = final_events_exact [OF ok] final_events_exact [OF this]
  have base: "active_rows \<lparr>tb_base = ?base, tb_events = evs\<rparr> = [\<lparr>sr_entry = ?b, sr_active = True, sr_metadata_hash = Some (scan_metadata_hash text_hash ?b)\<rparr>]" for evs
    by (simp add: active_rows_def)
  have rows: "live_candidates \<lparr>tb_base = ?base, tb_events = [?cev]\<rparr> = [?b]" "all_old \<lparr>tb_base = ?base, tb_events = [?cev]\<rparr> = [?a]"
    "live_candidates ?tb1 = [?b]" "all_old ?tb1 = [?a]"
    by (simp_all add: live_candidates_def all_old_def base candidate_keys_def candidate_events_def displaced_rows_def keys)
  have member: "membership \<lparr>tb_base = ?base, tb_events = [?cev]\<rparr> = {''h''}" "membership ?tb1 = {''h''}"
    by (auto simp: membership_def candidate_events_def keys)
  have handles: "typed [?b]" by (simp add: typed_def keys)
  have history: "read_history \<lparr>tb_base = ?base, tb_events = [?cev]\<rparr> = []" "read_history ?tb1 = [final_event_record 7 ?rename]"
    by (simp_all add: read_history_def rows member handles history_filter_def decided_in_def keys)
  have counts: "read_counts \<lparr>tb_base = ?base, tb_events = [?cev]\<rparr> ''h'' = Some 1"
    by (simp add: read_counts_def rows handles known_identities_def history keys alias_counts_def member base)
  show one: "final_events {} text_hash ?tb = Inr [?rename]"
    unfolding exact(1) unfolding tb rows history resolve_final_events_def candidate_event_def inferred_decision_def
    by (simp add: add_original_def counts keys rename_sources_def)
  have "finalize_attempts text_hash 7 [\<lparr>at_fails = {}, at_batch_size = 1, at_budget = 1, at_kept = (\<lambda>_. True)\<rparr>] ?tb = ?tb1"
    by (simp add: finalize_events_def one flush_final_events_def write_final_events_def write_event_def Let_def)
      (simp add: tb event_key_def)
  moreover have "final_events {} text_hash ?tb1 = Inr [Renamed ''a'' ''2'' ?b, DeletedRow ?a]"
    unfolding exact(2) rows history resolve_final_events_def candidate_event_def inferred_decision_def
    by (simp add: add_original_def history_step_def keys rename_sources_def Let_def)
  ultimately show "final_events {} text_hash (finalize_attempts text_hash 7
      [\<lparr>at_fails = {}, at_batch_size = 1, at_budget = 1, at_kept = (\<lambda>_. True)\<rparr>] ?tb) = Inr [Renamed ''a'' ''2'' ?b, DeletedRow ?a]"
    by simp
qed

end
