(* ===== verification/License.thy ===== *)
theory License
  imports Prelude
begin

section \<open>Licences (crates/licensing/src)\<close>

text \<open>
  Verification and activation of a licence file, the monotone clock kept in it, the binding
  of machines and the sentinel file beside it. Time is an integer of nanoseconds; the crates
  for signatures, HMAC, hashing, base64, JSON and RFC 3339 are the record \<open>crypto\<close>. A file that
  is written is read back as the value that was written; the successive readings of the system
  clock, the fingerprint of the machine and failures of the file system are the record
  \<open>license_env\<close>.
\<close>

subsection \<open>Data (types.rs, error.rs)\<close>

record payload =
  pl_license_id :: string
  pl_licensee :: string
  pl_issued_at :: int
  pl_expires_at :: "int option"
  pl_activation_window_days :: u32
  pl_max_machines :: u32

record machine_binding =
  mb_fingerprint :: string
  mb_activated_at :: int
  mb_last_verified :: int

record activation =
  ac_machines :: "machine_binding list"
  ac_binding_hmac :: string

record license_file =
  lf_payload :: payload
  lf_signature :: string
  lf_activation :: "activation option"
  lf_clock :: "int option"

record sentinel_data =
  sn_id :: string
  sn_fp :: string
  sn_ts :: int
  sn_ck :: int
  sn_hm :: string

datatype license_error =
    FileNotFound | InvalidFormat | SignatureInvalid | Expired int | ActivationWindowExpired int u32
  | MachineBindingMismatch | MaxMachinesReached u32 | BindingHmacInvalid | ClockRegression
  | LicenseFileRestored int int | SentinelMismatch | FingerprintError | NotActivated | IoError | CryptoError

text \<open>A file as reading it and parsing its JSON see it.\<close>

datatype 'a stored = Absent | Unreadable | Malformed | Stored 'a

record world =
  wd_license :: "license_file stored"
  wd_sentinels :: "string \<Rightarrow> sentinel_data stored"

record crypto =
  cr_public_key :: string
  cr_secret :: bytes
  cr_base64 :: "string \<Rightarrow> bytes option"
  cr_valid_key :: "bytes \<Rightarrow> bool"
  cr_verify_strict :: "bytes \<Rightarrow> string \<Rightarrow> bytes \<Rightarrow> bool"
  cr_hkdf :: "string \<Rightarrow> bytes \<Rightarrow> bytes"
  cr_hmac :: "bytes \<Rightarrow> string \<Rightarrow> string"
  cr_sha256 :: "string \<Rightarrow> string"
  cr_payload_json :: "payload \<Rightarrow> string"
  cr_rfc3339 :: "int \<Rightarrow> string"

record license_env =
  le_now :: "nat \<Rightarrow> int"
  le_machine :: "string option"
  le_license_writable :: bool
  le_sentinel_writable :: bool

definition attempt :: "'w \<Rightarrow> 'e + 'a \<Rightarrow> ('a \<Rightarrow> 'w \<times> ('e + 'b)) \<Rightarrow> 'w \<times> ('e + 'b)" where
  "attempt w r k = (case r of Inl e \<Rightarrow> (w, Inl e) | Inr x \<Rightarrow> k x)"

definition require :: "bool \<Rightarrow> 'e \<Rightarrow> 'e + unit" where
  "require b e = (if b then Inr () else Inl e)"

text \<open>The fingerprint is a hash of hardware identifiers; reading them may fail.\<close>

definition collect_fingerprint :: "license_env \<Rightarrow> license_error + string" where
  "collect_fingerprint env = (case le_machine env of None \<Rightarrow> Inl FingerprintError | Some fp \<Rightarrow> Inr fp)"

subsection \<open>Cryptographic checks (crypto_utils.rs)\<close>

definition verify_signature :: "crypto \<Rightarrow> string \<Rightarrow> string \<Rightarrow> license_error + unit" where
  "verify_signature cr json signature =
     (case cr_base64 cr (cr_public_key cr) of
        None \<Rightarrow> Inl CryptoError
      | Some key \<Rightarrow>
          if length key \<noteq> 32 \<or> \<not> cr_valid_key cr key then Inl CryptoError
          else (case cr_base64 cr signature of
                  None \<Rightarrow> Inl CryptoError
                | Some sig \<Rightarrow>
                    if length sig \<noteq> 64 then Inl CryptoError
                    else require (cr_verify_strict cr key json sig) SignatureInvalid))"

fun join_bar :: "string list \<Rightarrow> string" where
  "join_bar [] = []"
| "join_bar [p] = p"
| "join_bar (p # ps) = p @ ''|'' @ join_bar ps"

definition build_hmac_message :: "crypto \<Rightarrow> machine_binding list \<Rightarrow> int option \<Rightarrow> string" where
  "build_hmac_message cr machines clock =
     join_bar (map (\<lambda>m. mb_fingerprint m @ '':'' @ cr_rfc3339 cr (mb_activated_at m) @ '':'' @ cr_rfc3339 cr (mb_last_verified m)) machines
       @ (case clock of Some c \<Rightarrow> [''clock:'' @ cr_rfc3339 cr c] | None \<Rightarrow> []))"

definition compute_binding_hmac :: "crypto \<Rightarrow> string \<Rightarrow> machine_binding list \<Rightarrow> int option \<Rightarrow> string" where
  "compute_binding_hmac cr signature machines clock =
     cr_hmac cr (cr_hkdf cr signature (cr_secret cr)) (build_hmac_message cr machines clock)"

definition compute_sentinel_hmac :: "crypto \<Rightarrow> string \<Rightarrow> string \<Rightarrow> int \<Rightarrow> string" where
  "compute_sentinel_hmac cr license_id fingerprint activated_at =
     cr_hmac cr (cr_secret cr) (license_id @ '':'' @ fingerprint @ '':'' @ cr_rfc3339 cr activated_at)"

definition verify_sentinel_hmac :: "crypto \<Rightarrow> sentinel_data \<Rightarrow> license_error + unit" where
  "verify_sentinel_hmac cr s =
     require (compute_sentinel_hmac cr (sn_id s) (sn_fp s) (sn_ts s) = sn_hm s) BindingHmacInvalid"

subsection \<open>The clock (clock.rs)\<close>

definition from_persisted :: "int \<Rightarrow> int \<Rightarrow> license_error + int" where
  "from_persisted persisted system_now = (if system_now < persisted then Inl ClockRegression else Inr system_now)"

definition clock_advance :: "int \<Rightarrow> int \<Rightarrow> license_error + int" where
  "clock_advance value system_now = (if system_now < value then Inl ClockRegression else Inr system_now)"

subsection \<open>The sentinel (sentinel.rs)\<close>

definition short_hash :: "crypto \<Rightarrow> string \<Rightarrow> string" where
  "short_hash cr s = take 16 (cr_sha256 cr s)"

definition sentinel_path :: "crypto \<Rightarrow> string \<Rightarrow> string" where
  "sentinel_path cr license_id = ''/var/lib/.cache/runtime.d/.rt_'' @ short_hash cr license_id @ ''.dat''"

definition read_sentinel :: "crypto \<Rightarrow> world \<Rightarrow> string \<Rightarrow> license_error + sentinel_data option" where
  "read_sentinel cr w license_id =
     (case wd_sentinels w (sentinel_path cr license_id) of
        Absent \<Rightarrow> Inr None | Unreadable \<Rightarrow> Inl IoError | Malformed \<Rightarrow> Inl InvalidFormat | Stored s \<Rightarrow> Inr (Some s))"

definition write_sentinel :: "crypto \<Rightarrow> license_env \<Rightarrow> sentinel_data \<Rightarrow> world \<Rightarrow> world \<times> (license_error + unit)" where
  "write_sentinel cr env data w =
     (if le_sentinel_writable env
      then (w\<lparr>wd_sentinels := (wd_sentinels w)(sentinel_path cr (sn_id data) := Stored data)\<rparr>, Inr ())
      else (w, Inl IoError))"

definition verify_sentinel :: "crypto \<Rightarrow> sentinel_data \<Rightarrow> string \<Rightarrow> int option \<Rightarrow> license_error + unit" where
  "verify_sentinel cr s current_fp clock =
     (case verify_sentinel_hmac cr s of
        Inl e \<Rightarrow> Inl e
      | Inr _ \<Rightarrow>
          if sn_fp s \<noteq> current_fp then Inl SentinelMismatch
          else (case clock of
                  Some file_clock \<Rightarrow>
                    if sn_ck s > file_clock then Inl (LicenseFileRestored (sn_ck s) file_clock) else Inr ()
                | None \<Rightarrow> Inr ()))"

subsection \<open>Verification (verify.rs)\<close>

definition read_license :: "world \<Rightarrow> license_error + license_file" where
  "read_license w =
     (case wd_license w of
        Absent \<Rightarrow> Inl FileNotFound | Unreadable \<Rightarrow> Inl IoError | Malformed \<Rightarrow> Inl InvalidFormat | Stored l \<Rightarrow> Inr l)"

definition write_license_atomic :: "license_env \<Rightarrow> license_file \<Rightarrow> world \<Rightarrow> world \<times> (license_error + unit)" where
  "write_license_atomic env l w =
     (if le_license_writable env then (w\<lparr>wd_license := Stored l\<rparr>, Inr ()) else (w, Inl IoError))"

definition check_expiry_with_clock :: "license_file \<Rightarrow> int \<Rightarrow> license_error + unit" where
  "check_expiry_with_clock l now =
     (case pl_expires_at (lf_payload l) of
        Some expires_at \<Rightarrow> if now > expires_at then Inl (Expired expires_at) else Inr ()
      | None \<Rightarrow> Inr ())"

definition hmac_matches :: "crypto \<Rightarrow> license_file \<Rightarrow> activation \<Rightarrow> bool" where
  "hmac_matches cr l a \<longleftrightarrow>
     compute_binding_hmac cr (lf_signature l) (ac_machines a) (lf_clock l) = ac_binding_hmac a \<or>
     compute_binding_hmac cr (lf_signature l) (ac_machines a) None = ac_binding_hmac a"

definition verify_binding_hmac_compat :: "crypto \<Rightarrow> license_file \<Rightarrow> license_error + unit" where
  "verify_binding_hmac_compat cr l =
     (case lf_activation l of None \<Rightarrow> Inl NotActivated | Some a \<Rightarrow> require (hmac_matches cr l a) BindingHmacInvalid)"

definition bound :: "license_file \<Rightarrow> string \<Rightarrow> bool" where
  "bound l fp \<longleftrightarrow> (case lf_activation l of None \<Rightarrow> False | Some a \<Rightarrow> list_ex (\<lambda>m. mb_fingerprint m = fp) (ac_machines a))"

definition update_sentinel_clock ::
  "crypto \<Rightarrow> license_env \<Rightarrow> license_file \<Rightarrow> string option \<Rightarrow> world \<Rightarrow> world \<times> (license_error + unit)" where
  "update_sentinel_clock cr env l fingerprint w =
     (let license_id = pl_license_id (lf_payload l)
      in attempt w (read_sentinel cr w license_id) (\<lambda>found.
           case found of
             Some s \<Rightarrow> write_sentinel cr env (case lf_clock l of Some c \<Rightarrow> s\<lparr>sn_ck := c\<rparr> | None \<Rightarrow> s) w
           | None \<Rightarrow>
               (case (fingerprint, lf_clock l) of
                  (Some fp, Some c) \<Rightarrow>
                    write_sentinel cr env \<lparr>sn_id = short_hash cr license_id, sn_fp = fp, sn_ts = c, sn_ck = c,
                      sn_hm = compute_sentinel_hmac cr license_id fp c\<rparr> w
                | _ \<Rightarrow> (w, Inr ()))))"

text \<open>The first machine with the fingerprint gets the time of the verification.\<close>

fun touch_machine :: "string \<Rightarrow> int \<Rightarrow> machine_binding list \<Rightarrow> machine_binding list" where
  "touch_machine fp now [] = []"
| "touch_machine fp now (m # ms) =
     (if mb_fingerprint m = fp then m\<lparr>mb_last_verified := now\<rparr> # ms else m # touch_machine fp now ms)"

definition read_clock :: "license_env \<Rightarrow> license_file \<Rightarrow> license_error + int" where
  "read_clock env l = (case lf_clock l of Some persisted \<Rightarrow> from_persisted persisted (le_now env 0) | None \<Rightarrow> Inr (le_now env 0))"

definition check_sentinel :: "crypto \<Rightarrow> world \<Rightarrow> license_file \<Rightarrow> string \<Rightarrow> license_error + unit" where
  "check_sentinel cr w l fp =
     (case read_sentinel cr w (pl_license_id (lf_payload l)) of
        Inl e \<Rightarrow> Inl e
      | Inr None \<Rightarrow> Inr ()
      | Inr (Some s) \<Rightarrow> verify_sentinel cr s fp (lf_clock l))"

definition verified_license :: "crypto \<Rightarrow> license_file \<Rightarrow> activation \<Rightarrow> string \<Rightarrow> int \<Rightarrow> license_file" where
  "verified_license cr l a fp now =
     (let machines = touch_machine fp now (ac_machines a)
      in l\<lparr>lf_clock := Some now,
           lf_activation := Some \<lparr>ac_machines = machines,
             ac_binding_hmac = compute_binding_hmac cr (lf_signature l) machines (Some now)\<rparr>\<rparr>)"

definition verify_license :: "crypto \<Rightarrow> license_env \<Rightarrow> world \<Rightarrow> world \<times> (license_error + license_file)" where
  "verify_license cr env w =
     attempt w (read_license w) (\<lambda>l.
     attempt w (verify_signature cr (cr_payload_json cr (lf_payload l)) (lf_signature l)) (\<lambda>_.
     attempt w (read_clock env l) (\<lambda>clock.
       if pl_max_machines (lf_payload l) = 0
       then attempt w (check_expiry_with_clock l clock) (\<lambda>_.
              let l' = l\<lparr>lf_clock := Some clock\<rparr>
              in case write_license_atomic env l' w of
                   (w1, Inl e) \<Rightarrow> (w1, Inl e)
                 | (w1, Inr _) \<Rightarrow>
                     (case update_sentinel_clock cr env l' None w1 of
                        (w2, Inl e) \<Rightarrow> (w2, Inl e) | (w2, Inr _) \<Rightarrow> (w2, Inr l')))
       else
         (case lf_activation l of
            None \<Rightarrow> (w, Inl NotActivated)
          | Some a \<Rightarrow>
              attempt w (verify_binding_hmac_compat cr l) (\<lambda>_.
              attempt w (check_expiry_with_clock l clock) (\<lambda>_.
              attempt w (collect_fingerprint env) (\<lambda>fp.
              attempt w (require (bound l fp) MachineBindingMismatch) (\<lambda>_.
              attempt w (check_sentinel cr w l fp) (\<lambda>_.
              attempt w (clock_advance clock (le_now env 1)) (\<lambda>now.
                let l' = verified_license cr l a fp now
                in case write_license_atomic env l' w of
                     (w1, Inl e) \<Rightarrow> (w1, Inl e)
                   | (w1, Inr _) \<Rightarrow>
                       (case update_sentinel_clock cr env l' (Some fp) w1 of
                          (w2, Inl e) \<Rightarrow> (w2, Inl e) | (w2, Inr _) \<Rightarrow> (w2, Inr l'))))))))))))"

text \<open>The second check before critical operations writes nothing.\<close>

definition quick_verify :: "crypto \<Rightarrow> license_env \<Rightarrow> license_file \<Rightarrow> license_error + unit" where
  "quick_verify cr env l =
     snd (attempt () (verify_signature cr (cr_payload_json cr (lf_payload l)) (lf_signature l)) (\<lambda>_.
          attempt () (read_clock env l) (\<lambda>clock.
          attempt () (check_expiry_with_clock l clock) (\<lambda>_.
            if pl_max_machines (lf_payload l) = 0 then ((), Inr ())
            else attempt () (verify_binding_hmac_compat cr l) (\<lambda>_.
                 attempt () (collect_fingerprint env) (\<lambda>fp.
                   case lf_activation l of
                     None \<Rightarrow> ((), Inl NotActivated)
                   | Some _ \<Rightarrow> ((), require (bound l fp) MachineBindingMismatch)))))))"

subsection \<open>Activation (activate.rs)\<close>

definition nanos_per_day :: int where
  "nanos_per_day = 86400 * 1000000000"

definition activated_license ::
  "crypto \<Rightarrow> license_file \<Rightarrow> string \<Rightarrow> int \<Rightarrow> license_error + license_file option" where
  "activated_license cr l fp now =
     (let new = \<lparr>mb_fingerprint = fp, mb_activated_at = now, mb_last_verified = now\<rparr>
      in case lf_activation l of
           None \<Rightarrow>
             Inr (Some (l\<lparr>lf_clock := Some now,
               lf_activation := Some \<lparr>ac_machines = [new],
                 ac_binding_hmac = compute_binding_hmac cr (lf_signature l) [new] (Some now)\<rparr>\<rparr>))
         | Some a \<Rightarrow>
             if \<not> hmac_matches cr l a then Inl BindingHmacInvalid
             else if list_ex (\<lambda>m. mb_fingerprint m = fp) (ac_machines a) then Inr None
             else if length (ac_machines a) \<ge> unat (pl_max_machines (lf_payload l))
             then Inl (MaxMachinesReached (pl_max_machines (lf_payload l)))
             else (let machines = ac_machines a @ [new];
                       clock = (case lf_clock l of None \<Rightarrow> Some now | Some c \<Rightarrow> Some c)
                   in Inr (Some (l\<lparr>lf_clock := clock,
                        lf_activation := Some \<lparr>ac_machines = machines,
                          ac_binding_hmac = compute_binding_hmac cr (lf_signature l) machines clock\<rparr>\<rparr>))))"

definition activate_license :: "crypto \<Rightarrow> license_env \<Rightarrow> world \<Rightarrow> world \<times> (license_error + unit)" where
  "activate_license cr env w =
     attempt w (read_license w) (\<lambda>l.
     attempt w (verify_signature cr (cr_payload_json cr (lf_payload l)) (lf_signature l)) (\<lambda>_.
       if pl_max_machines (lf_payload l) = 0 then (w, Inr ())
       else let now = le_now env 0; p = lf_payload l in
         if now - pl_issued_at p > uint (pl_activation_window_days p) * nanos_per_day
         then (w, Inl (ActivationWindowExpired (pl_issued_at p) (pl_activation_window_days p)))
         else attempt w (collect_fingerprint env) (\<lambda>fp.
              attempt w (read_sentinel cr w (pl_license_id p)) (\<lambda>found.
                let sentinel_id = short_hash cr (pl_license_id p) in
                if (case found of Some s \<Rightarrow> sn_fp s = fp \<and> sn_id s = sentinel_id | None \<Rightarrow> False) then (w, Inr ())
                else attempt w (activated_license cr l fp now) (\<lambda>activated.
                  case activated of
                    None \<Rightarrow> (w, Inr ())
                  | Some l' \<Rightarrow>
                      (case write_license_atomic env l' w of
                         (w1, Inl e) \<Rightarrow> (w1, Inl e)
                       | (w1, Inr _) \<Rightarrow>
                           write_sentinel cr env \<lparr>sn_id = sentinel_id, sn_fp = fp, sn_ts = now,
                             sn_ck = (case lf_clock l' of Some c \<Rightarrow> c | None \<Rightarrow> now),
                             sn_hm = compute_sentinel_hmac cr sentinel_id fp now\<rparr> w1))))))"

end
