(* ===== verification/LicenseProofs.thy ===== *)
theory LicenseProofs
  imports License
begin

section \<open>What a licence check guarantees\<close>

text \<open>
  Verification accepts exactly the valid licences; over any sequence of activations and
  verifications the clock of the file never runs backwards and the bound machines never
  exceed the licence; an activated machine stays accepted. And the sentinel, which should
  reveal that an older licence file was put back, is never found.
\<close>

subsection \<open>Steps\<close>

lemma attempt_simps [simp]: "attempt w (Inl e) k = (w, Inl e)" "attempt w (Inr x) k = k x"
  by (simp_all add: attempt_def)

lemma attempt_Inr: "attempt w r k = (w', Inr y) \<longleftrightarrow> (\<exists>x. r = Inr x \<and> k x = (w', Inr y))"
  by (cases r) auto

lemma require_simps [simp]: "require b e = Inr () \<longleftrightarrow> b" "require b e = Inr u \<longleftrightarrow> b" "require b e = Inl e' \<longleftrightarrow> \<not> b \<and> e' = e"
  by (auto simp: require_def)

lemma touch_machine_fingerprints [simp]: "map mb_fingerprint (touch_machine fp now ms) = map mb_fingerprint ms"
  by (induction ms) auto

lemma touch_machine_length [simp]: "length (touch_machine fp now ms) = length ms"
  by (metis length_map touch_machine_fingerprints)

lemma bound_iff: "bound l fp \<longleftrightarrow> (\<exists>a. lf_activation l = Some a \<and> fp \<in> set (map mb_fingerprint (ac_machines a)))"
  by (auto simp: bound_def list_ex_iff split: option.split)

text \<open>What the code checks of a licence, and the file it then writes.\<close>

definition license_valid :: "crypto \<Rightarrow> license_env \<Rightarrow> license_file \<Rightarrow> bool" where
  "license_valid cr env l \<longleftrightarrow>
     verify_signature cr (cr_payload_json cr (lf_payload l)) (lf_signature l) = Inr () \<and>
     (\<forall>c. lf_clock l = Some c \<longrightarrow> c \<le> le_now env 0) \<and>
     (\<forall>t. pl_expires_at (lf_payload l) = Some t \<longrightarrow> le_now env 0 \<le> t) \<and>
     (pl_max_machines (lf_payload l) \<noteq> 0 \<longrightarrow>
       (\<exists>a fp. lf_activation l = Some a \<and> hmac_matches cr l a \<and> collect_fingerprint env = Inr fp \<and> bound l fp))"

definition refreshed :: "crypto \<Rightarrow> license_env \<Rightarrow> license_file \<Rightarrow> license_file" where
  "refreshed cr env l =
     (if pl_max_machines (lf_payload l) = 0 then l\<lparr>lf_clock := Some (le_now env 0)\<rparr>
      else (case (lf_activation l, collect_fingerprint env) of
              (Some a, Inr fp) \<Rightarrow> verified_license cr l a fp (le_now env 1) | _ \<Rightarrow> l))"

lemma read_clock_Inr: "read_clock env l = Inr c \<longleftrightarrow> (\<forall>p. lf_clock l = Some p \<longrightarrow> p \<le> le_now env 0) \<and> c = le_now env 0"
  by (auto simp: read_clock_def from_persisted_def split: option.split)

lemma check_expiry_Inr: "check_expiry_with_clock l now = Inr u \<longleftrightarrow> (\<forall>t. pl_expires_at (lf_payload l) = Some t \<longrightarrow> now \<le> t)"
  by (auto simp: check_expiry_with_clock_def split: option.split)

lemma clock_advance_Inr: "clock_advance v now = Inr c \<longleftrightarrow> v \<le> now \<and> c = now"
  by (auto simp: clock_advance_def)

lemmas check_results = read_clock_Inr check_expiry_Inr clock_advance_Inr

lemma refreshed_fields [simp]: "lf_payload (refreshed cr env l) = lf_payload l" "lf_signature (refreshed cr env l) = lf_signature l"
  by (auto simp: refreshed_def verified_license_def Let_def split: option.split sum.split)

text \<open>A verification leaves the world alone or has found the licence valid and writes it.\<close>

definition sentinel_passes :: "crypto \<Rightarrow> license_env \<Rightarrow> world \<Rightarrow> license_file \<Rightarrow> bool" where
  "sentinel_passes cr env w l \<longleftrightarrow>
     (\<forall>fp. pl_max_machines (lf_payload l) \<noteq> 0 \<longrightarrow> collect_fingerprint env = Inr fp \<longrightarrow> check_sentinel cr w l fp = Inr ())"

definition after_write :: "crypto \<Rightarrow> license_env \<Rightarrow> license_file \<Rightarrow> world \<Rightarrow> world \<times> (license_error + license_file)" where
  "after_write cr env l w =
     (let l' = refreshed cr env l;
          fp = (if pl_max_machines (lf_payload l) = 0 then None else (case collect_fingerprint env of Inr fp \<Rightarrow> Some fp | Inl _ \<Rightarrow> None))
      in case write_license_atomic env l' w of
           (w1, Inl e) \<Rightarrow> (w1, Inl e)
         | (w1, Inr _) \<Rightarrow>
             (case update_sentinel_clock cr env l' fp w1 of (w2, Inl e) \<Rightarrow> (w2, Inl e) | (w2, Inr _) \<Rightarrow> (w2, Inr l')))"

lemma verify_license_accepts:
  assumes stored: "wd_license w = Stored l" and valid: "license_valid cr env l" and sentinel: "sentinel_passes cr env w l"
    and clock: "pl_max_machines (lf_payload l) \<noteq> 0 \<longrightarrow> le_now env 0 \<le> le_now env 1"
  shows "verify_license cr env w = after_write cr env l w"
proof -
  from valid have sig: "verify_signature cr (cr_payload_json cr (lf_payload l)) (lf_signature l) = Inr ()"
    and "read_clock env l = Inr (le_now env 0)" "check_expiry_with_clock l (le_now env 0) = Inr ()"
    by (auto simp: license_valid_def check_results)
  moreover have "read_license w = Inr l" using stored by (simp add: read_license_def)
  moreover have "\<exists>a fp. lf_activation l = Some a \<and> hmac_matches cr l a \<and> collect_fingerprint env = Inr fp \<and> bound l fp \<and>
      check_sentinel cr w l fp = Inr () \<and> le_now env 0 \<le> le_now env 1" if "pl_max_machines (lf_payload l) \<noteq> 0"
    using that valid sentinel clock by (auto simp: license_valid_def sentinel_passes_def)
  ultimately show ?thesis
    by (cases "pl_max_machines (lf_payload l) = 0")
      (auto simp: verify_license_def after_write_def refreshed_def verify_binding_hmac_compat_def require_def clock_advance_def Let_def)
qed

lemma verify_license_effect:
  "(\<exists>e. verify_license cr env w = (w, Inl e)) \<or>
   (\<exists>l. wd_license w = Stored l \<and> license_valid cr env l \<and> sentinel_passes cr env w l \<and>
     (pl_max_machines (lf_payload l) \<noteq> 0 \<longrightarrow> le_now env 0 \<le> le_now env 1) \<and>
     verify_license cr env w = after_write cr env l w)"
proof (cases "read_license w")
  case (Inr l)
  then have stored: "wd_license w = Stored l" by (auto simp: read_license_def split: stored.splits)
  let ?sig = "verify_signature cr (cr_payload_json cr (lf_payload l)) (lf_signature l)"
  show ?thesis
  proof (cases "?sig = Inr () \<and> (\<exists>c. read_clock env l = Inr c)")
    case True
    then have sig: "?sig = Inr ()" and clock: "read_clock env l = Inr (le_now env 0)" "\<forall>p. lf_clock l = Some p \<longrightarrow> p \<le> le_now env 0"
      by (auto simp: read_clock_Inr)
    show ?thesis
    proof (cases "pl_max_machines (lf_payload l) = 0")
      case True
      show ?thesis
      proof (cases "check_expiry_with_clock l (le_now env 0)")
        case (Inr u)
        with sig clock True have "license_valid cr env l" "sentinel_passes cr env w l"
          by (auto simp: license_valid_def sentinel_passes_def check_expiry_Inr)
        with verify_license_accepts [OF stored] stored True show ?thesis by auto
      qed (use Inr sig clock True in \<open>auto simp: verify_license_def\<close>)
    next
      case False
      note limited = this
      show ?thesis
      proof (cases "lf_activation l")
        case (Some a)
        show ?thesis
        proof (cases "hmac_matches cr l a \<and> check_expiry_with_clock l (le_now env 0) = Inr ()")
          case True
          show ?thesis
          proof (cases "collect_fingerprint env")
            case (Inr fp)
            show ?thesis
            proof (cases "bound l fp \<and> check_sentinel cr w l fp = Inr () \<and> le_now env 0 \<le> le_now env 1")
              case ok: True
              from True have "\<forall>t. pl_expires_at (lf_payload l) = Some t \<longrightarrow> le_now env 0 \<le> t" by (simp add: check_expiry_Inr)
              with True ok sig clock Some Inr have "license_valid cr env l" "sentinel_passes cr env w l"
                by (auto simp: license_valid_def sentinel_passes_def)
              with verify_license_accepts [OF stored] stored ok show ?thesis by auto
            next
              case no: False
              with True \<open>read_license w = Inr l\<close> stored sig clock limited Some Inr show ?thesis
                by (cases "check_sentinel cr w l fp")
                  (auto simp: verify_license_def verify_binding_hmac_compat_def require_def clock_advance_def)
            qed
          qed (use True Inr sig clock limited Some in \<open>auto simp: verify_license_def verify_binding_hmac_compat_def require_def\<close>)
        next
          case False
          with Inr sig clock limited Some show ?thesis
            by (cases "check_expiry_with_clock l (le_now env 0)")
              (auto simp: verify_license_def verify_binding_hmac_compat_def require_def)
        qed
      qed (use Inr sig clock limited in \<open>auto simp: verify_license_def\<close>)
    qed
  next
    case False
    with Inr show ?thesis
      by (cases ?sig; cases "read_clock env l") (auto simp: verify_license_def)
  qed
qed (simp add: verify_license_def)

lemma update_sentinel_license [simp]: "wd_license (fst (update_sentinel_clock cr env l fp w)) = wd_license w"
  by (auto simp: update_sentinel_clock_def attempt_def write_sentinel_def Let_def split: sum.split option.split)

lemma after_write_effect:
  assumes "after_write cr env l w = (w', r)"
  shows "w' = w \<and> (\<exists>e. r = Inl e) \<or> wd_license w' = Stored (refreshed cr env l) \<and> (\<forall>l'. r = Inr l' \<longrightarrow> l' = refreshed cr env l)"
proof (cases "le_license_writable env")
  case True
  let ?u = "update_sentinel_clock cr env (refreshed cr env l)
    (if pl_max_machines (lf_payload l) = 0 then None else (case collect_fingerprint env of Inr fp \<Rightarrow> Some fp | Inl _ \<Rightarrow> None))
    (w\<lparr>wd_license := Stored (refreshed cr env l)\<rparr>)"
  have "w' = fst ?u" "\<And>l'. r = Inr l' \<Longrightarrow> l' = refreshed cr env l"
    using assms True by (auto simp: after_write_def write_license_atomic_def Let_def split: prod.splits sum.splits)
  then show ?thesis by simp
qed (use assms in \<open>auto simp: after_write_def write_license_atomic_def Let_def\<close>)

lemma after_write_succeeds:
  assumes "le_license_writable env" "le_sentinel_writable env"
    "read_sentinel cr w (pl_license_id (lf_payload l)) = Inr s"
  shows "\<exists>w'. after_write cr env l w = (w', Inr (refreshed cr env l))"
  using assms
  by (auto simp: after_write_def write_license_atomic_def update_sentinel_clock_def read_sentinel_def write_sentinel_def Let_def
      split: option.split)

text \<open>
  C29. Verification accepts exactly the valid licences. If the files can be written and there
  is no sentinel, it succeeds if and only if the signature is valid, the clock was not turned
  back behind the persisted one or between its two readings, the licence has not expired, and
  - unless it is for any number of machines - the binding is intact and this machine is bound;
  and then the file holds the licence with the clock moved to the present.
\<close>

theorem verification_accepts_exactly_valid_licenses:
  assumes "wd_license w = Stored l" "le_license_writable env" "le_sentinel_writable env"
    "wd_sentinels w (sentinel_path cr (pl_license_id (lf_payload l))) = Absent"
  shows "((\<exists>w' l'. verify_license cr env w = (w', Inr l')) \<longleftrightarrow>
      license_valid cr env l \<and> (pl_max_machines (lf_payload l) \<noteq> 0 \<longrightarrow> le_now env 0 \<le> le_now env 1)) \<and>
    (verify_license cr env w = (w', Inr l') \<longrightarrow> wd_license w' = Stored l' \<and> lf_payload l' = lf_payload l \<and>
      (\<exists>now. lf_clock l' = Some now \<and> le_now env 0 \<le> now \<and> (\<forall>c. lf_clock l = Some c \<longrightarrow> c \<le> now)))"
proof -
  have read: "read_sentinel cr w (pl_license_id (lf_payload l)) = Inr None"
    using assms(4) by (simp add: read_sentinel_def)
  then have "sentinel_passes cr env w l" by (simp add: sentinel_passes_def check_sentinel_def)
  with verify_license_accepts [OF assms(1)] after_write_succeeds [OF assms(2,3) read] verify_license_effect [of cr env w] assms(1)
  have accepted: "(\<exists>w' l'. verify_license cr env w = (w', Inr l')) \<longleftrightarrow>
      license_valid cr env l \<and> (pl_max_machines (lf_payload l) \<noteq> 0 \<longrightarrow> le_now env 0 \<le> le_now env 1)"
    by auto
  moreover have "wd_license w' = Stored l' \<and> lf_payload l' = lf_payload l \<and>
      (\<exists>now. lf_clock l' = Some now \<and> le_now env 0 \<le> now \<and> (\<forall>c. lf_clock l = Some c \<longrightarrow> c \<le> now))"
    if run: "verify_license cr env w = (w', Inr l')"
  proof -
    from run accepted have valid: "license_valid cr env l" "pl_max_machines (lf_payload l) \<noteq> 0 \<longrightarrow> le_now env 0 \<le> le_now env 1"
      by blast+
    from run verify_license_effect [of cr env w] assms(1) have "after_write cr env l w = (w', Inr l')" by auto
    from after_write_effect [OF this] have w': "wd_license w' = Stored (refreshed cr env l)" "l' = refreshed cr env l" by auto
    moreover from valid have "\<exists>now. lf_clock (refreshed cr env l) = Some now \<and> le_now env 0 \<le> now"
      by (auto simp: refreshed_def license_valid_def verified_license_def Let_def)
    ultimately show ?thesis using valid(1) by (auto simp: license_valid_def)
  qed
  ultimately show ?thesis by blast
qed

subsection \<open>Histories\<close>

text \<open>\<open>OpReplace\<close>: the user puts another file in place of the licence.\<close>

datatype license_op = OpVerify license_env | OpActivate license_env | OpReplace "license_file stored"

fun run_license_op :: "crypto \<Rightarrow> license_op \<Rightarrow> world \<Rightarrow> world" where
  "run_license_op cr (OpVerify env) w = fst (verify_license cr env w)"
| "run_license_op cr (OpActivate env) w = fst (activate_license cr env w)"
| "run_license_op cr (OpReplace f) w = w\<lparr>wd_license := f\<rparr>"

definition run_license :: "crypto \<Rightarrow> license_op list \<Rightarrow> world \<Rightarrow> world" where
  "run_license cr ops w = fold (run_license_op cr) ops w"

text \<open>An activation leaves the world alone or writes the licence with this machine added.\<close>

lemma activate_license_effect:
  "(\<exists>r. activate_license cr env w = (w, r) \<and> (r = Inr () \<longrightarrow> (\<exists>l. wd_license w = Stored l \<and>
      (pl_max_machines (lf_payload l) = 0 \<or> (\<exists>fp. collect_fingerprint env = Inr fp \<and>
        (bound l fp \<and> verify_binding_hmac_compat cr l = Inr () \<or> read_sentinel cr w (pl_license_id (lf_payload l)) \<noteq> Inr None)))))) \<or>
   (\<exists>l fp l'. wd_license w = Stored l \<and> pl_max_machines (lf_payload l) \<noteq> 0 \<and> collect_fingerprint env = Inr fp \<and>
     activated_license cr l fp (le_now env 0) = Inr (Some l') \<and>
     wd_license (fst (activate_license cr env w)) = Stored l')"
proof (cases "read_license w")
  case (Inr l)
  then have stored: "wd_license w = Stored l" by (auto simp: read_license_def split: stored.splits)
  show ?thesis
  proof (cases "verify_signature cr (cr_payload_json cr (lf_payload l)) (lf_signature l)")
    case sig: (Inr u)
    show ?thesis
    proof (cases "pl_max_machines (lf_payload l) = 0 \<or> le_now env 0 - pl_issued_at (lf_payload l)
        > uint (pl_activation_window_days (lf_payload l)) * nanos_per_day")
      case limited: False
      show ?thesis
      proof (cases "collect_fingerprint env")
        case fp: (Inr fp)
        show ?thesis
        proof (cases "read_sentinel cr w (pl_license_id (lf_payload l))")
          case found: (Inr found)
          show ?thesis
          proof (cases "case found of Some s \<Rightarrow> sn_fp s = fp \<and> sn_id s = short_hash cr (pl_license_id (lf_payload l)) | None \<Rightarrow> False")
            case False
            show ?thesis
            proof (cases "activated_license cr l fp (le_now env 0)")
              case activated: (Inr act)
              show ?thesis
              proof (cases act)
                case None
                with activated have "bound l fp" "verify_binding_hmac_compat cr l = Inr ()"
                  by (auto simp: activated_license_def verify_binding_hmac_compat_def bound_def Let_def split: option.splits if_splits)
                with Inr stored sig limited fp found False activated None show ?thesis by (auto simp: activate_license_def Let_def)
              next
                case (Some l')
                with Inr stored sig limited fp found False activated show ?thesis
                  by (cases "le_license_writable env")
                    (auto simp: activate_license_def write_license_atomic_def write_sentinel_def Let_def)
              qed
            qed (use Inr stored sig limited fp found False in \<open>auto simp: activate_license_def Let_def\<close>)
          qed (use Inr stored sig limited fp found in \<open>auto simp: activate_license_def Let_def split: option.splits\<close>)
        qed (use Inr stored sig limited fp in \<open>auto simp: activate_license_def Let_def\<close>)
      qed (use Inr stored sig limited in \<open>auto simp: activate_license_def Let_def\<close>)
    qed (use Inr stored sig in \<open>auto simp: activate_license_def Let_def\<close>)
  qed (use Inr in \<open>auto simp: activate_license_def\<close>)
qed (simp add: activate_license_def)

text \<open>A licence in the state the code leaves it in.\<close>

definition license_kept :: "crypto \<Rightarrow> license_file \<Rightarrow> license_file \<Rightarrow> bool" where
  "license_kept cr l0 l \<longleftrightarrow> lf_payload l = lf_payload l0 \<and> lf_signature l = lf_signature l0 \<and>
     (lf_activation l = None \<longrightarrow> pl_max_machines (lf_payload l0) = 0 \<or> lf_clock l = None) \<and>
     (\<forall>a. lf_activation l = Some a \<longrightarrow> pl_max_machines (lf_payload l0) \<noteq> 0 \<and> hmac_matches cr l a \<and> lf_clock l \<noteq> None \<and>
       distinct (map mb_fingerprint (ac_machines a)) \<and>
       length (ac_machines a) \<le> unat (pl_max_machines (lf_payload l0)))"

definition clock_reached :: "license_file \<Rightarrow> license_file \<Rightarrow> bool" where
  "clock_reached l l' \<longleftrightarrow> (\<forall>c. lf_clock l = Some c \<longrightarrow> (\<exists>c'. lf_clock l' = Some c' \<and> c \<le> c'))"

definition issued :: "license_file \<Rightarrow> bool" where
  "issued l \<longleftrightarrow> lf_activation l = None \<and> lf_clock l = None"

lemma activated_license_kept:
  assumes "license_kept cr l0 l" "activated_license cr l fp now = Inr (Some l')" "pl_max_machines (lf_payload l0) \<noteq> 0"
  shows "license_kept cr l0 l' \<and> clock_reached l l' \<and> bound l' fp"
proof (cases "lf_activation l")
  case None
  with assms show ?thesis
    by (auto simp: activated_license_def license_kept_def clock_reached_def bound_def hmac_matches_def Let_def
        Suc_le_eq unat_gt_0)
next
  case (Some a)
  with assms(2) have act: "l' = (let machines = ac_machines a @ [\<lparr>mb_fingerprint = fp, mb_activated_at = now, mb_last_verified = now\<rparr>];
        clock = (case lf_clock l of None \<Rightarrow> Some now | Some c \<Rightarrow> Some c)
      in l\<lparr>lf_clock := clock, lf_activation := Some \<lparr>ac_machines = machines,
           ac_binding_hmac = compute_binding_hmac cr (lf_signature l) machines clock\<rparr>\<rparr>)"
    "fp \<notin> mb_fingerprint ` set (ac_machines a)" "length (ac_machines a) < unat (pl_max_machines (lf_payload l))"
    by (auto simp: activated_license_def list_ex_iff Let_def split: if_splits)
  with assms(1) Some show ?thesis
    unfolding act(1) by (auto simp: license_kept_def clock_reached_def bound_def hmac_matches_def Let_def)
qed

lemma refreshed_kept:
  assumes "license_kept cr l0 l" "license_valid cr env l" "pl_max_machines (lf_payload l) \<noteq> 0 \<longrightarrow> le_now env 0 \<le> le_now env 1"
  shows "license_kept cr l0 (refreshed cr env l) \<and> clock_reached l (refreshed cr env l)"
proof (cases "pl_max_machines (lf_payload l) = 0")
  case True
  with assms show ?thesis
    by (auto simp: refreshed_def license_kept_def license_valid_def clock_reached_def hmac_matches_def)
next
  case False
  with assms(2) obtain a fp where "lf_activation l = Some a" "collect_fingerprint env = Inr fp" by (auto simp: license_valid_def)
  with False assms show ?thesis
    by (fastforce simp: refreshed_def verified_license_def license_kept_def license_valid_def clock_reached_def hmac_matches_def Let_def)
qed

definition kept_world :: "crypto \<Rightarrow> license_file \<Rightarrow> world \<Rightarrow> bool" where
  "kept_world cr l0 w \<longleftrightarrow> (\<exists>l. wd_license w = Stored l \<and> license_kept cr l0 l)"

lemma run_license_op_kept:
  assumes "wd_license w = Stored l" "license_kept cr l0 l" "\<And>f. op \<noteq> OpReplace f"
  shows "\<exists>l'. wd_license (run_license_op cr op w) = Stored l' \<and> license_kept cr l0 l' \<and> clock_reached l l'"
proof -
  have same: "license_kept cr l0 l \<and> clock_reached l l" using assms(2) by (simp add: clock_reached_def)
  show ?thesis
  proof (cases op)
    case (OpVerify env)
    from verify_license_effect [of cr env w] assms(1)
    consider "fst (verify_license cr env w) = w"
      | "license_valid cr env l" "pl_max_machines (lf_payload l) \<noteq> 0 \<longrightarrow> le_now env 0 \<le> le_now env 1"
        "verify_license cr env w = after_write cr env l w" by fastforce
    then show ?thesis
    proof cases
      case 2
      from after_write_effect [OF prod.collapse [symmetric], of cr env l w] 2(3) assms(1)
      have "wd_license (fst (verify_license cr env w)) \<in> {Stored l, Stored (refreshed cr env l)}" by auto
      with OpVerify same refreshed_kept [OF assms(2) 2(1,2)] show ?thesis by auto
    qed (use OpVerify assms(1) same in auto)
  next
    case (OpActivate env)
    from activate_license_effect [of cr env w] assms(1)
    consider "fst (activate_license cr env w) = w"
      | fp l' where "pl_max_machines (lf_payload l) \<noteq> 0" "activated_license cr l fp (le_now env 0) = Inr (Some l')"
        "wd_license (fst (activate_license cr env w)) = Stored l'" by fastforce
    then show ?thesis
    proof cases
      case 2
      moreover have "pl_max_machines (lf_payload l0) \<noteq> 0" using 2(1) assms(2) by (auto simp: license_kept_def)
      ultimately show ?thesis using OpActivate activated_license_kept [OF assms(2) 2(2)] by auto
    qed (use OpActivate assms(1) same in auto)
  qed (use assms(3) in auto)
qed

lemma clock_reached_trans: "clock_reached a b \<Longrightarrow> clock_reached b c \<Longrightarrow> clock_reached a c"
  by (fastforce simp: clock_reached_def)

lemma run_license_kept:
  assumes "wd_license w = Stored l" "license_kept cr l0 l" "\<forall>f. OpReplace f \<notin> set ops"
  shows "\<exists>l'. wd_license (run_license cr ops w) = Stored l' \<and> license_kept cr l0 l' \<and> clock_reached l l'"
  using assms
proof (induction ops arbitrary: w l)
  case (Cons op ops)
  from Cons.prems(3) have "op \<noteq> OpReplace f" for f by auto
  from run_license_op_kept [OF Cons.prems(1,2) this] obtain l1 where
    l1: "wd_license (run_license_op cr op w) = Stored l1" "license_kept cr l0 l1" "clock_reached l l1" by blast
  from Cons.IH [OF l1(1,2)] Cons.prems(3) l1(3) clock_reached_trans show ?case by (fastforce simp: run_license_def)
qed (auto simp: run_license_def clock_reached_def)

lemma issued_kept: "issued l \<Longrightarrow> license_kept cr l l"
  by (simp add: issued_def license_kept_def)

text \<open>
  C28. Over any sequence of activations and verifications, on whatever machines and with
  whatever system clocks, and whatever of them fails: the payload and its signature stay as
  issued, the machines bound are distinct and at most as many as the licence allows, the
  binding is intact, and the persisted clock never goes back.
\<close>

theorem license_invariant:
  assumes "wd_license w = Stored l" "issued l" "\<forall>f. OpReplace f \<notin> set (ops @ later)"
  shows "\<exists>l1 l2. wd_license (run_license cr ops w) = Stored l1 \<and> wd_license (run_license cr (ops @ later) w) = Stored l2 \<and>
    lf_payload l1 = lf_payload l \<and> lf_signature l1 = lf_signature l \<and>
    (\<forall>a. lf_activation l1 = Some a \<longrightarrow> hmac_matches cr l1 a \<and> distinct (map mb_fingerprint (ac_machines a)) \<and>
      length (ac_machines a) \<le> unat (pl_max_machines (lf_payload l))) \<and>
    (\<forall>c. lf_clock l1 = Some c \<longrightarrow> (\<exists>c'. lf_clock l2 = Some c' \<and> c \<le> c'))"
proof -
  from assms(3) have no: "\<forall>f. OpReplace f \<notin> set ops" "\<forall>f. OpReplace f \<notin> set later" by auto
  from run_license_kept [OF assms(1) issued_kept [OF assms(2)] no(1)] obtain l1 where
    l1: "wd_license (run_license cr ops w) = Stored l1" "license_kept cr l l1" by blast
  from run_license_kept [OF this no(2)] obtain l2 where
    "wd_license (run_license cr (ops @ later) w) = Stored l2" "clock_reached l1 l2" by (auto simp: run_license_def)
  with l1 show ?thesis by (auto simp: license_kept_def clock_reached_def)
qed

text \<open>
  C30. Activation takes effect: after a successful activation of an issued licence, at any
  later time before it expires, with the clock not turned back, the licence is valid on this
  machine - whatever was verified and activated before.
\<close>

theorem activation_makes_valid:
  assumes "wd_license w = Stored l" "issued l" "\<forall>f. OpReplace f \<notin> set ops" "pl_max_machines (lf_payload l) \<noteq> 0"
    "verify_signature cr (cr_payload_json cr (lf_payload l)) (lf_signature l) = Inr ()"
    "wd_sentinels (run_license cr ops w) (sentinel_path cr (pl_license_id (lf_payload l))) = Absent"
    "activate_license cr env (run_license cr ops w) = (w', Inr ())"
  shows "\<exists>l'. wd_license w' = Stored l' \<and> (\<forall>env'. le_machine env' = le_machine env \<longrightarrow>
      (\<forall>c. lf_clock l' = Some c \<longrightarrow> c \<le> le_now env' 0) \<longrightarrow>
      (\<forall>t. pl_expires_at (lf_payload l) = Some t \<longrightarrow> le_now env' 0 \<le> t) \<longrightarrow> license_valid cr env' l')"
proof -
  let ?w = "run_license cr ops w"
  from run_license_kept [OF assms(1) issued_kept [OF assms(2)] assms(3)] obtain l1 where
    l1: "wd_license ?w = Stored l1" "license_kept cr l l1" by blast
  then have p: "lf_payload l1 = lf_payload l" "lf_signature l1 = lf_signature l" by (auto simp: license_kept_def)
  have absent: "read_sentinel cr ?w (pl_license_id (lf_payload l1)) = Inr None"
    using assms(6) p by (simp add: read_sentinel_def)
  from activate_license_effect [of cr env ?w] assms(7) l1 absent p(1) assms(4) obtain l' fp where
    l': "wd_license w' = Stored l'" "collect_fingerprint env = Inr fp" "bound l' fp" "license_kept cr l l'"
    using activated_license_kept [OF l1(2) _ assms(4)] by fastforce
  then have "lf_payload l' = lf_payload l" "lf_signature l' = lf_signature l"
    "\<exists>a. lf_activation l' = Some a \<and> hmac_matches cr l' a"
    by (auto simp: license_kept_def bound_iff)
  with l' assms(4,5) show ?thesis
    by (auto simp: license_valid_def collect_fingerprint_def)
qed

subsection \<open>The sentinel is never found\<close>

lemma write_sentinel_elsewhere:
  "write_sentinel cr env data w = (w', r) \<Longrightarrow> sentinel_path cr (sn_id data) \<noteq> p \<Longrightarrow> wd_sentinels w' p = wd_sentinels w p"
  by (auto simp: write_sentinel_def split: if_splits)

text \<open>All licence files of a history carry the same id.\<close>

definition carries_id :: "string \<Rightarrow> license_file stored \<Rightarrow> bool" where
  "carries_id i f \<longleftrightarrow> (\<forall>l. f = Stored l \<longrightarrow> pl_license_id (lf_payload l) = i)"

lemma activated_license_payload: "activated_license cr l fp now = Inr (Some l') \<Longrightarrow> lf_payload l' = lf_payload l"
  by (auto simp: activated_license_def Let_def split: option.splits if_splits)

lemma read_sentinel_absent: "wd_sentinels w (sentinel_path cr i) = Absent \<Longrightarrow> read_sentinel cr w i = Inr None"
  by (simp add: read_sentinel_def)

lemma write_license_sentinels: "wd_sentinels (fst (write_license_atomic env l w)) = wd_sentinels w"
  by (simp add: write_license_atomic_def)

lemma update_sentinel_absent:
  assumes "wd_sentinels w (sentinel_path cr (pl_license_id (lf_payload l))) = Absent"
    "sentinel_path cr (short_hash cr (pl_license_id (lf_payload l))) \<noteq> sentinel_path cr (pl_license_id (lf_payload l))"
  shows "wd_sentinels (fst (update_sentinel_clock cr env l fp w)) (sentinel_path cr (pl_license_id (lf_payload l))) = Absent"
  using assms
  by (auto simp: update_sentinel_clock_def read_sentinel_absent write_sentinel_def Let_def split: option.split)

lemma after_write_absent:
  assumes "wd_sentinels w (sentinel_path cr (pl_license_id (lf_payload l))) = Absent"
    "sentinel_path cr (short_hash cr (pl_license_id (lf_payload l))) \<noteq> sentinel_path cr (pl_license_id (lf_payload l))"
  shows "wd_sentinels (fst (after_write cr env l w)) (sentinel_path cr (pl_license_id (lf_payload l))) = Absent"
proof (cases "le_license_writable env")
  case True
  let ?w1 = "w\<lparr>wd_license := Stored (refreshed cr env l)\<rparr>"
  let ?fp = "if pl_max_machines (lf_payload l) = 0 then None else (case collect_fingerprint env of Inr fp \<Rightarrow> Some fp | Inl _ \<Rightarrow> None)"
  have "fst (after_write cr env l w) = fst (update_sentinel_clock cr env (refreshed cr env l) ?fp ?w1)"
    using True by (simp add: after_write_def write_license_atomic_def Let_def split: prod.split sum.split)
  with update_sentinel_absent [of ?w1 cr "refreshed cr env l" env ?fp] assms show ?thesis by simp
qed (use assms in \<open>simp add: after_write_def write_license_atomic_def Let_def\<close>)

definition harmless :: "license_error + 'a \<Rightarrow> bool" where
  "harmless r \<longleftrightarrow> (\<forall>e. r = Inl e \<longrightarrow> e \<noteq> SentinelMismatch \<and> (\<forall>s c. e \<noteq> LicenseFileRestored s c))"

lemma harmless_attempt [intro]:
  "harmless r \<Longrightarrow> (\<And>x. r = Inr x \<Longrightarrow> harmless (snd (k x))) \<Longrightarrow> harmless (snd (attempt w r k))"
  by (cases r) (auto simp: harmless_def)

lemma harmless_Inr [simp]: "harmless (Inr x)"
  by (simp add: harmless_def)

lemma harmless_checks [simp]:
  "harmless (read_license w)" "harmless (verify_signature cr j s)" "harmless (read_clock env l)"
  "harmless (check_expiry_with_clock l now)" "harmless (verify_binding_hmac_compat cr l)" "harmless (collect_fingerprint env)"
  "harmless (clock_advance v t)" "harmless (require b MachineBindingMismatch)" "harmless (read_sentinel cr w i)"
  "harmless (snd (write_sentinel cr env d w))" "harmless (snd (write_license_atomic env l w))"
  by (auto simp: harmless_def read_license_def verify_signature_def read_clock_def check_expiry_with_clock_def
      verify_binding_hmac_compat_def collect_fingerprint_def clock_advance_def require_def read_sentinel_def
      from_persisted_def write_sentinel_def write_license_atomic_def split: stored.splits option.splits if_splits)

lemma harmless_update [simp]: "harmless (snd (update_sentinel_clock cr env l fp w))"
  unfolding update_sentinel_clock_def Let_def
  by (intro harmless_attempt) (auto split: option.split)

lemma harmless_after_write [simp]: "harmless (snd (after_write cr env l w))"
  using harmless_checks(11) [of env "refreshed cr env l" w] harmless_update
  by (auto simp: after_write_def harmless_def Let_def split: prod.split sum.split) (metis snd_conv)+

lemma verify_license_harmless:
  assumes "\<And>l fp. wd_license w = Stored l \<Longrightarrow> harmless (check_sentinel cr w l fp)"
  shows "harmless (snd (verify_license cr env w))"
proof -
  have written: "harmless (snd (case write_license_atomic env l' w of
      (w1, Inl e) \<Rightarrow> (w1, Inl e)
    | (w1, Inr _) \<Rightarrow> (case update_sentinel_clock cr env l' fp w1 of (w2, Inl e) \<Rightarrow> (w2, Inl e) | (w2, Inr _) \<Rightarrow> (w2, Inr l'))))"
    for l' fp
    using harmless_checks(11) [of env l' w] harmless_update
    by (auto simp: harmless_def split: prod.split sum.split) (metis snd_conv)+
  have stored: "wd_license w = Stored l" if "read_license w = Inr l" for l
    using that by (auto simp: read_license_def split: stored.splits)
  show ?thesis
    unfolding verify_license_def Let_def
    by (auto intro!: harmless_attempt written assms [OF stored] simp: harmless_def [of "Inl NotActivated"] split: option.split)
qed

text \<open>
  C31. The sentinel is never found. Whatever is activated, verified or replaced, no sentinel
  of a licence is ever found where it is looked for: it is written under the hash of its
  hash. So putting an older copy of the licence file back is never reported, and the
  verification only goes by what that copy says.
\<close>

theorem sentinel_is_never_found:
  assumes "short_hash cr (short_hash cr i) \<noteq> short_hash cr i"
    "wd_sentinels w (sentinel_path cr i) = Absent" "carries_id i (wd_license w)"
    "\<forall>f. OpReplace f \<in> set ops \<longrightarrow> carries_id i f"
  shows "wd_sentinels (run_license cr ops w) (sentinel_path cr i) = Absent \<and>
    snd (verify_license cr env (run_license cr ops w)) \<noteq> Inl SentinelMismatch \<and>
    (\<forall>s c. snd (verify_license cr env (run_license cr ops w)) \<noteq> Inl (LicenseFileRestored s c))"
proof -
  have paths: "sentinel_path cr (short_hash cr i) \<noteq> sentinel_path cr i" using assms(1) by (simp add: sentinel_path_def)
  have keep: "wd_sentinels (run_license_op cr op w) (sentinel_path cr i) = Absent \<and> carries_id i (wd_license (run_license_op cr op w))"
    if "wd_sentinels w (sentinel_path cr i) = Absent" "carries_id i (wd_license w)" "\<forall>f. op = OpReplace f \<longrightarrow> carries_id i f" for op w
  proof (cases op)
    case (OpVerify env)
    from verify_license_effect [of cr env w] that(2)
    consider "fst (verify_license cr env w) = w"
      | l where "verify_license cr env w = after_write cr env l w" "pl_license_id (lf_payload l) = i" "wd_license w = Stored l"
      by (fastforce simp: carries_id_def)
    then show ?thesis
    proof cases
      case 2
      with after_write_absent [of w cr l env] after_write_effect [OF prod.collapse [symmetric], of cr env l w] that paths OpVerify
      show ?thesis by (auto simp: carries_id_def)
    qed (use that OpVerify in simp)
  next
    case (OpActivate env)
    have "wd_sentinels (fst (activate_license cr env w)) (sentinel_path cr i) = Absent"
      using that paths
      by (auto simp: activate_license_def attempt_def write_license_atomic_def write_sentinel_def carries_id_def read_license_def Let_def
          split: sum.split option.split stored.splits)
    moreover have "carries_id i (wd_license (fst (activate_license cr env w)))"
      using activate_license_effect [of cr env w] that(2)
      by (auto simp: carries_id_def dest: activated_license_payload)
    ultimately show ?thesis using OpActivate by simp
  qed (use that in simp)
  have run: "wd_sentinels (run_license cr ops w) (sentinel_path cr i) = Absent \<and> carries_id i (wd_license (run_license cr ops w))"
    using assms(2-4)
  proof (induction ops arbitrary: w)
    case (Cons op ops)
    from keep [OF Cons.prems(1,2), of op] Cons.prems(3) Cons.IH [of "run_license_op cr op w"] show ?case
      by (simp add: run_license_def)
  qed (simp add: run_license_def)
  have "harmless (snd (verify_license cr env (run_license cr ops w)))"
    by (rule verify_license_harmless) (use run in \<open>auto simp: check_sentinel_def carries_id_def read_sentinel_absent\<close>)
  then have "snd (verify_license cr env (run_license cr ops w)) \<noteq> Inl SentinelMismatch \<and>
      (\<forall>s c. snd (verify_license cr env (run_license cr ops w)) \<noteq> Inl (LicenseFileRestored s c))"
    unfolding harmless_def by blast
  with run show ?thesis by blast
qed

subsection \<open>A licence for two machines\<close>

definition toy_crypto :: crypto where
  "toy_crypto = \<lparr>cr_public_key = ''key'', cr_secret = [], cr_base64 = (\<lambda>s. Some (replicate (if s = ''key'' then 32 else 64) 0)),
     cr_valid_key = (\<lambda>_. True), cr_verify_strict = (\<lambda>_ _ _. True), cr_hkdf = (\<lambda>_ _. []), cr_hmac = (\<lambda>_ m. m),
     cr_sha256 = (\<lambda>s. CHR ''x'' # s), cr_payload_json = (\<lambda>_. ''{}''), cr_rfc3339 = (\<lambda>_. ''t'')\<rparr>"

definition toy_license :: license_file where
  "toy_license = \<lparr>lf_payload = \<lparr>pl_license_id = ''id'', pl_licensee = ''me'', pl_issued_at = 0, pl_expires_at = Some 1000,
     pl_activation_window_days = 7, pl_max_machines = 2\<rparr>, lf_signature = ''sig'', lf_activation = None, lf_clock = None\<rparr>"

definition toy_world :: world where
  "toy_world = \<lparr>wd_license = Stored toy_license, wd_sentinels = (\<lambda>_. Absent)\<rparr>"

definition toy_license_env :: "int \<Rightarrow> license_env" where
  "toy_license_env t = \<lparr>le_now = (\<lambda>n. t + int n), le_machine = Some ''m'', le_license_writable = True, le_sentinel_writable = True\<rparr>"

lemmas toy_license_defs = toy_crypto_def toy_license_def toy_world_def toy_license_env_def

lemma toy_signature: "verify_signature toy_crypto j ''sig'' = Inr ()"
  by (simp add: verify_signature_def toy_crypto_def require_def)

lemma toy_issued: "wd_license toy_world = Stored toy_license" "issued toy_license"
  by (simp_all add: toy_license_defs issued_def)

lemma toy_paths: "sentinel_path toy_crypto ''xid'' \<noteq> sentinel_path toy_crypto ''id''"
  "short_hash toy_crypto ''id'' = ''xid''" "short_hash toy_crypto ''xid'' = ''xxid''"
  by (simp_all add: sentinel_path_def short_hash_def toy_crypto_def)

definition toy_activated :: license_file where
  "toy_activated = (let ms = [\<lparr>mb_fingerprint = ''m'', mb_activated_at = 10, mb_last_verified = 10\<rparr>]
     in toy_license\<lparr>lf_clock := Some 10, lf_activation := Some \<lparr>ac_machines = ms,
       ac_binding_hmac = compute_binding_hmac toy_crypto ''sig'' ms (Some 10)\<rparr>\<rparr>)"

lemma toy_activation:
  "snd (activate_license toy_crypto (toy_license_env 10) toy_world) = Inr ()"
  "wd_license (fst (activate_license toy_crypto (toy_license_env 10) toy_world)) = Stored toy_activated"
  "wd_sentinels (fst (activate_license toy_crypto (toy_license_env 10) toy_world)) (sentinel_path toy_crypto ''id'') = Absent"
proof -
  have "activate_license toy_crypto (toy_license_env 10) toy_world
      = write_sentinel toy_crypto (toy_license_env 10) \<lparr>sn_id = ''xid'', sn_fp = ''m'', sn_ts = 10, sn_ck = 10,
          sn_hm = compute_sentinel_hmac toy_crypto ''xid'' ''m'' 10\<rparr> (toy_world\<lparr>wd_license := Stored toy_activated\<rparr>)"
    using toy_paths(2)
    by (simp add: activate_license_def toy_world_def read_license_def toy_license_def toy_signature read_sentinel_def
        collect_fingerprint_def toy_license_env_def activated_license_def write_license_atomic_def toy_activated_def
        nanos_per_day_def Let_def)
  with toy_paths(1) show "snd (activate_license toy_crypto (toy_license_env 10) toy_world) = Inr ()"
    "wd_license (fst (activate_license toy_crypto (toy_license_env 10) toy_world)) = Stored toy_activated"
    "wd_sentinels (fst (activate_license toy_crypto (toy_license_env 10) toy_world)) (sentinel_path toy_crypto ''id'') = Absent"
    by (simp_all add: write_sentinel_def toy_license_env_def toy_world_def)
qed

lemma toy_valid: "license_valid toy_crypto (toy_license_env 20) toy_activated"
  by (simp add: license_valid_def toy_activated_def toy_license_def toy_signature toy_license_env_def collect_fingerprint_def
      hmac_matches_def bound_def Let_def)

lemma verification_accepts_exactly_valid_licenses_witness:
  "\<exists>w' l'. verify_license toy_crypto (toy_license_env 20) (toy_world\<lparr>wd_license := Stored toy_activated\<rparr>) = (w', Inr l') \<and>
    (\<exists>now. lf_clock l' = Some now \<and> 20 \<le> now)"
proof -
  let ?w = "toy_world\<lparr>wd_license := Stored toy_activated\<rparr>" and ?env = "toy_license_env 20"
  have h: "wd_license ?w = Stored toy_activated" "le_license_writable ?env" "le_sentinel_writable ?env"
    "wd_sentinels ?w (sentinel_path toy_crypto (pl_license_id (lf_payload toy_activated))) = Absent" "le_now ?env 0 = 20"
    "le_now ?env 0 \<le> le_now ?env 1"
    by (simp_all add: toy_license_env_def toy_world_def)
  note accepts = verification_accepts_exactly_valid_licenses [OF h(1-4)]
  from accepts toy_valid h(6) obtain w' l' where "verify_license toy_crypto ?env ?w = (w', Inr l')" by blast
  with accepts [of w' l'] h(5) show ?thesis by auto
qed

lemma license_invariant_witness:
  "\<exists>l2. wd_license (run_license toy_crypto ([OpActivate (toy_license_env 10)] @ [OpVerify (toy_license_env 5)]) toy_world) = Stored l2 \<and>
    (\<exists>c'. lf_clock l2 = Some c' \<and> 10 \<le> c')"
proof -
  have "\<forall>f. OpReplace f \<notin> set ([OpActivate (toy_license_env 10)] @ [OpVerify (toy_license_env 5)])" by simp
  from license_invariant [OF toy_issued this, of toy_crypto] toy_activation(2) show ?thesis
    by (auto simp: run_license_def toy_activated_def Let_def)
qed

lemma activation_makes_valid_witness:
  "\<exists>l'. wd_license (fst (activate_license toy_crypto (toy_license_env 10) toy_world)) = Stored l' \<and>
    license_valid toy_crypto (toy_license_env 20) l'"
proof -
  have h: "\<forall>f. OpReplace f \<notin> set ([] :: license_op list)" "pl_max_machines (lf_payload toy_license) \<noteq> 0"
    "verify_signature toy_crypto (cr_payload_json toy_crypto (lf_payload toy_license)) (lf_signature toy_license) = Inr ()"
    "wd_sentinels (run_license toy_crypto [] toy_world) (sentinel_path toy_crypto (pl_license_id (lf_payload toy_license))) = Absent"
    by (simp_all add: toy_license_def toy_signature run_license_def toy_world_def)
  have run: "activate_license toy_crypto (toy_license_env 10) (run_license toy_crypto [] toy_world)
      = (fst (activate_license toy_crypto (toy_license_env 10) toy_world), Inr ())"
    using toy_activation(1) by (simp add: run_license_def prod_eq_iff)
  from activation_makes_valid [OF toy_issued h run] toy_activation(2) show ?thesis
    by (auto simp: toy_activated_def toy_license_def toy_license_env_def Let_def)
qed

lemma sentinel_is_never_found_witness:
  "snd (verify_license toy_crypto (toy_license_env 20)
      (run_license toy_crypto [OpActivate (toy_license_env 10), OpReplace (Stored toy_license)] toy_world)) \<noteq> Inl (LicenseFileRestored 10 0)"
proof -
  have "short_hash toy_crypto (short_hash toy_crypto ''id'') \<noteq> short_hash toy_crypto ''id''" using toy_paths by simp
  from sentinel_is_never_found [OF this, of toy_world "[OpActivate (toy_license_env 10), OpReplace (Stored toy_license)]"]
  show ?thesis by (simp add: toy_world_def carries_id_def toy_license_def)
qed

text \<open>
  Were the sentinel found, the one a first verification writes would not pass: its HMAC is
  taken over the id of the licence, and checked over the hash of it.
\<close>

lemma migrated_sentinel_is_rejected:
  assumes "compute_sentinel_hmac cr i fp t \<noteq> compute_sentinel_hmac cr (short_hash cr i) fp t"
  shows "verify_sentinel cr \<lparr>sn_id = short_hash cr i, sn_fp = fp, sn_ts = t, sn_ck = t,
    sn_hm = compute_sentinel_hmac cr i fp t\<rparr> fp clock = Inl BindingHmacInvalid"
  using assms by (auto simp: verify_sentinel_def verify_sentinel_hmac_def require_def)

end
