(* ===== verification/ScanStore.thy ===== *)
theory ScanStore
  imports Prelude "HOL-Library.Multiset" "HOL-Library.Sublist"
begin

section \<open>The resume state of a scan and its snapshots (crates/db/src/scan)\<close>

text \<open>
  The cluster layout of the scan store: the manifest of a round (\<open>model.rs\<close>), the immutable
  snapshots of the working tables (\<open>checkpoint.rs\<close>) and the store around them (\<open>mod.rs\<close>,
  \<open>cluster/mod.rs\<close>). A table is the multiset of its rows, of a type left open; only the
  partition of one job is looked at, and its lease excludes other writers. Every statement and
  every query takes one verdict of a script: it is acknowledged, or it fails with an error -
  having been applied or not. A crash is a script whose verdicts all fail from some point on,
  a cancellation is a failure with \<open>ScanCancelled\<close>.
\<close>

subsection \<open>The manifest (model.rs)\<close>

datatype scan_error =
    DatabaseFailed | DatabaseTransient | ScanCancelled | SnapshotMissing | InvalidResumeState | RequestDiffers
  | VersionOverflow | EpochOverflow | GenerationConflict | ResultsMissing | StatisticsInconsistent
  | ScanIncomplete | SourceFailed | ProgressInvalid | IdentifiersExhausted

definition RUNNING :: u8 where "RUNNING = 0"
definition FINALIZING :: u8 where "FINALIZING = 1"
definition COMPLETED :: u8 where "COMPLETED = 2"
definition ABANDONED :: u8 where "ABANDONED = 3"

lemmas phase_defs = RUNNING_def FINALIZING_def COMPLETED_def ABANDONED_def

text \<open>An \<open>i64\<close> time is a word read with its sign, so the cast to \<open>u64\<close> keeps it.\<close>

record scan_state =
  ss_id :: u8
  ss_schema_version :: u8
  ss_version :: u64
  ss_request_key :: string
  ss_generation :: u8
  ss_incremental :: bool
  ss_phase :: u8
  ss_event_time :: u64
  ss_observed_entries :: u64
  ss_checkpoint :: bytes
  ss_statistics :: string
  ss_baseline_snapshot :: string
  ss_checkpoint_snapshot :: string

definition validate_envelope :: "scan_state \<Rightarrow> scan_error + unit" where
  "validate_envelope s =
     (if ss_schema_version s \<noteq> 1 \<or> ss_id s \<noteq> 1 \<or> ss_generation s > 1 \<or> ss_phase s > ABANDONED
      then Inl InvalidResumeState else Inr ())"

definition validate_state :: "string \<Rightarrow> scan_state \<Rightarrow> scan_error + unit" where
  "validate_state request_key s =
     (case validate_envelope s of
        Inl e \<Rightarrow> Inl e
      | Inr _ \<Rightarrow> if ss_request_key s \<noteq> request_key then Inl RequestDiffers else Inr ())"

definition advance :: "scan_state \<Rightarrow> scan_error + scan_state" where
  "advance s = (case checked_add (ss_version s) 1 of None \<Rightarrow> Inl VersionOverflow | Some v \<Rightarrow> Inr (s\<lparr>ss_version := v\<rparr>))"

definition active :: "scan_state \<Rightarrow> bool" where
  "active s \<longleftrightarrow> ss_phase s = RUNNING \<or> ss_phase s = FINALIZING"

record committed_scan =
  cs_generation :: u8
  cs_epoch :: u64

subsection \<open>The database and its verdicts\<close>

datatype verdict = Acknowledged | Lost bool scan_error

text \<open>
  The tables by name, the rows of \<open>scan_resume\<close> and \<open>state\<close> in the order of insertion, the
  epoch and generation the process holds in memory, and the supply of identifiers.
\<close>

record 'r scan_db =
  sd_tables :: "(string \<times> 'r multiset) list"
  sd_manifests :: "scan_state list"
  sd_commits :: "committed_scan list"
  sd_epoch :: u64
  sd_generation :: u8
  sd_uuids :: "string list"
  sd_faults :: "verdict list"

type_synonym ('r, 'a) io = "'r scan_db \<Rightarrow> 'r scan_db \<times> (scan_error + 'a)"

definition io_return :: "'a \<Rightarrow> ('r, 'a) io" where
  "io_return x = (\<lambda>w. (w, Inr x))"

definition io_lift :: "scan_error + 'a \<Rightarrow> ('r, 'a) io" where
  "io_lift r = (\<lambda>w. (w, r))"

definition io_bind :: "('r, 'a) io \<Rightarrow> ('a \<Rightarrow> ('r, 'b) io) \<Rightarrow> ('r, 'b) io" where
  "io_bind m f = (\<lambda>w. case m w of (w', Inl e) \<Rightarrow> (w', Inl e) | (w', Inr x) \<Rightarrow> f x w')"

definition io_then :: "('r, unit) io \<Rightarrow> ('r, 'b) io \<Rightarrow> ('r, 'b) io" where
  "io_then m k = io_bind m (\<lambda>_. k)"

text \<open>Both run to their end before either result is looked at (\<open>tokio::join\<close>).\<close>

definition io_both :: "('r, unit) io \<Rightarrow> ('r, unit) io \<Rightarrow> ('r, unit) io" where
  "io_both m k = (\<lambda>w. case m w of (w', r) \<Rightarrow> (case k w' of (w'', r') \<Rightarrow> (w'', case r of Inl e \<Rightarrow> Inl e | Inr _ \<Rightarrow> r')))"

primrec io_all :: "('r, unit) io list \<Rightarrow> ('r, unit) io" where
  "io_all [] = io_return ()"
| "io_all (m # ms) = io_both m (io_all ms)"

primrec io_sequence :: "('r, unit) io list \<Rightarrow> ('r, unit) io" where
  "io_sequence [] = io_return ()"
| "io_sequence (m # ms) = io_then m (io_sequence ms)"

definition io_modify :: "('r scan_db \<Rightarrow> 'r scan_db) \<Rightarrow> ('r, unit) io" where
  "io_modify f = (\<lambda>w. (f w, Inr ()))"

text \<open>A statement the server rejects leaves the database as it is.\<close>

definition statement :: "('r scan_db \<Rightarrow> 'r scan_db option) \<Rightarrow> ('r, unit) io" where
  "statement f = (\<lambda>w.
     let run = (\<lambda>w. case f w of None \<Rightarrow> (w, Inl DatabaseFailed) | Some w' \<Rightarrow> (w', Inr ()))
     in case sd_faults w of
          [] \<Rightarrow> run w
        | Acknowledged # fs \<Rightarrow> run (w\<lparr>sd_faults := fs\<rparr>)
        | Lost applied e # fs \<Rightarrow>
            (if applied then fst (run (w\<lparr>sd_faults := fs\<rparr>)) else w\<lparr>sd_faults := fs\<rparr>, Inl e))"

definition fetch :: "('r scan_db \<Rightarrow> 'a) \<Rightarrow> ('r, 'a) io" where
  "fetch q = io_then (statement Some) (\<lambda>w. (w, Inr (q w)))"

text \<open>\<open>execute_request\<close>: a transient failure is tried again, up to a number of restarts the recovery window admits.\<close>

primrec retried :: "nat \<Rightarrow> ('r, 'a) io \<Rightarrow> ('r, 'a) io" where
  "retried 0 m = m"
| "retried (Suc n) m = (\<lambda>w. case m w of (w', r) \<Rightarrow> if r = Inl DatabaseTransient then retried n m w' else (w', r))"

text \<open>\<open>ReplacingMergeTree\<close> read with FINAL: the row of the greatest version, the last one of several.\<close>

fun latest_by :: "('a \<Rightarrow> int) \<Rightarrow> 'a list \<Rightarrow> 'a option" where
  "latest_by f [] = None"
| "latest_by f (r # rs) = (case latest_by f rs of None \<Rightarrow> Some r | Some r' \<Rightarrow> if f r' \<ge> f r then Some r' else Some r)"

definition manifest :: "'r scan_db \<Rightarrow> scan_state option" where
  "manifest w = latest_by (\<lambda>s. uint (ss_version s)) (sd_manifests w)"

definition committed_row :: "'r scan_db \<Rightarrow> committed_scan option" where
  "committed_row w = latest_by (\<lambda>c. sint (cs_epoch c)) (sd_commits w)"

definition table_of :: "string \<Rightarrow> 'r scan_db \<Rightarrow> 'r multiset option" where
  "table_of t w = map_of (sd_tables w) t"

definition set_table :: "string \<Rightarrow> 'r multiset \<Rightarrow> 'r scan_db \<Rightarrow> 'r scan_db" where
  "set_table t rows w = w\<lparr>sd_tables := (t, rows) # filter (\<lambda>(n, _). n \<noteq> t) (sd_tables w)\<rparr>"

definition remove_table :: "string \<Rightarrow> 'r scan_db \<Rightarrow> 'r scan_db" where
  "remove_table t w = w\<lparr>sd_tables := filter (\<lambda>(n, _). n \<noteq> t) (sd_tables w)\<rparr>"

subsection \<open>Statements\<close>

definition create_table :: "string \<Rightarrow> ('r, unit) io" where
  "create_table t = statement (\<lambda>w. if table_of t w = None then Some (set_table t {#} w) else None)"

definition create_table_if_absent :: "string \<Rightarrow> ('r, unit) io" where
  "create_table_if_absent t = statement (\<lambda>w. Some (if table_of t w = None then set_table t {#} w else w))"

definition attach_from :: "string \<Rightarrow> string \<Rightarrow> ('r, unit) io" where
  "attach_from target original = statement (\<lambda>w.
     case (table_of target w, table_of original w) of
       (Some rows, Some copied) \<Rightarrow> Some (set_table target (rows + copied) w) | _ \<Rightarrow> None)"

definition drop_partition :: "string \<Rightarrow> ('r, unit) io" where
  "drop_partition t = statement (\<lambda>w. case table_of t w of Some _ \<Rightarrow> Some (set_table t {#} w) | None \<Rightarrow> None)"

definition drop_snapshot :: "string \<Rightarrow> ('r, unit) io" where
  "drop_snapshot t = statement (\<lambda>w. Some (remove_table t w))"

definition synchronize :: "string \<Rightarrow> ('r, unit) io" where
  "synchronize t = statement (\<lambda>w. if table_of t w = None then None else Some w)"

definition await_prior_operations :: "('r, unit) io" where
  "await_prior_operations = fetch (\<lambda>_. ())"

subsection \<open>Snapshots (checkpoint.rs)\<close>

definition hex_digit :: "char \<Rightarrow> bool" where
  "hex_digit c \<longleftrightarrow> c \<in> set ''0123456789abcdefABCDEF''"

definition cut_name :: "string \<Rightarrow> string \<Rightarrow> bool \<Rightarrow> scan_error + string" where
  "cut_name p token events =
     (if length token \<noteq> 32 \<or> \<not> list_all hex_digit token then Inl SnapshotMissing
      else Inr (p @ token @ ''_'' @ (if events then ''events'' else ''base'')))"

definition source_table :: "bool \<Rightarrow> string" where
  "source_table events = (if events then ''incremental'' else ''base'')"

definition local_table :: "string \<Rightarrow> string" where
  "local_table t = t @ ''_local''"

text \<open>The distributed table over a replicated one holds no rows of its own.\<close>

definition clone_table :: "string \<Rightarrow> string \<Rightarrow> ('r, unit) io" where
  "clone_table source snap =
     io_then (synchronize (local_table source))
    (io_then (create_table (local_table snap))
    (io_then (create_table snap)
    (io_then (attach_from (local_table snap) (local_table source))
             (synchronize (local_table snap)))))"

text \<open>
  Random identifiers are drawn from a supply; what the code relies on is that none repeats, so
  the supply is finite and an empty one is an error of its own.
\<close>

definition new_uuid :: "('r, string) io" where
  "new_uuid = (\<lambda>w. case sd_uuids w of
     [] \<Rightarrow> (w, Inl IdentifiersExhausted) | token # rest \<Rightarrow> (w\<lparr>sd_uuids := rest\<rparr>, Inr token))"

definition capture_once :: "string \<Rightarrow> ('r, string) io" where
  "capture_once p =
     io_bind new_uuid (\<lambda>token.
     io_bind (io_lift (cut_name p token False)) (\<lambda>base.
     io_bind (io_lift (cut_name p token True)) (\<lambda>events.
     io_then (io_both (clone_table (source_table False) base) (clone_table (source_table True) events))
     (io_return token))))"

definition capture :: "string \<Rightarrow> nat \<Rightarrow> ('r, string) io" where
  "capture p restarts = io_then await_prior_operations (retried restarts (capture_once p))"

definition check_cut :: "string \<Rightarrow> ('r, unit) io" where
  "check_cut snap =
     io_bind (fetch (\<lambda>w. table_of snap w \<noteq> None)) (\<lambda>found.
       if found then synchronize (local_table snap) else io_lift (Inl SnapshotMissing))"

definition restore_table :: "string \<Rightarrow> string \<Rightarrow> ('r, unit) io" where
  "restore_table snap source =
     io_then (drop_partition (local_table source))
    (io_then await_prior_operations
    (io_then (attach_from (local_table source) (local_table snap))
    (io_then await_prior_operations
             (synchronize (local_table source)))))"

definition restore :: "string \<Rightarrow> string \<Rightarrow> ('r, unit) io" where
  "restore p token =
     io_then await_prior_operations
    (io_bind (io_lift (cut_name p token False)) (\<lambda>base.
     io_bind (io_lift (cut_name p token True)) (\<lambda>events.
     io_then (check_cut base)
    (io_then (check_cut events)
    (io_then (restore_table base (source_table False))
             (restore_table events (source_table True)))))))"

text \<open>After the manifest is acknowledged, tables it does not refer to go, four at a time.\<close>

definition kept :: "string \<Rightarrow> string list \<Rightarrow> string \<Rightarrow> bool" where
  "kept p keep t \<longleftrightarrow> list_ex (\<lambda>token. token \<noteq> [] \<and> prefix (p @ token @ ''_'') t) keep"

definition cleanup :: "string \<Rightarrow> string list \<Rightarrow> ('r, unit) io" where
  "cleanup p keep =
     io_bind (fetch (\<lambda>w. filter (prefix p) (map fst (sd_tables w)))) (\<lambda>tables.
       io_sequence (map (\<lambda>group. io_all (map drop_snapshot group))
         (chunks 4 (filter (\<lambda>t. \<not> kept p keep t) tables))))"


subsection \<open>The store (scan/mod.rs, cluster/mod.rs)\<close>

definition batch_cleanup :: "('r, unit) io" where
  "batch_cleanup = fetch (\<lambda>_. ())"

text \<open>Tables of the schema are created if they are missing; those of a job's batches are swept.\<close>

definition initialize_schema :: "('r, unit) io" where
  "initialize_schema =
     io_then (create_table_if_absent (local_table (source_table False)))
             (create_table_if_absent (local_table (source_table True)))"

definition load_state :: "('r, scan_state option) io" where
  "load_state =
     io_then initialize_schema
    (io_then batch_cleanup
    (io_bind (fetch manifest) (\<lambda>row.
       case row of
         None \<Rightarrow> io_return None
       | Some s \<Rightarrow>
           io_bind (io_lift (validate_state (ss_request_key s) s)) (\<lambda>_.
           if sint (ss_event_time s) < 0 then io_lift (Inl InvalidResumeState)
           else io_then (io_modify (\<lambda>w. w\<lparr>sd_epoch := ss_event_time s\<rparr>)) (io_return (Some s))))))"

definition load_resume_state :: "('r, scan_state option) io" where
  "load_resume_state = io_then await_prior_operations load_state"

definition save_resume_state :: "nat \<Rightarrow> scan_state \<Rightarrow> ('r, unit) io" where
  "save_resume_state restarts s =
     retried restarts
      (io_then (io_modify (\<lambda>w. w\<lparr>sd_epoch := ss_event_time s, sd_generation := ss_generation s\<rparr>))
               (statement (\<lambda>w. Some (w\<lparr>sd_manifests := sd_manifests w @ [s]\<rparr>))))"

definition committed :: "('r, committed_scan option) io" where
  "committed = fetch committed_row"

definition has_baseline :: "('r, bool) io" where
  "has_baseline = io_bind committed (\<lambda>c. io_return (c \<noteq> None))"

definition results_exist :: "('r, bool) io" where
  "results_exist = fetch (\<lambda>w. manifest w \<noteq> None)"

definition resume_execution_is_incremental :: "('r, bool) io" where
  "resume_execution_is_incremental =
     io_bind (fetch manifest) (\<lambda>row.
       case row of
         Some s \<Rightarrow> if ss_phase s \<le> FINALIZING then io_return (ss_incremental s) else has_baseline
       | None \<Rightarrow> has_baseline)"

definition begin_scan_generation :: "('r, u8) io" where
  "begin_scan_generation =
     io_bind committed (\<lambda>c. io_return (1 - (case c of None \<Rightarrow> 0 | Some s \<Rightarrow> cs_generation s)))"

text \<open>Whether the round of the manifest has been committed already.\<close>

definition restore_resume_generation :: "scan_state \<Rightarrow> ('r, bool) io" where
  "restore_resume_generation s =
     io_then (io_modify (\<lambda>w. w\<lparr>sd_epoch := ss_event_time s, sd_generation := ss_generation s\<rparr>))
    (io_bind committed (\<lambda>c.
       case c of
         None \<Rightarrow> io_return False
       | Some d \<Rightarrow>
           if cs_epoch d = ss_event_time s then
             (if ss_phase s \<noteq> FINALIZING then io_lift (Inl GenerationConflict) else io_return True)
           else if cs_generation d = ss_generation s then io_lift (Inl GenerationConflict)
           else io_return False))"

definition commit_scan_generation :: "nat \<Rightarrow> ('r, unit) io" where
  "commit_scan_generation restarts =
     retried restarts
      (io_bind (\<lambda>w. (w, Inr (sd_epoch w))) (\<lambda>epoch.
       io_bind (fetch manifest) (\<lambda>row.
         case row of
           None \<Rightarrow> io_lift (Inl DatabaseFailed)
         | Some s \<Rightarrow>
             statement (\<lambda>w. Some (w\<lparr>sd_commits := sd_commits w @ [\<lparr>cs_generation = ss_generation s, cs_epoch = epoch\<rparr>]\<rparr>)))))"

text \<open>The epoch of a round lies after the one of the saved manifest, whatever the clock says.\<close>

definition i64_max :: u64 where
  "i64_max = 2 ^ 63 - 1"

lemma i64_max_code [code]: "i64_max = 0x7FFFFFFFFFFFFFFF"
  by (simp add: i64_max_def)

definition next_epoch :: "u64 \<Rightarrow> u64 \<Rightarrow> scan_error + u64" where
  "next_epoch now saved =
     (if saved = i64_max then Inl EpochOverflow
      else Inr (if sint now < sint (saved + 1) then saved + 1 else now))"

definition resume_event_epoch :: "u64 \<Rightarrow> ('r, u64) io" where
  "resume_event_epoch now =
     io_bind (fetch manifest) (\<lambda>row.
       io_lift (next_epoch now (case row of None \<Rightarrow> 0 | Some s \<Rightarrow> ss_event_time s)))"

definition cleanup_scan_snapshots :: "string \<Rightarrow> scan_state \<Rightarrow> ('r, unit) io" where
  "cleanup_scan_snapshots p s = (\<lambda>w.
     let keep = (if active s then [ss_baseline_snapshot s, ss_checkpoint_snapshot s] else [])
     in case cleanup p keep w of
          (w', Inl e) \<Rightarrow> (w', if e = ScanCancelled then Inl e else Inr ())
        | (w', Inr _) \<Rightarrow> (w', Inr ()))"

text \<open>The writers have stopped: copy the facts, then publish a manifest that refers to the copy.\<close>

definition seal_resume_state :: "string \<Rightarrow> nat \<Rightarrow> scan_state \<Rightarrow> ('r, scan_state) io" where
  "seal_resume_state p restarts s =
     io_bind (capture p restarts) (\<lambda>token.
       let s' = s\<lparr>ss_checkpoint_snapshot := token\<rparr>
       in io_then (save_resume_state restarts s')
         (io_then (cleanup_scan_snapshots p s') (io_return s')))"

text \<open>
  The partitions of a job go one after the other, each table looked up first; those of the two
  tables of the store itself always exist here.
\<close>

definition clear_partition :: "string \<Rightarrow> ('r, unit) io" where
  "clear_partition t =
     io_bind (fetch (\<lambda>w. table_of t w \<noteq> None)) (\<lambda>found. if found then drop_partition t else io_return ())"

definition clear_cluster_job :: "('r, unit) io" where
  "clear_cluster_job =
     io_then (clear_partition (local_table (source_table False)))
    (io_then (clear_partition (local_table (source_table True)))
    (io_then (fetch (\<lambda>_. ()))
    (io_then (statement (\<lambda>w. Some (w\<lparr>sd_commits := []\<rparr>)))
    (io_then (fetch (\<lambda>_. ()))
    (io_then (statement (\<lambda>w. Some (w\<lparr>sd_manifests := []\<rparr>)))
             batch_cleanup)))))"

definition clear_job :: "string \<Rightarrow> ('r, unit) io" where
  "clear_job p = io_then await_prior_operations (io_then clear_cluster_job (cleanup p []))"

end
