(* ===== verification/ScanPipeline.thy ===== *)
theory ScanPipeline
  imports ScanStore Observation "HOL-Library.List_Lexorder" "HOL-Library.Char_ord"
begin

section \<open>From the traversal to acknowledged checkpoints (crates/app/src/scan_resume)\<close>

text \<open>
  The producer that follows the traversal, the writers it feeds, and the commands by which it
  has facts sealed (\<open>pipeline.rs\<close>, \<open>workers.rs\<close>, \<open>flush_batch\<close> of \<open>scan_resume.rs\<close>,
  \<open>scan/progress.rs\<close>, \<open>scan/statistics.rs\<close>, the request groups of \<open>db/src/scan/rows.rs\<close>).
  Channels are bounded queues whose receiver is always awaited before facts are sealed, so a
  message is modelled as handled when it is sent; how far the writers have got when a run is
  cut short is decided by the script of the database. The answers of the comparison, what a
  row holds and the text of the statistics are parameters.
\<close>

subsection \<open>Counts of a scan (statistics.rs)\<close>

text \<open>Counts per kind of entry come from the traversal crate, with these operations.\<close>

record 'k kind_ops =
  ko_zero :: 'k
  ko_saturating_add :: "'k \<Rightarrow> 'k \<Rightarrow> 'k"
  ko_saturating_sub :: "'k \<Rightarrow> 'k \<Rightarrow> 'k"
  ko_total :: "'k \<Rightarrow> u64"

record 'k scan_counts =
  sc_scanned :: 'k
  sc_filtered :: 'k
  sc_retained :: 'k
  sc_failed :: 'k
  sc_vanished :: 'k
  sc_pruned_directories :: u64
  sc_truncated_directories :: u64
  sc_regular_file_bytes :: u64
  sc_unknown_file_sizes :: u64
  sc_versions :: u64
  sc_delete_markers :: u64
  sc_all_versions_bytes :: u64
  sc_completed_listings :: u64
  sc_interrupted_listings :: u64
  sc_unreadable_listings :: u64
  sc_vanished_listings :: u64

datatype listing_outcome = ListingComplete | ListingInterrupted | ListingUnreadable

text \<open>What the traversal reports of one directory, so far or finally.\<close>

record 'k directory_statistics =
  ds_path :: string
  ds_pass_start :: bool
  ds_revision :: u64
  ds_outcome :: "listing_outcome option"
  ds_vanished_listing :: bool
  ds_scanned :: 'k
  ds_filtered :: 'k
  ds_retained :: 'k
  ds_failed :: 'k
  ds_vanished :: 'k
  ds_pruned_dirs :: u64
  ds_truncated_dirs :: u64
  ds_regular_file_bytes :: u64
  ds_unknown_file_sizes :: u64
  ds_versions :: u64
  ds_delete_markers :: u64
  ds_all_versions_bytes :: u64

definition flag :: "bool \<Rightarrow> u64" where
  "flag b = (if b then 1 else 0)"

definition no_counts :: "'k kind_ops \<Rightarrow> 'k scan_counts" where
  "no_counts ko = \<lparr>sc_scanned = ko_zero ko, sc_filtered = ko_zero ko, sc_retained = ko_zero ko, sc_failed = ko_zero ko,
     sc_vanished = ko_zero ko, sc_pruned_directories = 0, sc_truncated_directories = 0, sc_regular_file_bytes = 0,
     sc_unknown_file_sizes = 0, sc_versions = 0, sc_delete_markers = 0, sc_all_versions_bytes = 0,
     sc_completed_listings = 0, sc_interrupted_listings = 0, sc_unreadable_listings = 0, sc_vanished_listings = 0\<rparr>"

definition from_directory :: "'k directory_statistics \<Rightarrow> 'k scan_counts" where
  "from_directory d = \<lparr>sc_scanned = ds_scanned d, sc_filtered = ds_filtered d, sc_retained = ds_retained d,
     sc_failed = ds_failed d, sc_vanished = ds_vanished d, sc_pruned_directories = ds_pruned_dirs d,
     sc_truncated_directories = ds_truncated_dirs d, sc_regular_file_bytes = ds_regular_file_bytes d,
     sc_unknown_file_sizes = ds_unknown_file_sizes d, sc_versions = ds_versions d,
     sc_delete_markers = ds_delete_markers d, sc_all_versions_bytes = ds_all_versions_bytes d,
     sc_completed_listings = flag (ds_outcome d = Some ListingComplete),
     sc_interrupted_listings = flag (ds_outcome d = Some ListingInterrupted),
     sc_unreadable_listings = flag (ds_outcome d = Some ListingUnreadable),
     sc_vanished_listings = flag (ds_vanished_listing d)\<rparr>"

definition swap_kind :: "'k kind_ops \<Rightarrow> 'k \<Rightarrow> 'k \<Rightarrow> 'k \<Rightarrow> 'k" where
  "swap_kind ko x old new = ko_saturating_add ko (ko_saturating_sub ko x old) new"

definition swap_scalar :: "u64 \<Rightarrow> u64 \<Rightarrow> u64 \<Rightarrow> u64" where
  "swap_scalar x old new = saturating_add (saturating_sub x old) new"

text \<open>The old contribution of a directory goes before the new one comes.\<close>

definition replace_counts :: "'k kind_ops \<Rightarrow> 'k scan_counts \<Rightarrow> 'k scan_counts \<Rightarrow> 'k scan_counts \<Rightarrow> 'k scan_counts" where
  "replace_counts ko c old new = \<lparr>
     sc_scanned = swap_kind ko (sc_scanned c) (sc_scanned old) (sc_scanned new),
     sc_filtered = swap_kind ko (sc_filtered c) (sc_filtered old) (sc_filtered new),
     sc_retained = swap_kind ko (sc_retained c) (sc_retained old) (sc_retained new),
     sc_failed = swap_kind ko (sc_failed c) (sc_failed old) (sc_failed new),
     sc_vanished = swap_kind ko (sc_vanished c) (sc_vanished old) (sc_vanished new),
     sc_pruned_directories = swap_scalar (sc_pruned_directories c) (sc_pruned_directories old) (sc_pruned_directories new),
     sc_truncated_directories = swap_scalar (sc_truncated_directories c) (sc_truncated_directories old) (sc_truncated_directories new),
     sc_regular_file_bytes = swap_scalar (sc_regular_file_bytes c) (sc_regular_file_bytes old) (sc_regular_file_bytes new),
     sc_unknown_file_sizes = swap_scalar (sc_unknown_file_sizes c) (sc_unknown_file_sizes old) (sc_unknown_file_sizes new),
     sc_versions = swap_scalar (sc_versions c) (sc_versions old) (sc_versions new),
     sc_delete_markers = swap_scalar (sc_delete_markers c) (sc_delete_markers old) (sc_delete_markers new),
     sc_all_versions_bytes = swap_scalar (sc_all_versions_bytes c) (sc_all_versions_bytes old) (sc_all_versions_bytes new),
     sc_completed_listings = swap_scalar (sc_completed_listings c) (sc_completed_listings old) (sc_completed_listings new),
     sc_interrupted_listings = swap_scalar (sc_interrupted_listings c) (sc_interrupted_listings old) (sc_interrupted_listings new),
     sc_unreadable_listings = swap_scalar (sc_unreadable_listings c) (sc_unreadable_listings old) (sc_unreadable_listings new),
     sc_vanished_listings = swap_scalar (sc_vanished_listings c) (sc_vanished_listings old) (sc_vanished_listings new)\<rparr>"

text \<open>A snapshot saved with a checkpoint is used only if its parts add up.\<close>

record 'k scan_snapshot =
  sp_scanned_entries :: u64
  sp_filtered_entries :: u64
  sp_retained_entries :: u64
  sp_counts :: "'k scan_counts"

definition valid_checkpoint :: "'k kind_ops \<Rightarrow> 'k scan_snapshot \<Rightarrow> u64 \<Rightarrow> bool" where
  "valid_checkpoint ko sn observed \<longleftrightarrow>
     (let c = sp_counts sn;
          accounted = ko_saturating_add ko (ko_saturating_add ko (ko_saturating_add ko (sc_filtered c) (sc_retained c)) (sc_failed c))
            (sc_vanished c)
      in sc_scanned c = accounted \<and> sp_scanned_entries sn = ko_total ko (sc_scanned c) \<and> sp_scanned_entries sn = observed \<and>
         sp_filtered_entries sn = ko_total ko (sc_filtered c) \<and> sp_retained_entries sn = ko_total ko (sc_retained c))"

text \<open>The totals always belong to the counts.\<close>

definition snapshot_of :: "'k kind_ops \<Rightarrow> 'k scan_counts \<Rightarrow> 'k scan_snapshot" where
  "snapshot_of ko c =
     \<lparr>sp_scanned_entries = ko_total ko (sc_scanned c), sp_filtered_entries = ko_total ko (sc_filtered c),
      sp_retained_entries = ko_total ko (sc_retained c), sp_counts = c\<rparr>"

definition snapshot_replace :: "'k kind_ops \<Rightarrow> 'k scan_counts \<Rightarrow> 'k scan_counts \<Rightarrow> 'k scan_snapshot \<Rightarrow> 'k scan_snapshot" where
  "snapshot_replace ko old new sn =
     snapshot_of ko (replace_counts ko (sp_counts sn) old new)"

subsection \<open>Progress by directories (progress.rs)\<close>

record 'k scan_progress =
  pg_blocks :: bool
  pg_active :: "(string \<times> 'k scan_counts \<times> u64) list"
  pg_complete_prefix :: "'k scan_counts"
  pg_confirmed :: "'k scan_counts"
  pg_cursor :: "bytes option"

definition scan_progress_new :: "bool \<Rightarrow> 'k scan_counts \<Rightarrow> bytes option \<Rightarrow> 'k scan_progress" where
  "scan_progress_new blocks initial cursor =
     \<lparr>pg_blocks = blocks, pg_active = [], pg_complete_prefix = initial, pg_confirmed = initial, pg_cursor = cursor\<rparr>"

text \<open>The new progress and the contribution of the directory that statistics replace.\<close>

definition progress_push ::
  "'k kind_ops \<Rightarrow> 'k directory_statistics \<Rightarrow> 'k scan_progress \<Rightarrow> scan_error + 'k scan_progress \<times> 'k scan_counts \<times> 'k scan_counts" where
  "progress_push ko d pg =
     (let key = ds_path d; previous = map_of (pg_active pg) key;
          others = filter (\<lambda>(path, _). path \<noteq> key) (pg_active pg)
      in if pg_blocks pg \<and> others \<noteq> [] then Inl ProgressInvalid
         else if ds_pass_start d \<noteq> (previous = None)
              \<or> (case previous of None \<Rightarrow> False | Some (_, revision) \<Rightarrow> ds_revision d \<le> revision)
         then Inl ProgressInvalid
         else let old = (case previous of None \<Rightarrow> no_counts ko | Some (counts, _) \<Rightarrow> counts);
                  new = from_directory d
              in case ds_outcome d of
                   None \<Rightarrow> Inr (pg\<lparr>pg_active := (key, new, ds_revision d) # others\<rparr>, old, new)
                 | Some ListingComplete \<Rightarrow>
                     if ko_total ko (ds_failed d) = 0
                     then Inr (pg\<lparr>pg_active := others,
                            pg_complete_prefix := replace_counts ko (pg_complete_prefix pg) (no_counts ko) new\<rparr>, old, new)
                     else Inl ProgressInvalid
                 | Some _ \<Rightarrow> Inl ProgressInvalid)"

definition checkpoint_counts :: "'k scan_progress \<Rightarrow> scan_error + 'k scan_counts" where
  "checkpoint_counts pg =
     (if \<not> pg_blocks pg \<or> pg_active pg \<noteq> [] then Inl ProgressInvalid else Inr (pg_complete_prefix pg))"

definition progress_confirm :: "bytes \<Rightarrow> 'k scan_progress \<Rightarrow> 'k scan_progress" where
  "progress_confirm cursor pg = pg\<lparr>pg_cursor := Some cursor, pg_confirmed := pg_complete_prefix pg\<rparr>"

definition progress_finish :: "'k scan_progress \<Rightarrow> scan_error + unit" where
  "progress_finish pg = (if pg_active pg \<noteq> [] then Inl ProgressInvalid else Inr ())"

text \<open>The traversal restarts at a checkpoint: only at the confirmed one, or unordered at the root.\<close>

definition progress_resumed :: "'k kind_ops \<Rightarrow> bytes option \<Rightarrow> 'k scan_progress \<Rightarrow> scan_error + 'k scan_progress" where
  "progress_resumed ko selected pg =
     (if pg_blocks pg then
        (if selected \<noteq> pg_cursor pg then Inl ProgressInvalid
         else Inr (pg\<lparr>pg_active := [], pg_complete_prefix := pg_confirmed pg\<rparr>))
      else if selected \<noteq> None then Inl ProgressInvalid
      else Inr (pg\<lparr>pg_active := [], pg_complete_prefix := no_counts ko, pg_confirmed := no_counts ko\<rparr>))"


subsection \<open>Rows and their requests (rows.rs, cluster/native.rs)\<close>

record ('e, 'v, 'm, 'r, 'k) pipe_env =
  pe_model :: "('e, 'v, 'm) data_model"
  pe_prefix :: string
  pe_restarts :: nat
  pe_batch_size :: nat
  pe_hash :: "string \<Rightarrow> nat"
  pe_capture :: "u8 \<Rightarrow> u64 \<Rightarrow> 'e observed_view \<Rightarrow> scan_error + 'r"
  pe_weight :: "'r \<Rightarrow> nat"
  pe_compare :: "'r scan_db \<Rightarrow> 'e list \<Rightarrow> 'r list \<times> 'r list"
  pe_stamp :: "'r list \<Rightarrow> 'r \<Rightarrow> 'r"
  pe_kinds :: "'k kind_ops"
  pe_statistics :: "'k scan_counts \<Rightarrow> string"

definition max_request_rows :: nat where "max_request_rows = 65536"
definition max_request_bytes :: nat where "max_request_bytes = 8 * 1024 * 1024"

text \<open>Rows go into a request until either budget is reached; a row that cannot be built is an error.\<close>

fun take_request :: "('a \<Rightarrow> scan_error + 'r) \<Rightarrow> ('r \<Rightarrow> nat) \<Rightarrow> nat \<Rightarrow> nat \<Rightarrow> 'a list \<Rightarrow> scan_error + 'r list \<times> 'a list" where
  "take_request f weight n retained [] = Inr ([], [])"
| "take_request f weight n retained (x # xs) =
     (if n < max_request_rows \<and> retained < max_request_bytes
      then (case f x of
              Inl e \<Rightarrow> Inl e
            | Inr r \<Rightarrow>
                (case take_request f weight (Suc n) (retained + weight r) xs of
                   Inl e \<Rightarrow> Inl e
                 | Inr (rs, rest) \<Rightarrow> Inr (r # rs, rest)))
      else Inr ([], x # xs))"

lemma take_request_shorter:
  "take_request f weight n retained xs = Inr (rs, rest) \<Longrightarrow> length rest + length rs = length xs"
  by (induction f weight n retained xs arbitrary: rs rest rule: take_request.induct)
    (auto split: if_splits sum.splits)

lemma take_request_progress:
  "take_request f weight 0 0 (x # xs) = Inr (rs, rest) \<Longrightarrow> length rest < Suc (length xs)"
  using take_request_shorter [of f weight 0 0 "x # xs" rs rest]
  by (auto simp: max_request_rows_def max_request_bytes_def split: sum.splits prod.splits)

function native_requests :: "('a \<Rightarrow> scan_error + 'r) \<Rightarrow> ('r \<Rightarrow> nat) \<Rightarrow> 'a list \<Rightarrow> (scan_error + 'r list) list" where
  "native_requests f weight [] = []"
| "native_requests f weight (x # xs) =
     (case take_request f weight 0 0 (x # xs) of
        Inl e \<Rightarrow> [Inl e]
      | Inr (rs, rest) \<Rightarrow> Inr rs # native_requests f weight rest)"
  by pat_completeness auto
termination
  by (relation "measure (\<lambda>(f, weight, xs). length xs)") (auto dest: take_request_progress simp del: take_request.simps)

text \<open>
  An insert carries a token by which the server knows a block it has already taken, so
  repeating it after an unknown outcome adds its rows at most once.
\<close>

definition taken :: "'r scan_db \<Rightarrow> bool" where
  "taken w = (case sd_faults w of Lost applied _ # _ \<Rightarrow> applied | _ \<Rightarrow> False)"

definition insert_rows :: "bool \<Rightarrow> string \<Rightarrow> 'r list \<Rightarrow> ('r, unit) io" where
  "insert_rows known t rows = statement (\<lambda>w.
     case table_of t w of None \<Rightarrow> None | Some old \<Rightarrow> Some (if known then w else set_table t (old + mset rows) w))"

fun insert_block :: "nat \<Rightarrow> bool \<Rightarrow> string \<Rightarrow> 'r list \<Rightarrow> ('r, unit) io" where
  "insert_block 0 known t rows = insert_rows known t rows"
| "insert_block (Suc n) known t rows = (\<lambda>w.
     case insert_rows known t rows w of
       (w', r) \<Rightarrow> if r = Inl DatabaseTransient then insert_block n (known \<or> taken w) t rows w' else (w', r))"

definition write_events :: "nat \<Rightarrow> 'r list \<Rightarrow> ('r, unit) io" where
  "write_events restarts rows =
     (if rows = [] then fetch (\<lambda>_. ()) else insert_block restarts False (local_table (source_table True)) rows)"

fun write_requests :: "nat \<Rightarrow> ('r \<Rightarrow> 'r) \<Rightarrow> (scan_error + 'r list) list \<Rightarrow> ('r, unit) io" where
  "write_requests restarts stamp [] = io_return ()"
| "write_requests restarts stamp (q # qs) =
     io_bind (io_lift q) (\<lambda>rows.
     io_then (insert_block restarts False (local_table (source_table False)) (map stamp rows))
             (write_requests restarts stamp qs))"

definition write_candidates :: "('e, 'v, 'm, 'r, 'k) pipe_env \<Rightarrow> 'e list \<Rightarrow> 'r list \<Rightarrow> ('r, unit) io" where
  "write_candidates env entries events = (\<lambda>w.
     write_requests (pe_restarts env) (pe_stamp env events)
       (native_requests (pe_capture env (sd_generation w) (sd_epoch w)) (pe_weight env)
         (concat (map (view_all (pe_model env)) entries))) w)"

text \<open>The comparison logs the rows it displaces itself, before its events are written.\<close>

definition detect_events :: "('e, 'v, 'm, 'r, 'k) pipe_env \<Rightarrow> 'e list \<Rightarrow> ('r, 'r list) io" where
  "detect_events env entries =
     io_bind (fetch (\<lambda>w. pe_compare env w entries)) (\<lambda>(displaced, events).
     io_then (if displaced = [] then io_return () else write_events (pe_restarts env) displaced)
             (io_return events))"

definition sort_batch :: "('e, 'v, 'm, 'r, 'k) pipe_env \<Rightarrow> 'e list \<Rightarrow> 'e list" where
  "sort_batch env entries = sort_key (path_of (pe_model env)) entries"

text \<open>Events are durable before the rows they announce; the staging tables hold no facts.\<close>

definition flush_batch :: "('e, 'v, 'm, 'r, 'k) pipe_env \<Rightarrow> bool \<Rightarrow> 'e list \<Rightarrow> ('r, unit) io" where
  "flush_batch env incremental entries =
     (if entries = [] then io_return ()
      else let batch = sort_batch env entries in
        if incremental then
          io_then (fetch (\<lambda>_. ()))
         (io_then (fetch (\<lambda>_. ()))
         (io_bind (detect_events env batch) (\<lambda>events.
          io_then (write_events (pe_restarts env) events)
                  (write_candidates env batch events))))
        else write_candidates env batch [])"

subsection \<open>Writers (pipeline.rs, workers.rs)\<close>

text \<open>
  One writer with a batch, or - for incremental rounds of a cluster - several workers, each
  with the entries routed to it but not yet sent and a batch.
\<close>

datatype 'e writer = Serial "'e list" | Parallel "('e list \<times> 'e list) list"

definition workers :: nat where "workers = 4"
definition dispatch_batch :: nat where "dispatch_batch = 256"

fun write_entries :: "('e, 'v, 'm, 'r, 'k) pipe_env \<Rightarrow> bool \<Rightarrow> 'e list \<Rightarrow> 'e list \<Rightarrow> ('r, 'e list) io" where
  "write_entries env incremental batch [] = io_return batch"
| "write_entries env incremental batch (e # es) =
     (let batch' = batch @ [e] in
      if length batch' \<ge> pe_batch_size env
      then io_then (flush_batch env incremental batch') (write_entries env incremental [] es)
      else write_entries env incremental batch' es)"

definition deliver_worker :: "('e, 'v, 'm, 'r, 'k) pipe_env \<Rightarrow> bool \<Rightarrow> 'e list \<times> 'e list \<Rightarrow> ('r, 'e list \<times> 'e list) io" where
  "deliver_worker env incremental wk =
     io_bind (write_entries env incremental (snd wk) (fst wk)) (\<lambda>batch. io_return ([], batch))"

definition route_of :: "('e, 'v, 'm, 'r, 'k) pipe_env \<Rightarrow> nat \<Rightarrow> 'e \<Rightarrow> nat" where
  "route_of env n e =
     pe_hash env (view_path_key (pe_model env)
       \<lparr>ov_entry = e, ov_version_index = map_option (\<lambda>_. 0) (history_of (pe_model env) e)\<rparr>) mod n"

fun dispatch :: "('e, 'v, 'm, 'r, 'k) pipe_env \<Rightarrow> bool \<Rightarrow> ('e list \<times> 'e list) list \<Rightarrow> 'e list \<Rightarrow> ('r, ('e list \<times> 'e list) list) io" where
  "dispatch env incremental ws [] = io_return ws"
| "dispatch env incremental ws (e # es) =
     (let i = route_of env (length ws) e; wk = (fst (ws ! i) @ [e], snd (ws ! i)) in
      if length (fst wk) \<ge> dispatch_batch
      then io_bind (deliver_worker env incremental wk) (\<lambda>wk'. dispatch env incremental (ws[i := wk']) es)
      else dispatch env incremental (ws[i := wk]) es)"

fun each_worker :: "('w \<Rightarrow> ('r, 'w) io) \<Rightarrow> 'w list \<Rightarrow> ('r, 'w list) io" where
  "each_worker f [] = io_return []"
| "each_worker f (wk # ws) =
     io_bind (f wk) (\<lambda>wk'. io_bind (each_worker f ws) (\<lambda>ws'. io_return (wk' # ws')))"

definition flush_worker :: "('e, 'v, 'm, 'r, 'k) pipe_env \<Rightarrow> bool \<Rightarrow> 'e list \<times> 'e list \<Rightarrow> ('r, 'e list \<times> 'e list) io" where
  "flush_worker env incremental wk =
     io_then (flush_batch env incremental (snd wk)) (io_return (fst wk, []))"

fun writer_data :: "('e, 'v, 'm, 'r, 'k) pipe_env \<Rightarrow> bool \<Rightarrow> 'e writer \<Rightarrow> 'e list \<Rightarrow> ('r, 'e writer) io" where
  "writer_data env incremental (Serial batch) entries =
     io_bind (write_entries env incremental batch entries) (\<lambda>batch'. io_return (Serial batch'))"
| "writer_data env incremental (Parallel ws) entries =
     io_bind (dispatch env incremental ws entries) (\<lambda>ws'. io_return (Parallel ws'))"

text \<open>A barrier is acknowledged when everything sent before it is written.\<close>

fun writer_barrier :: "('e, 'v, 'm, 'r, 'k) pipe_env \<Rightarrow> bool \<Rightarrow> 'e writer \<Rightarrow> ('r, 'e writer) io" where
  "writer_barrier env incremental (Serial batch) =
     io_then (flush_batch env incremental batch) (io_return (Serial []))"
| "writer_barrier env incremental (Parallel ws) =
     io_bind (each_worker (deliver_worker env incremental) ws) (\<lambda>ws'.
     io_bind (each_worker (flush_worker env incremental) ws') (\<lambda>ws''. io_return (Parallel ws'')))"

subsection \<open>The producer (pipeline.rs)\<close>

datatype save_action = Capture | Restore | ManifestOnly

definition execute_save :: "('e, 'v, 'm, 'r, 'k) pipe_env \<Rightarrow> save_action \<Rightarrow> scan_state \<Rightarrow> ('r, scan_state) io" where
  "execute_save env action s =
     (case action of
        Restore \<Rightarrow> io_then (restore (pe_prefix env) (ss_checkpoint_snapshot s)) (io_return s)
      | Capture \<Rightarrow> seal_resume_state (pe_prefix env) (pe_restarts env) s
      | ManifestOnly \<Rightarrow> io_then (save_resume_state (pe_restarts env) s) (io_return s))"

text \<open>\<open>Tick\<close> is the timer that sends what is pending.\<close>

datatype ('e, 'k) scan_item =
    Resumed "bytes option" | Entry 'e | DirectoryCounts "'k directory_statistics" | Checkpoint bytes | Tick

datatype traversal_end = TraversalCompleted nat nat | TraversalPaused | TraversalFailed

record ('e, 'k) producer =
  pd_state :: scan_state
  pd_pending :: "'e list"
  pd_writer :: "'e writer"
  pd_matches :: bool
  pd_progress :: "'k scan_progress"
  pd_statistics :: "'k scan_snapshot"

definition deliver_pending :: "('e, 'v, 'm, 'r, 'k) pipe_env \<Rightarrow> ('e, 'k) producer \<Rightarrow> ('r, ('e, 'k) producer) io" where
  "deliver_pending env pd =
     (if pd_pending pd = [] then io_return pd
      else io_bind (writer_data env (ss_incremental (pd_state pd)) (pd_writer pd) (pd_pending pd))
             (\<lambda>wr. io_return (pd\<lparr>pd_pending := [], pd_writer := wr\<rparr>)))"

definition barrier :: "('e, 'v, 'm, 'r, 'k) pipe_env \<Rightarrow> ('e, 'k) producer \<Rightarrow> ('r, ('e, 'k) producer) io" where
  "barrier env pd =
     io_bind (writer_barrier env (ss_incremental (pd_state pd)) (pd_writer pd))
       (\<lambda>wr. io_return (pd\<lparr>pd_writer := wr\<rparr>))"

text \<open>A state is saved with its facts sealed anew, unless no fact came since they were.\<close>

definition save_facts :: "('e, 'v, 'm, 'r, 'k) pipe_env \<Rightarrow> scan_state \<Rightarrow> ('e, 'k) producer \<Rightarrow> ('r, ('e, 'k) producer) io" where
  "save_facts env s pd =
     io_bind (io_lift (advance s)) (\<lambda>s'.
     io_bind (execute_save env (if pd_matches pd then ManifestOnly else Capture) s')
       (\<lambda>s''. io_return (pd\<lparr>pd_state := s'', pd_matches := True\<rparr>)))"

definition on_resumed :: "('e, 'v, 'm, 'r, 'k) pipe_env \<Rightarrow> bytes option \<Rightarrow> ('e, 'k) producer \<Rightarrow> ('r, ('e, 'k) producer) io" where
  "on_resumed env selected pd =
     io_bind (barrier env (pd\<lparr>pd_pending := []\<rparr>)) (\<lambda>pd.
     io_bind (execute_save env Restore (pd_state pd)) (\<lambda>s.
     io_bind (io_lift (progress_resumed (pe_kinds env) selected (pd_progress pd))) (\<lambda>pg.
     io_return (pd\<lparr>pd_state := s, pd_matches := True, pd_progress := pg,
       pd_statistics := snapshot_of (pe_kinds env) (pg_complete_prefix pg)\<rparr>))))"

definition on_entry :: "('e, 'v, 'm, 'r, 'k) pipe_env \<Rightarrow> 'e \<Rightarrow> ('e, 'k) producer \<Rightarrow> ('r, ('e, 'k) producer) io" where
  "on_entry env e pd =
     (let pd' = pd\<lparr>pd_matches := False, pd_pending := pd_pending pd @ [e]\<rparr>
      in if length (pd_pending pd') \<ge> dispatch_batch then deliver_pending env pd' else io_return pd')"

definition on_counts :: "('e, 'v, 'm, 'r, 'k) pipe_env \<Rightarrow> 'k directory_statistics \<Rightarrow> ('e, 'k) producer \<Rightarrow> ('r, ('e, 'k) producer) io" where
  "on_counts env d pd =
     io_bind (io_lift (progress_push (pe_kinds env) d (pd_progress pd))) (\<lambda>(pg, old, new).
     io_return (pd\<lparr>pd_progress := pg, pd_statistics := snapshot_replace (pe_kinds env) old new (pd_statistics pd)\<rparr>))"

definition on_checkpoint :: "('e, 'v, 'm, 'r, 'k) pipe_env \<Rightarrow> bytes \<Rightarrow> ('e, 'k) producer \<Rightarrow> ('r, ('e, 'k) producer) io" where
  "on_checkpoint env cursor pd =
     io_bind (deliver_pending env pd) (\<lambda>pd.
     io_bind (barrier env pd) (\<lambda>pd.
     io_bind (io_lift (checkpoint_counts (pd_progress pd))) (\<lambda>counts.
     io_bind (save_facts env (pd_state pd\<lparr>ss_checkpoint := cursor,
         ss_observed_entries := ko_total (pe_kinds env) (sc_scanned counts),
         ss_statistics := pe_statistics env counts\<rparr>) pd) (\<lambda>pd.
     io_return (pd\<lparr>pd_progress := progress_confirm cursor (pd_progress pd)\<rparr>)))))"

fun produce_item :: "('e, 'v, 'm, 'r, 'k) pipe_env \<Rightarrow> ('e, 'k) scan_item \<Rightarrow> ('e, 'k) producer \<Rightarrow> ('r, ('e, 'k) producer) io" where
  "produce_item env (Resumed selected) pd = on_resumed env selected pd"
| "produce_item env (Entry e) pd = on_entry env e pd"
| "produce_item env (DirectoryCounts d) pd = on_counts env d pd"
| "produce_item env (Checkpoint cursor) pd = on_checkpoint env cursor pd"
| "produce_item env Tick pd = deliver_pending env pd"

fun produce_items :: "('e, 'v, 'm, 'r, 'k) pipe_env \<Rightarrow> ('e, 'k) scan_item list \<Rightarrow> ('e, 'k) producer \<Rightarrow> ('r, ('e, 'k) producer) io" where
  "produce_items env [] pd = io_return pd"
| "produce_items env (item # items) pd = io_bind (produce_item env item pd) (produce_items env items)"

text \<open>The end of the traversal: only a complete one reaches the phase \<open>FINALIZING\<close>.\<close>

definition finish_traversal :: "('e, 'v, 'm, 'r, 'k) pipe_env \<Rightarrow> traversal_end \<Rightarrow> ('e, 'k) producer \<Rightarrow> ('r, ('e, 'k) producer) io" where
  "finish_traversal env outcome pd =
     io_bind (deliver_pending env pd) (\<lambda>pd.
     io_bind (barrier env pd) (\<lambda>pd.
     io_bind (io_lift (case outcome of
         TraversalFailed \<Rightarrow> Inl SourceFailed
       | TraversalPaused \<Rightarrow> Inl ScanIncomplete
       | TraversalCompleted failed_children listing_failures \<Rightarrow>
           if failed_children = 0 \<and> listing_failures = 0 then progress_finish (pd_progress pd) else Inl ScanIncomplete)) (\<lambda>_.
     save_facts env (pd_state pd\<lparr>ss_phase := FINALIZING,
       ss_observed_entries := sp_scanned_entries (pd_statistics pd),
       ss_statistics := pe_statistics env (sp_counts (pd_statistics pd))\<rparr>) pd)))"

definition produce :: "('e, 'v, 'm, 'r, 'k) pipe_env \<Rightarrow> ('e, 'k) scan_item list \<Rightarrow> traversal_end \<Rightarrow> ('e, 'k) producer \<Rightarrow> ('r, scan_state) io" where
  "produce env items outcome pd =
     io_bind (produce_items env items pd) (\<lambda>pd.
     io_bind (finish_traversal env outcome pd) (\<lambda>pd. io_return (pd_state pd)))"

end
