(* ===== verification/ScanRun.thy ===== *)
theory ScanRun
  imports ScanPipeline
begin

section \<open>One execution of a persisted scan (crates/app/src/scan_resume.rs)\<close>

text \<open>
  \<open>run_persisted\<close> from reading the saved manifest to publishing the generation: a saved round is
  resumed at its checkpoint or given up for its baseline, a new round seals the baseline
  before anything else, and the generation is committed after the last facts are sealed. The
  traversal, the final decisions on rows and the texts of statistics are parameters.
\<close>

record ('e, 'v, 'm, 'r, 'k) run_env =
  re_pipe :: "('e, 'v, 'm, 'r, 'k) pipe_env"
  re_request_key :: string
  re_resume :: bool
  re_now :: "u64 option"
  re_source :: "bytes option \<Rightarrow> ('e, 'k) scan_item list \<times> traversal_end"
  re_read_statistics :: "string \<Rightarrow> scan_error + 'k scan_snapshot option"
  re_final_statistics :: "scan_state \<Rightarrow> string"
  re_resolve :: "u64 \<Rightarrow> 'r scan_db \<Rightarrow> ('r list \<times> ('r multiset \<Rightarrow> 'r multiset)) list"
  re_cleanup :: "u64 \<Rightarrow> 'r multiset \<Rightarrow> 'r multiset"

definition run_prefix :: "('e, 'v, 'm, 'r, 'k) run_env \<Rightarrow> string" where
  "run_prefix env = pe_prefix (re_pipe env)"

definition run_restarts :: "('e, 'v, 'm, 'r, 'k) run_env \<Rightarrow> nat" where
  "run_restarts env = pe_restarts (re_pipe env)"

text \<open>Sweeping staging tables after a round may fail without failing it.\<close>

definition ignore_error :: "('r, unit) io \<Rightarrow> ('r, unit) io" where
  "ignore_error m = (\<lambda>w. (fst (m w), Inr ()))"

subsection \<open>The state to go on from\<close>

definition completed_state :: "scan_state \<Rightarrow> scan_error + scan_state" where
  "completed_state s = advance (s\<lparr>ss_phase := COMPLETED, ss_checkpoint := []\<rparr>)"

text \<open>True if the round turns out to have been committed before the process ended.\<close>

definition resume_round :: "('e, 'v, 'm, 'r, 'k) run_env \<Rightarrow> scan_state \<Rightarrow> ('r, scan_state \<times> bool) io" where
  "resume_round env s =
     io_bind (io_lift (validate_state (re_request_key env) s)) (\<lambda>_.
     io_bind results_exist (\<lambda>exist.
       if \<not> exist then io_lift (Inl ResultsMissing)
       else io_bind (restore_resume_generation s) (\<lambda>done.
         if done
         then io_bind (io_lift (completed_state s)) (\<lambda>s'.
              io_then (save_resume_state (run_restarts env) s')
             (io_then (cleanup_scan_snapshots (run_prefix env) s')
             (io_then (ignore_error batch_cleanup)
                      (io_return (s, True)))))
         else io_then (restore (run_prefix env) (ss_checkpoint_snapshot s)) (io_return (s, False)))))"

text \<open>An active round that is not to be resumed is finished if it was committed, and undone otherwise.\<close>

definition abandon_round :: "('e, 'v, 'm, 'r, 'k) run_env \<Rightarrow> scan_state \<Rightarrow> ('r, unit) io" where
  "abandon_round env s =
     io_bind (if ss_phase s = FINALIZING then restore_resume_generation s else io_return False) (\<lambda>done.
       if done
       then io_bind (io_lift (completed_state s)) (save_resume_state (run_restarts env))
       else restore (run_prefix env) (ss_baseline_snapshot s))"

definition fresh_state :: "('e, 'v, 'm, 'r, 'k) run_env \<Rightarrow> scan_state option \<Rightarrow> bool \<Rightarrow> string \<Rightarrow> u8 \<Rightarrow> u64 \<Rightarrow> scan_state" where
  "fresh_state env previous incremental baseline generation event_time =
     \<lparr>ss_id = 1, ss_schema_version = 1,
      ss_version = (case previous of None \<Rightarrow> 0 | Some s \<Rightarrow> ss_version s),
      ss_request_key = re_request_key env, ss_generation = generation, ss_incremental = incremental,
      ss_phase = RUNNING, ss_event_time = event_time, ss_observed_entries = 0, ss_checkpoint = [],
      ss_statistics = [], ss_baseline_snapshot = baseline, ss_checkpoint_snapshot = baseline\<rparr>"

definition start_round :: "('e, 'v, 'm, 'r, 'k) run_env \<Rightarrow> scan_state option \<Rightarrow> ('r, scan_state) io" where
  "start_round env old =
     io_then (case old of Some s \<Rightarrow> if active s then abandon_round env s else io_return () | None \<Rightarrow> io_return ())
    (io_bind has_baseline (\<lambda>incremental.
     io_bind (capture (run_prefix env) (run_restarts env)) (\<lambda>baseline.
     io_bind begin_scan_generation (\<lambda>generation.
     io_bind load_resume_state (\<lambda>previous.
     io_bind (io_lift (case re_now env of None \<Rightarrow> Inl EpochOverflow | Some now \<Rightarrow> Inr now)) (\<lambda>now.
     io_bind (resume_event_epoch now) (\<lambda>event_time.
     io_bind (io_lift (advance (fresh_state env previous incremental baseline generation event_time))) (\<lambda>fresh.
     io_then (save_resume_state (run_restarts env) fresh)
    (io_then (cleanup_scan_snapshots (run_prefix env) fresh)
             (io_return fresh))))))))))"

subsection \<open>From the traversal to the commit\<close>

definition delete_rows :: "string \<Rightarrow> ('r multiset \<Rightarrow> 'r multiset) \<Rightarrow> ('r, unit) io" where
  "delete_rows t f = statement (\<lambda>w. case table_of t w of None \<Rightarrow> None | Some rows \<Rightarrow> Some (set_table t (f rows) w))"

text \<open>The final decisions, batch by batch: logged first, then the rows they delete go.\<close>

definition finalize_tables :: "('e, 'v, 'm, 'r, 'k) run_env \<Rightarrow> u64 \<Rightarrow> ('r, unit) io" where
  "finalize_tables env time =
     io_bind (fetch (re_resolve env time)) (\<lambda>batches.
     io_then (io_sequence (map (\<lambda>(events, deletion).
         io_then (write_events (run_restarts env) events) (delete_rows (local_table (source_table False)) deletion)) batches))
       (delete_rows (local_table (source_table True)) (re_cleanup env time)))"

definition final_statistics :: "('e, 'v, 'm, 'r, 'k) run_env \<Rightarrow> scan_state \<Rightarrow> ('r, unit) io" where
  "final_statistics env s =
     (if \<not> ss_incremental s then fetch (\<lambda>_. ())
      else io_then (io_both (finalize_tables env (ss_event_time s)) (fetch (\<lambda>_. ()))) (fetch (\<lambda>_. ())))"

definition initial_producer :: "('e, 'v, 'm, 'r, 'k) run_env \<Rightarrow> scan_state \<Rightarrow> 'k scan_snapshot \<Rightarrow> ('e, 'k) producer" where
  "initial_producer env s sn =
     \<lparr>pd_state = s, pd_pending = [],
      pd_writer = (if ss_incremental s then Parallel (replicate workers ([], [])) else Serial []),
      pd_matches = False,
      pd_progress = scan_progress_new (re_resume env) (sp_counts sn) (if ss_checkpoint s = [] then None else Some (ss_checkpoint s)),
      pd_statistics = sn\<rparr>"

definition consume :: "('e, 'v, 'm, 'r, 'k) run_env \<Rightarrow> scan_state \<Rightarrow> 'k scan_snapshot \<Rightarrow> ('r, scan_state) io" where
  "consume env s sn =
     (case re_source env (if re_resume env \<and> ss_checkpoint s \<noteq> [] then Some (ss_checkpoint s) else None) of
        (items, outcome) \<Rightarrow> produce (re_pipe env) items outcome (initial_producer env s sn))"

text \<open>An incremental round seals its final tables again; a full one only saves its statistics.\<close>

definition publish :: "('e, 'v, 'm, 'r, 'k) run_env \<Rightarrow> scan_state \<Rightarrow> ('r, unit) io" where
  "publish env s =
     io_then (final_statistics env s)
    (io_bind (io_lift (advance (s\<lparr>ss_statistics := re_final_statistics env s\<rparr>))) (\<lambda>s.
     io_bind (if ss_incremental s then seal_resume_state (run_prefix env) (run_restarts env) s
              else io_then (save_resume_state (run_restarts env) s) (io_return s)) (\<lambda>s.
     io_then (commit_scan_generation (run_restarts env))
    (io_bind (io_lift (completed_state (s\<lparr>ss_statistics := re_final_statistics env s\<rparr>))) (\<lambda>s.
     io_then (save_resume_state (run_restarts env) s)
    (io_then (cleanup_scan_snapshots (run_prefix env) s)
             (ignore_error batch_cleanup)))))))"

definition run_round :: "('e, 'v, 'm, 'r, 'k) run_env \<Rightarrow> scan_state \<Rightarrow> 'k scan_snapshot \<Rightarrow> ('r, unit) io" where
  "run_round env s sn =
     io_bind (if ss_phase s = RUNNING then consume env s sn else io_return s) (publish env)"

text \<open>Statistics of a checkpoint must account for the entries observed up to it.\<close>

definition restored_statistics :: "('e, 'v, 'm, 'r, 'k) run_env \<Rightarrow> scan_state \<Rightarrow> scan_error + 'k scan_snapshot" where
  "restored_statistics env s =
     (let ko = pe_kinds (re_pipe env) in
      case re_read_statistics env (ss_statistics s) of
        Inl e \<Rightarrow> Inl e
      | Inr saved \<Rightarrow>
          if (ss_checkpoint s \<noteq> [] \<or> ss_observed_entries s > 0)
             \<and> \<not> (case saved of None \<Rightarrow> False | Some sn \<Rightarrow> valid_checkpoint ko sn (ss_observed_entries s))
          then Inl StatisticsInconsistent
          else Inr (case saved of None \<Rightarrow> snapshot_of ko (no_counts ko) | Some sn \<Rightarrow> sn))"

definition run_persisted :: "('e, 'v, 'm, 'r, 'k) run_env \<Rightarrow> ('r, unit) io" where
  "run_persisted env =
     io_then (io_modify (\<lambda>w. w\<lparr>sd_epoch := 0, sd_generation := 0\<rparr>))
    (io_bind load_resume_state (\<lambda>old.
     io_bind (case old of
         Some s \<Rightarrow>
           if active s \<and> re_resume env then resume_round env s
           else io_bind (start_round env old) (\<lambda>s. io_return (s, False))
       | None \<Rightarrow> io_bind (start_round env None) (\<lambda>s. io_return (s, False))) (\<lambda>(s, done).
     io_bind (io_lift (restored_statistics env s)) (\<lambda>sn.
       if done then io_return () else run_round env s sn))))"

end
