(* ===== verification/ScanFrames.thy ===== *)
theory ScanFrames
  imports ScanRun
begin

section \<open>What the statements of a scan leave alone\<close>

text \<open>
  Frame and result lemmas for the database programs of a scan: writing and restoring change
  working tables only, a capture adds tables under new names and copies the facts, a cleanup
  removes tables nothing refers to. Every lemma holds whatever the script of verdicts is.
\<close>

named_theorems working_intros "programs that change working tables only"

subsection \<open>Tables\<close>

lemma map_of_filter_key: "map_of (filter (\<lambda>(k, _). k \<noteq> a) xs) b = (if b = a then None else map_of xs b)"
  by (induction xs) auto

lemma table_of_set_table [simp]:
  "table_of t (set_table t' rows w) = (if t = t' then Some rows else table_of t w)"
  by (simp add: table_of_def set_table_def map_of_filter_key)

lemma table_of_remove_table [simp]:
  "table_of t (remove_table t' w) = (if t = t' then None else table_of t w)"
  by (simp add: table_of_def remove_table_def map_of_filter_key)

lemma set_table_other [simp]:
  "sd_manifests (set_table t rows w) = sd_manifests w" "sd_commits (set_table t rows w) = sd_commits w"
  "sd_epoch (set_table t rows w) = sd_epoch w" "sd_generation (set_table t rows w) = sd_generation w"
  "sd_uuids (set_table t rows w) = sd_uuids w"
  "sd_faults (set_table t rows w) = sd_faults w"
  by (simp_all add: set_table_def)

lemma remove_table_other [simp]:
  "sd_manifests (remove_table t w) = sd_manifests w" "sd_commits (remove_table t w) = sd_commits w"
  "sd_epoch (remove_table t w) = sd_epoch w" "sd_generation (remove_table t w) = sd_generation w"
  "sd_uuids (remove_table t w) = sd_uuids w"
  "sd_faults (remove_table t w) = sd_faults w"
  by (simp_all add: remove_table_def)

lemma table_of_update [simp]:
  "table_of t (w\<lparr>sd_faults := fs\<rparr>) = table_of t w" "table_of t (w\<lparr>sd_manifests := ms\<rparr>) = table_of t w"
  "table_of t (w\<lparr>sd_commits := cs\<rparr>) = table_of t w" "table_of t (w\<lparr>sd_epoch := e\<rparr>) = table_of t w"
  "table_of t (w\<lparr>sd_generation := g\<rparr>) = table_of t w" "table_of t (w\<lparr>sd_uuids := us\<rparr>) = table_of t w"
  by (simp_all add: table_of_def)

subsection \<open>Programs\<close>

text \<open>
  A relation between the database before and after that every program built from the given
  steps keeps: reflexive, transitive, and blind to the script.
\<close>

locale step_relation =
  fixes R :: "'r scan_db \<Rightarrow> 'r scan_db \<Rightarrow> bool"
  assumes refl: "R w w"
    and trans: "R w w' \<Longrightarrow> R w' w'' \<Longrightarrow> R w w''"
    and blind: "R w (w\<lparr>sd_faults := fs\<rparr>)"
begin

definition keeps :: "('r, 'a) io \<Rightarrow> bool" where
  "keeps m \<longleftrightarrow> (\<forall>w. R w (fst (m w)))"

lemma keeps_return: "keeps (io_return x)"
  by (simp add: keeps_def io_return_def refl)

lemma keeps_lift: "keeps (io_lift x)"
  by (simp add: keeps_def io_lift_def refl)

lemma keeps_bind: "keeps m \<Longrightarrow> (\<And>x. keeps (f x)) \<Longrightarrow> keeps (io_bind m f)"
  unfolding keeps_def io_bind_def by (auto split: prod.split sum.split) (metis fst_conv trans)+

lemma keeps_then: "keeps m \<Longrightarrow> keeps k \<Longrightarrow> keeps (io_then m k)"
  unfolding io_then_def by (rule keeps_bind)

lemma keeps_both: "keeps m \<Longrightarrow> keeps k \<Longrightarrow> keeps (io_both m k)"
  unfolding keeps_def io_both_def by (auto split: prod.split) (metis fst_conv trans)

lemma keeps_all: "(\<And>m. m \<in> set ms \<Longrightarrow> keeps m) \<Longrightarrow> keeps (io_all ms)"
  by (induction ms) (auto intro: keeps_return keeps_both)

lemma keeps_sequence: "(\<And>m. m \<in> set ms \<Longrightarrow> keeps m) \<Longrightarrow> keeps (io_sequence ms)"
  by (induction ms) (auto intro: keeps_return keeps_then)

lemma keeps_statement:
  assumes "\<And>w w'. f w = Some w' \<Longrightarrow> R w w'"
  shows "keeps (statement f)"
proof -
  have "R w (case f w of None \<Rightarrow> w | Some w' \<Rightarrow> w')" for w
    using assms by (auto simp: refl split: option.split)
  then have "R w (case f (w\<lparr>sd_faults := fs\<rparr>) of None \<Rightarrow> w\<lparr>sd_faults := fs\<rparr> | Some w' \<Rightarrow> w')" for w fs
    using blind trans by blast
  with \<open>\<And>w. R w (case f w of None \<Rightarrow> w | Some w' \<Rightarrow> w')\<close> show ?thesis
    unfolding keeps_def statement_def Let_def
    by (auto simp: blind split: list.split verdict.split option.splits) (metis option.simps)+
qed

lemma keeps_fetch: "keeps (fetch q)"
  unfolding fetch_def
  by (rule keeps_then) (auto intro: keeps_statement simp: refl, simp add: keeps_def refl)

lemma keeps_retried: "keeps m \<Longrightarrow> keeps (retried n m)"
proof (induction n)
  case (Suc n)
  then show ?case
    unfolding keeps_def by (auto split: prod.split) (metis fst_conv trans)+
qed simp

lemma keeps_modify: "(\<And>w. R w (f w)) \<Longrightarrow> keeps (io_modify f)"
  by (simp add: keeps_def io_modify_def)

lemma keeps_ignore: "keeps m \<Longrightarrow> keeps (ignore_error m)"
  by (simp add: keeps_def ignore_error_def)

lemmas keeps_intros = keeps_return keeps_lift keeps_bind keeps_then keeps_both keeps_all keeps_sequence
  keeps_fetch keeps_retried keeps_ignore

end


text \<open>Only the tables of a set change, and nothing else of the database does.\<close>

definition only_tables :: "string set \<Rightarrow> 'r scan_db \<Rightarrow> 'r scan_db \<Rightarrow> bool" where
  "only_tables S w w' \<longleftrightarrow>
     sd_manifests w' = sd_manifests w \<and> sd_commits w' = sd_commits w \<and> sd_epoch w' = sd_epoch w \<and>
     sd_generation w' = sd_generation w \<and> sd_uuids w' = sd_uuids w \<and>
     (\<forall>t. t \<notin> S \<longrightarrow> table_of t w' = table_of t w)"

interpretation tb: step_relation "only_tables S" for S
  by unfold_locales (auto simp: only_tables_def)

lemma only_tables_set [intro]: "t \<in> S \<Longrightarrow> only_tables S w (set_table t rows w)"
  by (auto simp: only_tables_def)

lemma only_tables_remove [intro]: "t \<in> S \<Longrightarrow> only_tables S w (remove_table t w)"
  by (auto simp: only_tables_def)

lemma only_tables_refl [intro, simp]: "only_tables S w w"
  by (rule tb.refl)

lemma only_tables_mono: "only_tables S w w' \<Longrightarrow> S \<subseteq> T \<Longrightarrow> only_tables T w w'"
  by (auto simp: only_tables_def)

subsection \<open>Statements and the tables they change\<close>

lemma keeps_create_table: "t \<in> S \<Longrightarrow> tb.keeps S (create_table t)"
  unfolding create_table_def by (rule tb.keeps_statement) (auto split: if_splits)

lemma keeps_create_table_if_absent: "t \<in> S \<Longrightarrow> tb.keeps S (create_table_if_absent t)"
  unfolding create_table_if_absent_def by (rule tb.keeps_statement) auto

lemma keeps_attach_from: "t \<in> S \<Longrightarrow> tb.keeps S (attach_from t t')"
  unfolding attach_from_def by (rule tb.keeps_statement) (auto split: option.splits)

lemma keeps_drop_partition: "t \<in> S \<Longrightarrow> tb.keeps S (drop_partition t)"
  unfolding drop_partition_def by (rule tb.keeps_statement) (auto split: option.splits)

lemma keeps_drop_snapshot: "t \<in> S \<Longrightarrow> tb.keeps S (drop_snapshot t)"
  unfolding drop_snapshot_def by (rule tb.keeps_statement) auto

lemma keeps_delete_rows: "t \<in> S \<Longrightarrow> tb.keeps S (delete_rows t f)"
  unfolding delete_rows_def by (rule tb.keeps_statement) (auto split: option.splits)

lemma keeps_insert_rows: "t \<in> S \<Longrightarrow> tb.keeps S (insert_rows known t rows)"
  unfolding insert_rows_def by (rule tb.keeps_statement) (auto split: option.splits if_splits)

lemma keeps_synchronize: "tb.keeps S (synchronize t)"
  unfolding synchronize_def by (rule tb.keeps_statement) (auto split: if_splits)

lemma keeps_insert_block: "t \<in> S \<Longrightarrow> tb.keeps S (insert_block n known t rows)"
proof (induction n arbitrary: known)
  case (Suc n)
  show ?case
    unfolding tb.keeps_def
  proof
    fix w :: "'a scan_db"
    obtain w' r where w': "insert_rows known t rows w = (w', r)" by fastforce
    with keeps_insert_rows [OF Suc.prems, of known rows] have "only_tables S w w'"
      by (auto simp: tb.keeps_def) (metis fst_conv)
    moreover have "only_tables S w' (fst (insert_block n (known \<or> taken w) t rows w'))"
      using Suc by (simp add: tb.keeps_def)
    ultimately show "only_tables S w (fst (insert_block (Suc n) known t rows w))"
      using tb.trans by (auto simp: w')
  qed
qed (simp add: keeps_insert_rows)

lemmas keeps_statements = tb.keeps_intros keeps_create_table keeps_create_table_if_absent keeps_attach_from
  keeps_drop_partition keeps_drop_snapshot keeps_delete_rows keeps_synchronize keeps_insert_block

lemma keeps_await: "tb.keeps S await_prior_operations"
  by (simp add: await_prior_operations_def tb.keeps_fetch)

lemma keeps_batch_cleanup: "tb.keeps S batch_cleanup"
  by (simp add: batch_cleanup_def tb.keeps_fetch)

subsection \<open>Programs that change working tables only\<close>

definition working_tables :: "string set" where
  "working_tables = {local_table (source_table False), local_table (source_table True)}"

lemma working_tables [simp]: "local_table (source_table e) \<in> working_tables"
  by (cases e) (simp_all add: working_tables_def)

lemma working_write_events [working_intros]: "tb.keeps working_tables (write_events n rows)"
  by (simp add: write_events_def keeps_statements)

lemma working_write_requests [working_intros]: "tb.keeps working_tables (write_requests n stamp qs)"
  by (induction qs) (auto intro!: keeps_statements)

lemma working_write_candidates [working_intros]: "tb.keeps working_tables (write_candidates env es evs)"
  using working_write_requests by (auto simp: write_candidates_def tb.keeps_def)

lemma working_detect_events [working_intros]: "tb.keeps working_tables (detect_events env es)"
  unfolding detect_events_def
  by (auto intro!: keeps_statements working_intros split: prod.split)

lemma working_flush_batch [working_intros]: "tb.keeps working_tables (flush_batch env inc es)"
  unfolding flush_batch_def Let_def by (auto intro!: keeps_statements working_intros)

lemma working_write_entries [working_intros]: "tb.keeps working_tables (write_entries env inc batch es)"
  by (induction env inc batch es rule: write_entries.induct) (auto simp: Let_def intro!: keeps_statements working_intros)

lemma working_deliver_worker [working_intros]: "tb.keeps working_tables (deliver_worker env inc wk)"
  by (simp add: deliver_worker_def keeps_statements working_intros)

lemma working_flush_worker [working_intros]: "tb.keeps working_tables (flush_worker env inc wk)"
  by (simp add: flush_worker_def keeps_statements working_intros)

lemma working_dispatch [working_intros]: "tb.keeps working_tables (dispatch env inc ws es)"
  by (induction env inc ws es rule: dispatch.induct) (auto simp: Let_def intro!: keeps_statements working_intros)

lemma working_each_worker: "(\<And>wk. tb.keeps S (f wk)) \<Longrightarrow> tb.keeps S (each_worker f ws)"
  by (induction ws) (auto intro!: keeps_statements)

lemma working_writer_data [working_intros]: "tb.keeps working_tables (writer_data env inc wr es)"
  by (cases wr) (auto intro!: keeps_statements working_intros)

lemma working_writer_barrier [working_intros]: "tb.keeps working_tables (writer_barrier env inc wr)"
  by (cases wr) (auto intro!: keeps_statements working_intros working_each_worker)

lemma working_deliver_pending [working_intros]: "tb.keeps working_tables (deliver_pending env pd)"
  by (auto simp: deliver_pending_def intro!: keeps_statements working_intros)

lemma working_barrier [working_intros]: "tb.keeps working_tables (barrier env pd)"
  by (auto simp: barrier_def intro!: keeps_statements working_intros)

lemma working_restore [working_intros]: "tb.keeps working_tables (restore p token)"
  unfolding restore_def restore_table_def check_cut_def
  by (auto intro!: keeps_statements keeps_await)

lemma working_finalize_tables [working_intros]: "tb.keeps working_tables (finalize_tables env time)"
  unfolding finalize_tables_def by (auto intro!: keeps_statements working_intros)

lemma working_final_statistics [working_intros]: "tb.keeps working_tables (final_statistics env s)"
  unfolding final_statistics_def by (auto intro!: keeps_statements working_intros)

lemma working_initialize_schema [working_intros]: "tb.keeps working_tables initialize_schema"
  unfolding initialize_schema_def by (auto intro!: keeps_statements)


subsection \<open>Results\<close>

lemma no_faults: "sd_faults w = [] \<Longrightarrow> w\<lparr>sd_faults := []\<rparr> = w"
  by (cases w) simp

lemma statement_Inr: "statement f w = (w', Inr ()) \<Longrightarrow> \<exists>fs. f (w\<lparr>sd_faults := fs\<rparr>) = Some w'"
  unfolding statement_def Let_def
  by (rule exI [of _ "case sd_faults w of [] \<Rightarrow> [] | _ # fs \<Rightarrow> fs"])
    (auto simp: no_faults split: list.splits verdict.splits option.splits)

lemma bind_Inr: "io_bind m f w = (w', Inr y) \<longleftrightarrow> (\<exists>w1 x. m w = (w1, Inr x) \<and> f x w1 = (w', Inr y))"
  by (auto simp: io_bind_def split: prod.splits sum.splits)

lemma then_Inr: "io_then m k w = (w', Inr y) \<longleftrightarrow> (\<exists>w1. m w = (w1, Inr ()) \<and> k w1 = (w', Inr y))"
  by (simp add: io_then_def bind_Inr)

lemma both_Inr: "io_both m k w = (w', Inr ()) \<longleftrightarrow> (\<exists>w1. m w = (w1, Inr ()) \<and> k w1 = (w', Inr ()))"
  by (auto simp: io_both_def split: prod.splits sum.splits)

lemma lift_Inr: "io_lift r w = (w', Inr y) \<longleftrightarrow> w' = w \<and> r = Inr y"
  by (auto simp: io_lift_def)

lemma return_Inr: "io_return x w = (w', Inr y) \<longleftrightarrow> w' = w \<and> y = x"
  by (auto simp: io_return_def)

lemma fetch_Inr: "fetch q w = (w', Inr y) \<Longrightarrow> \<exists>fs. w' = w\<lparr>sd_faults := fs\<rparr> \<and> y = q w'"
  by (auto simp: fetch_def then_Inr dest!: statement_Inr)

lemmas io_Inr = bind_Inr then_Inr both_Inr lift_Inr return_Inr

text \<open>Tables as the queries of the scan see them, blind to the script.\<close>

lemma retried_Inr:
  assumes "retried n m w = (w', Inr x)"
  shows "\<exists>w1. m w1 = (w', Inr x)"
  using assms by (induction n arbitrary: w) (auto split: prod.splits if_splits)

lemma retried_Inr_keeps:
  assumes "step_relation R" "step_relation.keeps R m" "retried n m w = (w', Inr x)"
  shows "\<exists>w1. R w w1 \<and> m w1 = (w', Inr x)"
  using assms(3)
proof (induction n arbitrary: w)
  case 0
  then show ?case using step_relation.refl [OF assms(1)] by auto
next
  case (Suc n)
  obtain w1 r where w1: "m w = (w1, r)" by fastforce
  then have R: "R w w1"
    using assms(1,2) by (metis fst_conv step_relation.keeps_def)
  show ?case
  proof (cases "r = Inl DatabaseTransient")
    case True
    with Suc w1 obtain w2 where "R w1 w2" "m w2 = (w', Inr x)" by auto
    then show ?thesis using R step_relation.trans [OF assms(1)] by blast
  next
    case False
    with Suc.prems w1 have "m w = (w', Inr x)" by simp
    then show ?thesis using step_relation.refl [OF assms(1)] by blast
  qed
qed

subsection \<open>Snapshots\<close>

definition valid_token :: "string \<Rightarrow> bool" where
  "valid_token token \<longleftrightarrow> length token = 32 \<and> list_all hex_digit token"

definition snapshot_table :: "string \<Rightarrow> string \<Rightarrow> bool \<Rightarrow> string" where
  "snapshot_table p token events = p @ token @ ''_'' @ (if events then ''events'' else ''base'')"

definition token_tables :: "string \<Rightarrow> string \<Rightarrow> string set" where
  "token_tables p token = (\<Union>e. {snapshot_table p token e, local_table (snapshot_table p token e)})"

lemma token_tables [simp]:
  "snapshot_table p token e \<in> token_tables p token" "local_table (snapshot_table p token e) \<in> token_tables p token"
  by (auto simp: token_tables_def)

lemma cut_name_token: "cut_name p token e = (if valid_token token then Inr (snapshot_table p token e) else Inl SnapshotMissing)"
  by (simp add: cut_name_def valid_token_def snapshot_table_def)

definition rows_of :: "string \<Rightarrow> 'r scan_db \<Rightarrow> 'r multiset" where
  "rows_of t w = (case table_of t w of None \<Rightarrow> {#} | Some rows \<Rightarrow> rows)"

text \<open>The facts of the job, and a complete snapshot of them.\<close>

definition facts :: "'r scan_db \<Rightarrow> 'r multiset \<times> 'r multiset" where
  "facts w = (rows_of (local_table (source_table False)) w, rows_of (local_table (source_table True)) w)"

definition snapshot :: "string \<Rightarrow> string \<Rightarrow> 'r scan_db \<Rightarrow> ('r multiset \<times> 'r multiset) option" where
  "snapshot p token w =
     (if valid_token token \<and> (\<forall>e. table_of (snapshot_table p token e) w \<noteq> None)
      then (case (table_of (local_table (snapshot_table p token False)) w, table_of (local_table (snapshot_table p token True)) w) of
              (Some base, Some events) \<Rightarrow> Some (base, events) | _ \<Rightarrow> None)
      else None)"

lemma facts_frame: "(\<And>t. t \<in> working_tables \<Longrightarrow> table_of t w' = table_of t w) \<Longrightarrow> facts w' = facts w"
  by (simp add: facts_def rows_of_def)

lemma snapshot_frame:
  assumes "\<And>t. t \<in> token_tables p token \<Longrightarrow> table_of t w' = table_of t w"
  shows "snapshot p token w' = snapshot p token w"
proof -
  have "table_of (snapshot_table p token e) w' = table_of (snapshot_table p token e) w"
    "table_of (local_table (snapshot_table p token e)) w' = table_of (local_table (snapshot_table p token e)) w" for e
    using assms by simp_all
  then show ?thesis by (simp only: snapshot_def)
qed

text \<open>Names of snapshots differ from working names and between tokens of the same length.\<close>

lemma not_local_suffix: "snapshot_table p token e \<noteq> local_table t"
proof
  assume "snapshot_table p token e = local_table t"
  then have "rev (snapshot_table p token e) = rev (local_table t)" by simp
  then show False by (auto simp: snapshot_table_def local_table_def split: if_splits)
qed

lemma local_not_snapshot [simp]: "local_table t \<noteq> snapshot_table p token e" "snapshot_table p token e \<noteq> local_table t"
  using not_local_suffix by metis+

lemma snapshot_table_inj:
  assumes "snapshot_table p token e = snapshot_table p token' e'" "length token = length token'"
  shows "token = token' \<and> e = e'"
  using assms by (auto simp: snapshot_table_def split: if_splits)

lemma local_table_inj [simp]: "local_table t = local_table t' \<longleftrightarrow> t = t'"
  by (simp add: local_table_def)

lemma token_tables_disjoint:
  assumes "length token = length token'" "token \<noteq> token'"
  shows "token_tables p token \<inter> token_tables p token' = {}"
  using assms snapshot_table_inj not_local_suffix unfolding token_tables_def
  by (auto simp: set_eq_iff) (metis not_local_suffix)+

definition scan_prefix :: "string \<Rightarrow> bool" where
  "scan_prefix p \<longleftrightarrow> prefix ''scan_cut_'' p"

lemma token_tables_prefix: "t \<in> token_tables p token \<Longrightarrow> prefix p t"
  by (auto simp: token_tables_def snapshot_table_def local_table_def)

lemma working_not_prefixed: "scan_prefix p \<Longrightarrow> t \<in> working_tables \<Longrightarrow> \<not> prefix p t"
  by (auto simp: scan_prefix_def working_tables_def local_table_def source_table_def prefix_def)

lemma token_tables_not_working: "scan_prefix p \<Longrightarrow> t \<in> token_tables p token \<Longrightarrow> t \<notin> working_tables"
  using token_tables_prefix working_not_prefixed by blast


subsection \<open>Capture, restore, cleanup\<close>

lemma keeps_Inr: "tb.keeps S m \<Longrightarrow> m w = (w', r) \<Longrightarrow> only_tables S w w'"
  by (metis fst_conv tb.keeps_def)

lemma table_of_only: "only_tables S w w' \<Longrightarrow> t \<notin> S \<Longrightarrow> table_of t w' = table_of t w"
  by (simp add: only_tables_def)

lemma create_table_Inr: "create_table t w = (w', Inr ()) \<Longrightarrow> table_of t w' = Some {#}"
  unfolding create_table_def by (auto dest!: statement_Inr split: if_splits)

lemma attach_from_Inr:
  "attach_from t t' w = (w', Inr ()) \<Longrightarrow>
     \<exists>rows copied. table_of t w = Some rows \<and> table_of t' w = Some copied \<and> table_of t w' = Some (rows + copied)"
  unfolding attach_from_def by (auto dest!: statement_Inr split: option.splits)

lemma drop_partition_Inr: "drop_partition t w = (w', Inr ()) \<Longrightarrow> table_of t w' = Some {#}"
  unfolding drop_partition_def by (auto dest!: statement_Inr split: option.splits)

lemma keeps_clone_table:
  "snap \<in> S \<Longrightarrow> local_table snap \<in> S \<Longrightarrow> tb.keeps S (clone_table source snap)"
  unfolding clone_table_def by (intro keeps_statements)

lemma clone_table_Inr:
  assumes "clone_table source snap w = (w', Inr ())" "local_table source \<notin> {snap, local_table snap}" "snap \<noteq> local_table snap"
  shows "table_of snap w' = Some {#}" "table_of (local_table snap) w' = Some (rows_of (local_table source) w)"
proof -
  obtain w1 w2 w3 w4 where w1: "synchronize (local_table source) w = (w1, Inr ())"
    and w2: "create_table (local_table snap) w1 = (w2, Inr ())" and w3: "create_table snap w2 = (w3, Inr ())"
    and w4: "attach_from (local_table snap) (local_table source) w3 = (w4, Inr ())"
    and w5: "synchronize (local_table snap) w4 = (w', Inr ())"
    using assms(1) unfolding clone_table_def io_Inr by blast
  have k1: "only_tables {} w w1" and k5: "only_tables {} w4 w'"
    using keeps_Inr [OF keeps_synchronize w1] keeps_Inr [OF keeps_synchronize w5] by auto
  have k2: "only_tables {local_table snap} w1 w2"
    by (rule keeps_Inr [OF keeps_create_table w2]) simp
  have k3: "only_tables {snap} w2 w3"
    by (rule keeps_Inr [OF keeps_create_table w3]) simp
  have k4: "only_tables {local_table snap} w3 w4"
    by (rule keeps_Inr [OF keeps_attach_from w4]) simp
  note tables = table_of_only [OF k1] table_of_only [OF k2] table_of_only [OF k3] table_of_only [OF k4] table_of_only [OF k5]
  show "table_of snap w' = Some {#}"
    using create_table_Inr [OF w3] assms(2,3) tables by simp
  show "table_of (local_table snap) w' = Some (rows_of (local_table source) w)"
    using create_table_Inr [OF w2] attach_from_Inr [OF w4] assms(2,3) tables by (auto simp: rows_of_def)
qed

text \<open>A capture adds tables under identifiers not handed out yet.\<close>

definition grows :: "string \<Rightarrow> 'r scan_db \<Rightarrow> 'r scan_db \<Rightarrow> bool" where
  "grows p w w' \<longleftrightarrow>
     sd_manifests w' = sd_manifests w \<and> sd_commits w' = sd_commits w \<and> sd_epoch w' = sd_epoch w \<and>
     sd_generation w' = sd_generation w \<and>
     (\<exists>used. sd_uuids w = used @ sd_uuids w' \<and>
       (\<forall>t. (\<forall>u \<in> set used. t \<notin> token_tables p u) \<longrightarrow> table_of t w' = table_of t w))"

interpretation gr: step_relation "grows p" for p
proof unfold_locales
  fix w w' w'' :: "'a scan_db" assume "grows p w w'" "grows p w' w''"
  then obtain us us' where "sd_uuids w = us @ sd_uuids w'" "sd_uuids w' = us' @ sd_uuids w''"
    "\<forall>t. (\<forall>u \<in> set us. t \<notin> token_tables p u) \<longrightarrow> table_of t w' = table_of t w"
    "\<forall>t. (\<forall>u \<in> set us'. t \<notin> token_tables p u) \<longrightarrow> table_of t w'' = table_of t w'"
    by (auto simp: grows_def)
  then have "sd_uuids w = (us @ us') @ sd_uuids w'' \<and>
      (\<forall>t. (\<forall>u \<in> set (us @ us'). t \<notin> token_tables p u) \<longrightarrow> table_of t w'' = table_of t w)" by auto
  with \<open>grows p w w'\<close> \<open>grows p w' w''\<close> show "grows p w w''"
    unfolding grows_def by metis
qed (auto simp: grows_def)

lemma grows_only: "only_tables {} w w' \<Longrightarrow> grows p w w'"
  by (simp add: only_tables_def grows_def)

lemma lift_bind: "io_bind (io_lift r) f w = (case r of Inl e \<Rightarrow> (w, Inl e) | Inr x \<Rightarrow> f x w)"
  by (simp add: io_bind_def io_lift_def split: sum.split)

lemma capture_once_cases:
  assumes "capture_once p w = (w', r)"
  obtains (none) "w' = w" "\<forall>x. r \<noteq> Inr x"
  | (bad) u us where "sd_uuids w = u # us" "w' = w\<lparr>sd_uuids := us\<rparr>" "\<forall>x. r \<noteq> Inr x"
  | (cloned) u us where "sd_uuids w = u # us" "valid_token u"
      "io_then (io_both (clone_table (source_table False) (snapshot_table p u False))
          (clone_table (source_table True) (snapshot_table p u True)))
        (io_return u) (w\<lparr>sd_uuids := us\<rparr>) = (w', r)"
proof (cases "sd_uuids w")
  note new = new_uuid_def [THEN fun_cong, of w]
  case Nil
  then show thesis
    using assms none new by (auto simp: capture_once_def io_bind_def [of new_uuid])
next
  note new = new_uuid_def [THEN fun_cong, of w]
  case (Cons u us)
  have "capture_once p w = io_bind (io_lift (cut_name p u False)) (\<lambda>base.
     io_bind (io_lift (cut_name p u True)) (\<lambda>events.
     io_then (io_both (clone_table (source_table False) base) (clone_table (source_table True) events))
     (io_return u))) (w\<lparr>sd_uuids := us\<rparr>)"
    using new by (simp add: capture_once_def io_bind_def [of new_uuid] Cons)
  then show thesis
    using assms bad [OF Cons] cloned [OF Cons]
    by (auto simp: cut_name_token lift_bind split: if_splits)
qed

lemma keeps_clones:
  "tb.keeps (token_tables p token) (io_then (io_both (clone_table (source_table False) (snapshot_table p token False))
      (clone_table (source_table True) (snapshot_table p token True))) (io_return token))"
  by (intro keeps_statements keeps_clone_table) simp_all

lemma keeps_capture_once: "gr.keeps p (capture_once p)"
  unfolding gr.keeps_def
proof
  fix w :: "'a scan_db"
  obtain w' r where w': "capture_once p w = (w', r)" by fastforce
  from this have "grows p w w'"
  proof (cases rule: capture_once_cases)
    case (cloned u us)
    from keeps_Inr [OF keeps_clones cloned(3)] show ?thesis
      using cloned(1) by (auto simp: only_tables_def grows_def intro: exI [of _ "[u]"])
  qed (auto simp: grows_def gr.refl intro: exI [of _ "[_]"])
  with w' show "grows p w (fst (capture_once p w))" by simp
qed

lemma keeps_capture: "gr.keeps p (capture p n)"
  unfolding capture_def await_prior_operations_def
  by (intro gr.keeps_intros keeps_capture_once)

lemma capture_once_Inr:
  assumes "capture_once p w = (w', Inr token)" "scan_prefix p"
  shows "snapshot p token w' = Some (facts w)"
  using assms(1)
proof (cases rule: capture_once_cases)
  case (cloned u us)
  let ?t = u and ?w0 = "w\<lparr>sd_uuids := us\<rparr>"
  from cloned(3) obtain w1 where token: "token = ?t"
    and c1: "clone_table (source_table False) (snapshot_table p ?t False) ?w0 = (w1, Inr ())"
    and c2: "clone_table (source_table True) (snapshot_table p ?t True) w1 = (w', Inr ())"
    unfolding io_Inr by blast
  have names: "local_table (source_table e) \<notin> token_tables p t" for e t
    using token_tables_not_working [OF assms(2)] working_tables by blast
  then have ne: "local_table (source_table e) \<notin> {snapshot_table p ?t e', local_table (snapshot_table p ?t e')}" for e e'
    by (auto simp: token_tables_def)
  have k1: "only_tables {snapshot_table p ?t False, local_table (snapshot_table p ?t False)} ?w0 w1"
    by (rule keeps_Inr [OF keeps_clone_table c1]) simp_all
  have k2: "only_tables {snapshot_table p ?t True, local_table (snapshot_table p ?t True)} w1 w'"
    by (rule keeps_Inr [OF keeps_clone_table c2]) simp_all
  have diff: "snapshot_table p ?t False \<notin> {snapshot_table p ?t True, local_table (snapshot_table p ?t True)}"
    "local_table (snapshot_table p ?t False) \<notin> {snapshot_table p ?t True, local_table (snapshot_table p ?t True)}"
    using snapshot_table_inj [of p ?t False ?t True] by auto
  have rows: "rows_of (local_table (source_table True)) w1 = rows_of (local_table (source_table True)) w"
    using table_of_only [OF k1] ne by (simp add: rows_of_def)
  have "table_of (snapshot_table p ?t False) w' = Some {#}"
    "table_of (local_table (snapshot_table p ?t False)) w' = Some (rows_of (local_table (source_table False)) w)"
    "table_of (snapshot_table p ?t True) w' = Some {#}"
    "table_of (local_table (snapshot_table p ?t True)) w' = Some (rows_of (local_table (source_table True)) w)"
    using clone_table_Inr [OF c1 ne] clone_table_Inr [OF c2 ne] not_local_suffix table_of_only [OF k2] diff rows
    by (simp_all add: rows_of_def)
  moreover have "table_of (snapshot_table p ?t e) w' \<noteq> None" for e
    using calculation by (cases e) simp_all
  ultimately show ?thesis
    using cloned(2) by (simp add: snapshot_def token facts_def)
qed simp_all


text \<open>A finished capture holds the facts, under an identifier handed out by it.\<close>

lemma grows_facts:
  assumes "grows p w w'" "scan_prefix p"
  shows "facts w' = facts w"
proof (rule facts_frame)
  fix t assume "t \<in> working_tables"
  then have "t \<notin> token_tables p u" for u
    using token_tables_not_working [OF assms(2)] by blast
  then show "table_of t w' = table_of t w"
    using assms(1) by (auto simp: grows_def)
qed

lemma step_relation_grows: "step_relation (grows p)"
  by (rule gr.step_relation_axioms)

lemma capture_Inr:
  assumes "capture p n w = (w', Inr token)" "scan_prefix p"
  shows "snapshot p token w' = Some (facts w')"
proof -
  obtain w1 where w1: "await_prior_operations w = (w1, Inr ())" and c: "retried n (capture_once p) w1 = (w', Inr token)"
    using assms(1) unfolding capture_def io_Inr by blast
  obtain w2 where w2: "grows p w1 w2" and once: "capture_once p w2 = (w', Inr token)"
    using retried_Inr_keeps [OF step_relation_grows keeps_capture_once c] by blast
  have g3: "grows p w2 w'"
    using keeps_capture_once once by (metis fst_conv gr.keeps_def)
  show ?thesis
    using capture_once_Inr [OF once assms(2)] grows_facts [OF g3 assms(2)] by simp
qed

text \<open>A finished restore leaves exactly the facts of the snapshot.\<close>

lemma restore_table_Inr:
  assumes "restore_table snap source w = (w', Inr ())" "local_table source \<noteq> local_table snap"
  shows "table_of (local_table source) w' = table_of (local_table snap) w \<and> table_of (local_table snap) w \<noteq> None"
proof -
  obtain w1 w2 w3 w4 where w1: "drop_partition (local_table source) w = (w1, Inr ())"
    and w2: "await_prior_operations w1 = (w2, Inr ())"
    and w3: "attach_from (local_table source) (local_table snap) w2 = (w3, Inr ())"
    and w4: "await_prior_operations w3 = (w4, Inr ())" and w5: "synchronize (local_table source) w4 = (w', Inr ())"
    using assms(1) unfolding restore_table_def io_Inr by blast
  have k1: "only_tables {local_table source} w w1"
    by (rule keeps_Inr [OF keeps_drop_partition w1]) simp
  have k2: "only_tables {} w1 w2" and k4: "only_tables {} w3 w4" and k5: "only_tables {} w4 w'"
    by (rule keeps_Inr [OF keeps_await w2], rule keeps_Inr [OF keeps_await w4], rule keeps_Inr [OF keeps_synchronize w5])
  show ?thesis
    using drop_partition_Inr [OF w1] attach_from_Inr [OF w3] assms(2)
      table_of_only [OF k1] table_of_only [OF k2] table_of_only [OF k4] table_of_only [OF k5] by auto
qed

lemma keeps_restore_table: "local_table source \<in> S \<Longrightarrow> tb.keeps S (restore_table snap source)"
  unfolding restore_table_def by (intro keeps_statements keeps_await)

lemma keeps_check_cut: "tb.keeps S (check_cut snap)"
  unfolding check_cut_def by (auto intro!: keeps_statements)

lemma restore_Inr:
  assumes "restore p token w = (w', Inr ())" "scan_prefix p"
  shows "snapshot p token w = Some (facts w')"
proof -
  obtain w1 w2 w3 w4 where w1: "await_prior_operations w = (w1, Inr ())" and valid: "valid_token token"
    and w2: "check_cut (snapshot_table p token False) w1 = (w2, Inr ())"
    and w3: "check_cut (snapshot_table p token True) w2 = (w3, Inr ())"
    and w4: "restore_table (snapshot_table p token False) (source_table False) w3 = (w4, Inr ())"
    and w5: "restore_table (snapshot_table p token True) (source_table True) w4 = (w', Inr ())"
    using assms(1) unfolding restore_def io_Inr cut_name_token by (auto split: if_splits)
  have k: "only_tables {} w w1" "only_tables {} w1 w2" "only_tables {} w2 w3"
    by (rule keeps_Inr [OF keeps_await w1], rule keeps_Inr [OF keeps_check_cut w2], rule keeps_Inr [OF keeps_check_cut w3])
  note same = table_of_only [OF k(1), simplified] table_of_only [OF k(2), simplified] table_of_only [OF k(3), simplified]
  have exist: "table_of (snapshot_table p token e) w \<noteq> None" for e
    using w2 w3 same unfolding check_cut_def io_Inr by (cases e) (auto dest!: fetch_Inr split: if_splits simp: io_Inr)
  have names: "local_table (source_table e) \<noteq> local_table (snapshot_table p token e')" for e e'
    using token_tables_not_working [OF assms(2) token_tables(2)] working_tables by metis
  have k4: "only_tables {local_table (source_table False)} w3 w4"
    by (rule keeps_Inr [OF keeps_restore_table w4]) simp
  have k5: "only_tables {local_table (source_table True)} w4 w'"
    by (rule keeps_Inr [OF keeps_restore_table w5]) simp
  have "local_table (source_table False) \<noteq> local_table (source_table True)" by (simp add: source_table_def)
  then show ?thesis
    using restore_table_Inr [OF w4 names] restore_table_Inr [OF w5 names] table_of_only [OF k4] table_of_only [OF k5]
      same names names [symmetric] valid exist
    by (auto simp: snapshot_def facts_def rows_of_def)
qed

text \<open>A cleanup removes only what no kept token names.\<close>

definition removable :: "string \<Rightarrow> string list \<Rightarrow> string set" where
  "removable p keep = {t. prefix p t \<and> (\<forall>token \<in> set keep. token \<noteq> [] \<longrightarrow> t \<notin> token_tables p token)}"

definition drops :: "string set \<Rightarrow> 'r scan_db \<Rightarrow> 'r scan_db \<Rightarrow> bool" where
  "drops S w w' \<longleftrightarrow> only_tables S w w' \<and> (\<forall>t. table_of t w = None \<longrightarrow> table_of t w' = None)"

interpretation dr: step_relation "drops S" for S
  by unfold_locales (auto simp: drops_def only_tables_def)

lemma drops_drop_snapshot: "t \<in> S \<Longrightarrow> dr.keeps S (drop_snapshot t)"
  unfolding drop_snapshot_def by (rule dr.keeps_statement) (auto simp: drops_def)

lemma in_chunks: "b \<in> set (chunks n xs) \<Longrightarrow> t \<in> set b \<Longrightarrow> t \<in> set xs"
proof (induction n xs rule: chunks.induct)
  case (1 n xs)
  then show ?case
    by (cases "n = 0 \<or> xs = []") (auto simp: chunks.simps [of n xs] dest: in_set_takeD in_set_dropD)
qed

lemma keeps_cleanup: "dr.keeps (removable p keep) (cleanup p keep)"
  unfolding dr.keeps_def
proof
  fix w :: "'a scan_db"
  let ?q = "\<lambda>w. filter (prefix p) (map fst (sd_tables w))"
  obtain w1 r where w1: "fetch ?q w = (w1, r)" by fastforce
  have k1: "drops (removable p keep) w w1"
    using dr.keeps_fetch [of "removable p keep" ?q] w1 by (metis dr.keeps_def fst_conv)
  have rest: "drops (removable p keep) w1 (fst (io_sequence (map (\<lambda>group. io_all (map drop_snapshot group))
      (chunks 4 (filter (\<lambda>t. \<not> kept p keep t) tables))) w1))" if "set tables \<subseteq> Collect (prefix p)" for tables
  proof -
    have "t \<in> removable p keep" if "group \<in> set (chunks 4 (filter (\<lambda>t. \<not> kept p keep t) tables))" "t \<in> set group" for t group
      using in_chunks [OF that] \<open>set tables \<subseteq> Collect (prefix p)\<close>
      by (auto simp: removable_def kept_def list_ex_iff token_tables_def snapshot_table_def local_table_def)
    then have "dr.keeps (removable p keep) (io_sequence (map (\<lambda>group. io_all (map drop_snapshot group))
        (chunks 4 (filter (\<lambda>t. \<not> kept p keep t) tables))) :: ('a, unit) io)"
      by (intro dr.keeps_sequence) (auto intro!: dr.keeps_all drops_drop_snapshot)
    then show ?thesis by (simp add: dr.keeps_def)
  qed
  show "drops (removable p keep) w (fst (cleanup p keep w))"
  proof (cases r)
    case (Inl e)
    then show ?thesis using k1 w1 by (simp add: cleanup_def io_bind_def)
  next
    case (Inr tables)
    then have "set tables \<subseteq> Collect (prefix p)"
      using fetch_Inr [of ?q w w1 tables] w1 by auto
    from dr.trans [OF k1 rest [OF this]] show ?thesis
      using w1 Inr by (simp add: cleanup_def io_bind_def)
  qed
qed

end
