(* ===== verification/ScanTriples.thy ===== *)
theory ScanTriples
  imports ScanFrames
begin

section \<open>What every step of a scan keeps\<close>

text \<open>
  What other readers may rely on between executions is the published facts: the baseline of an
  unfinished round, or else the working tables. The invariant \<open>store_ok\<close> makes them recoverable
  at any time. Triples with a postcondition for errors carry it through the operations of the
  store; \<open>ScanAtomic\<close> composes them to executions.
\<close>

subsection \<open>The invariant\<close>

definition committed_round :: "scan_state \<Rightarrow> 'r scan_db \<Rightarrow> bool" where
  "committed_round s w \<longleftrightarrow> (\<exists>c. committed_row w = Some c \<and> cs_epoch c = ss_event_time s)"

definition published :: "string \<Rightarrow> 'r scan_db \<Rightarrow> ('r multiset \<times> 'r multiset) option" where
  "published p w =
     (case manifest w of
        Some s \<Rightarrow> if active s \<and> \<not> committed_round s w then snapshot p (ss_baseline_snapshot s) w else Some (facts w)
      | None \<Rightarrow> Some (facts w))"

definition state_ok :: "scan_state \<Rightarrow> bool" where
  "state_ok s \<longleftrightarrow> validate_envelope s = Inr () \<and> 0 \<le> sint (ss_event_time s)"

lemma state_ok_iff:
  "state_ok s \<longleftrightarrow> ss_schema_version s = 1 \<and> ss_id s = 1 \<and> ss_generation s \<le> 1 \<and> ss_phase s \<le> ABANDONED \<and>
     0 \<le> sint (ss_event_time s)"
  by (auto simp: state_ok_def validate_envelope_def)

definition names_ok :: "string \<Rightarrow> 'r scan_db \<Rightarrow> bool" where
  "names_ok p w \<longleftrightarrow> scan_prefix p \<and> distinct (sd_uuids w) \<and>
     (\<forall>u \<in> set (sd_uuids w). valid_token u \<and> (\<forall>t \<in> token_tables p u. table_of t w = None))"

definition open_ok :: "string \<Rightarrow> scan_state \<Rightarrow> 'r scan_db \<Rightarrow> bool" where
  "open_ok p s w \<longleftrightarrow> snapshot p (ss_baseline_snapshot s) w \<noteq> None \<and> snapshot p (ss_checkpoint_snapshot s) w \<noteq> None \<and>
     (\<forall>c. committed_row w = Some c \<longrightarrow> cs_generation c \<noteq> ss_generation s)"

definition store_ok :: "string \<Rightarrow> 'r scan_db \<Rightarrow> bool" where
  "store_ok p w \<longleftrightarrow> names_ok p w \<and>
     (\<forall>s. manifest w = Some s \<longrightarrow> state_ok s) \<and>
     (\<forall>c. committed_row w = Some c \<longrightarrow>
        cs_generation c \<le> 1 \<and> (\<exists>s. manifest w = Some s \<and> sint (cs_epoch c) \<le> sint (ss_event_time s))) \<and>
     (\<forall>s. manifest w = Some s \<and> active s \<longrightarrow>
        (if committed_round s w then ss_phase s = FINALIZING else open_ok p s w))"

definition live :: "scan_state \<Rightarrow> 'r scan_db \<Rightarrow> bool" where
  "live s w \<longleftrightarrow> manifest w = Some s \<and> active s \<and> \<not> committed_round s w"

text \<open>
  What a job's first, full scan is to store can be followed in a ledger: the entries of its
  source in their order, the entry each checkpoint stands before, the rows of some entries at
  a generation and an epoch, and the facts before. With the ledger on, the snapshot of every
  open manifest holds exactly the rows of the entries before its checkpoint.
\<close>

record ('e, 'r) ledger =
  lg_on :: bool
  lg_entries :: "'e list"
  lg_position :: "bytes \<Rightarrow> nat"
  lg_rows :: "u8 \<Rightarrow> u64 \<Rightarrow> 'e list \<Rightarrow> 'r multiset"
  lg_base :: "'r multiset \<times> 'r multiset"

definition reached :: "('e, 'r) ledger \<Rightarrow> bytes \<Rightarrow> nat" where
  "reached K c = (if c = [] then 0 else lg_position K c)"

definition cut_of :: "('e, 'r) ledger \<Rightarrow> scan_state \<Rightarrow> nat" where
  "cut_of K s = (if ss_phase s = RUNNING then reached K (ss_checkpoint s) else length (lg_entries K))"

definition stored :: "('e, 'r) ledger \<Rightarrow> scan_state \<Rightarrow> 'e list \<Rightarrow> 'r multiset \<times> 'r multiset" where
  "stored K s es = (fst (lg_base K) + lg_rows K (ss_generation s) (ss_event_time s) es, snd (lg_base K))"

definition sealed :: "('e, 'r) ledger \<Rightarrow> scan_state \<Rightarrow> ('r multiset \<times> 'r multiset) option \<Rightarrow> bool" where
  "sealed K s x \<longleftrightarrow> (lg_on K \<longrightarrow> \<not> ss_incremental s \<and> x = Some (stored K s (take (cut_of K s) (lg_entries K))))"

text \<open>The invariant of executions that started with the commits \<open>C\<close> and the published facts \<open>P\<close>.\<close>

definition scan_inv ::
  "string \<Rightarrow> committed_scan list \<Rightarrow> ('r multiset \<times> 'r multiset) option \<Rightarrow> ('e, 'r) ledger \<Rightarrow> 'r scan_db \<Rightarrow> bool" where
  "scan_inv p C P K w \<longleftrightarrow> store_ok p w \<and> (\<exists>cs. sd_commits w = C @ cs) \<and> 
     (lg_on K \<longrightarrow> C = [] \<and> P = Some (lg_base K) \<and> (\<forall>g t. lg_rows K g t [] = {#})) \<and>
     (sd_commits w = C \<longrightarrow> published p w = P \<and>
        (\<forall>s. live s w \<longrightarrow> sealed K s (snapshot p (ss_checkpoint_snapshot s) w)))"

subsection \<open>Triples\<close>

definition hoare :: "('r scan_db \<Rightarrow> bool) \<Rightarrow> ('r, 'a) io \<Rightarrow> ('a \<Rightarrow> 'r scan_db \<Rightarrow> bool) \<Rightarrow> ('r scan_db \<Rightarrow> bool) \<Rightarrow> bool" where
  "hoare P m Q E \<longleftrightarrow> (\<forall>w. P w \<longrightarrow> (case m w of (w', Inr x) \<Rightarrow> Q x w' | (w', Inl _) \<Rightarrow> E w'))"

lemma hoareI: "(\<And>w w' x. P w \<Longrightarrow> m w = (w', Inr x) \<Longrightarrow> Q x w') \<Longrightarrow> (\<And>w w' e. P w \<Longrightarrow> m w = (w', Inl e) \<Longrightarrow> E w')
    \<Longrightarrow> hoare P m Q E"
  by (auto simp: hoare_def split: prod.split sum.split)

lemma hoareD:
  "hoare P m Q E \<Longrightarrow> P w \<Longrightarrow> m w = (w', Inr x) \<Longrightarrow> Q x w'"
  "hoare P m Q E \<Longrightarrow> P w \<Longrightarrow> m w = (w', Inl e) \<Longrightarrow> E w'"
  by (fastforce simp: hoare_def)+

lemma hoare_bind:
  assumes "hoare P m R E" "\<And>x. hoare (R x) (f x) Q E"
  shows "hoare P (io_bind m f) Q E"
proof (rule hoareI)
  fix w w' y assume w: "P w" "io_bind m f w = (w', Inr y)"
  then obtain w1 x where m: "m w = (w1, Inr x)" and f: "f x w1 = (w', Inr y)"
    unfolding bind_Inr by blast
  show "Q y w'"
    by (rule hoareD(1) [OF assms(2) hoareD(1) [OF assms(1) w(1) m] f])
next
  fix w w' e assume w: "P w" "io_bind m f w = (w', Inl e)"
  obtain w1 r where m: "m w = (w1, r)" by fastforce
  show "E w'"
  proof (cases r)
    case (Inl e1)
    then show ?thesis using w m hoareD(2) [OF assms(1)] by (simp add: io_bind_def)
  next
    case (Inr x)
    then have "R x w1" "f x w1 = (w', Inl e)"
      using w m hoareD(1) [OF assms(1)] by (simp_all add: io_bind_def)
    then show ?thesis by (rule hoareD(2) [OF assms(2)])
  qed
qed

lemma hoare_then: "hoare P m (\<lambda>_. R) E \<Longrightarrow> hoare R k Q E \<Longrightarrow> hoare P (io_then m k) Q E"
  unfolding io_then_def by (rule hoare_bind)

lemma hoare_return: "(\<And>w. P w \<Longrightarrow> Q x w) \<Longrightarrow> hoare P (io_return x) Q E"
  by (simp add: hoare_def io_return_def)

lemma hoare_lift: "(\<And>w x. P w \<Longrightarrow> r = Inr x \<Longrightarrow> Q x w) \<Longrightarrow> (\<And>w. P w \<Longrightarrow> E w) \<Longrightarrow> hoare P (io_lift r) Q E"
  by (auto simp: hoare_def io_lift_def split: sum.split)

lemma hoare_if: "(b \<Longrightarrow> hoare P m Q E) \<Longrightarrow> (\<not> b \<Longrightarrow> hoare P k Q E) \<Longrightarrow> hoare P (if b then m else k) Q E"
  by simp

lemma hoare_weaken:
  "hoare P m Q E \<Longrightarrow> (\<And>w. P' w \<Longrightarrow> P w) \<Longrightarrow> (\<And>x w. Q x w \<Longrightarrow> Q' x w) \<Longrightarrow> (\<And>w. E w \<Longrightarrow> E' w) \<Longrightarrow> hoare P' m Q' E'"
  unfolding hoare_def by (auto split: prod.splits sum.splits) blast+

lemma hoare_pre: "hoare P m Q E \<Longrightarrow> (\<And>w. P' w \<Longrightarrow> P w) \<Longrightarrow> hoare P' m Q E"
  by (rule hoare_weaken)

lemma hoare_assume: "(b \<Longrightarrow> hoare P m Q E) \<Longrightarrow> hoare (\<lambda>w. b \<and> P w) m Q E"
  by (auto simp: hoare_def)

lemma hoare_retried:
  assumes "hoare P m Q P"
  shows "hoare P (retried n m) Q P"
proof (induction n)
  case (Suc n)
  show ?case
    unfolding hoare_def
  proof (intro allI impI)
    fix w assume w: "P w"
    obtain w' r where m: "m w = (w', r)" by fastforce
    have m': "case (w', r) of (w', Inr x) \<Rightarrow> Q x w' | (w', Inl _) \<Rightarrow> P w'"
      using assms w m unfolding hoare_def by metis
    show "case retried (Suc n) m w of (w', Inr x) \<Rightarrow> Q x w' | (w', Inl _) \<Rightarrow> P w'"
    proof (cases "r = Inl DatabaseTransient")
      case True
      then have "P w'" using m' by simp
      with Suc m True show ?thesis by (auto simp: hoare_def)
    qed (use m m' in simp)
  qed
qed (use assms in simp)

text \<open>Assertions do not look at the script.\<close>

definition blind :: "('r scan_db \<Rightarrow> bool) \<Rightarrow> bool" where
  "blind P \<longleftrightarrow> (\<forall>w fs. P w \<longrightarrow> P (w\<lparr>sd_faults := fs\<rparr>))"

lemma hoare_statement:
  assumes "blind P" "\<And>w. P w \<Longrightarrow> E w" "\<And>w w'. P w \<Longrightarrow> f w = Some w' \<Longrightarrow> Q () w' \<and> E w'"
  shows "hoare P (statement f) Q E"
proof (rule hoareI)
  fix w w' and x :: unit assume "P w" "statement f w = (w', Inr x)"
  with assms(1) statement_Inr show "Q x w'"
    using assms(3) by (simp add: blind_def) blast
next
  fix w w' e assume w: "P w" "statement f w = (w', Inl e)"
  then have "P (w\<lparr>sd_faults := fs\<rparr>)" for fs using assms(1) by (simp add: blind_def)
  with w assms(2,3) show "E w'"
    unfolding statement_def Let_def by (auto split: list.splits verdict.splits option.splits if_splits)
qed

lemma hoare_fetch:
  assumes "blind P" "\<And>w. P w \<Longrightarrow> Q (q w) w" "\<And>w. P w \<Longrightarrow> E w"
  shows "hoare P (fetch q) Q E"
  unfolding fetch_def
proof (rule hoare_then)
  show "hoare P (statement Some) (\<lambda>_. P) E"
    by (rule hoare_statement) (use assms in auto)
  show "hoare P (\<lambda>w. (w, Inr (q w))) Q E"
    by (simp add: hoare_def assms(2))
qed

text \<open>A program that changes only some tables keeps what does not depend on them.\<close>

lemma hoare_only:
  assumes "tb.keeps S m" "\<And>w w'. P w \<Longrightarrow> only_tables S w w' \<Longrightarrow> P w'"
  shows "hoare P m (\<lambda>_. P) P"
  using assms unfolding hoare_def tb.keeps_def by (auto split: prod.split sum.split) (metis fst_conv)+


subsection \<open>What keeps the invariant\<close>

definition same_meta :: "'r scan_db \<Rightarrow> 'r scan_db \<Rightarrow> bool" where
  "same_meta w w' \<longleftrightarrow> sd_manifests w' = sd_manifests w \<and> sd_commits w' = sd_commits w"

lemma same_meta_views:
  assumes "same_meta w w'"
  shows "manifest w' = manifest w" "committed_row w' = committed_row w" "committed_round s w' = committed_round s w"
    "live s w' = live s w" "sd_commits w' = sd_commits w"
  using assms by (simp_all add: same_meta_def manifest_def committed_row_def committed_round_def live_def)

lemma same_meta_only: "only_tables S w w' \<Longrightarrow> same_meta w w'"
  by (simp add: only_tables_def same_meta_def)

lemma same_meta_grows: "grows p w w' \<Longrightarrow> same_meta w w'"
  by (simp add: grows_def same_meta_def)

text \<open>Enough for the invariant: names stay free, the snapshots of an open round stay, and else the facts do.\<close>

lemma scan_inv_frame:
  assumes "scan_inv p C P K w" "same_meta w w'" "names_ok p w'"
    "\<And>s. live s w \<Longrightarrow> snapshot p (ss_baseline_snapshot s) w' = snapshot p (ss_baseline_snapshot s) w"
    "\<And>s. live s w \<Longrightarrow> snapshot p (ss_checkpoint_snapshot s) w' = snapshot p (ss_checkpoint_snapshot s) w"
    "(\<And>s. \<not> live s w) \<Longrightarrow> facts w' = facts w"
  shows "scan_inv p C P K w'"
proof -
  note same = same_meta_views [OF assms(2)]
  have ok: "store_ok p w" using assms(1) by (simp add: scan_inv_def)
  have "store_ok p w'"
    unfolding store_ok_def same
  proof (intro conjI allI impI)
    fix s assume s: "manifest w = Some s \<and> active s"
    show "if committed_round s w then ss_phase s = FINALIZING else open_ok p s w'"
    proof (cases "committed_round s w")
      case False
      then have "live s w" using s by (simp add: live_def)
      then show ?thesis
        using assms(4,5) ok s False by (simp add: store_ok_def open_ok_def same)
    qed (use ok s in \<open>simp add: store_ok_def\<close>)
  qed (use ok assms(3) in \<open>auto simp: store_ok_def\<close>)
  moreover have "published p w' = published p w"
  proof (cases "\<exists>s. live s w")
    case True
    then show ?thesis using assms(4) by (auto simp: published_def same live_def)
  next
    case False
    then show ?thesis using assms(6) by (auto simp: published_def same live_def split: option.split)
  qed
  ultimately show ?thesis using assms(1,5) by (simp add: scan_inv_def same)
qed

lemma names_ok_only:
  assumes "names_ok p w" "only_tables S w w'" "\<And>u t. u \<in> set (sd_uuids w) \<Longrightarrow> t \<in> token_tables p u \<Longrightarrow> t \<in> S \<Longrightarrow> table_of t w' = None"
  shows "names_ok p w'"
  using assms unfolding names_ok_def only_tables_def by metis

lemma scan_inv_prefix: "scan_inv p C P K w \<Longrightarrow> scan_prefix p" "scan_inv p C P K w \<Longrightarrow> names_ok p w"
  by (simp_all add: scan_inv_def store_ok_def names_ok_def)

text \<open>Writing working tables while a round is open.\<close>

lemma scan_inv_working:
  assumes "scan_inv p C P K w" "live s w" "only_tables working_tables w w'"
  shows "scan_inv p C P K w'" "live s w'" "snapshot p token w' = snapshot p token w"
proof -
  have away: "t \<notin> working_tables" if "t \<in> token_tables p token" for t token
    using token_tables_not_working scan_inv_prefix(1) [OF assms(1)] that by blast
  have snap: "snapshot p token w' = snapshot p token w" for token
    by (rule snapshot_frame) (use away assms(3) in \<open>auto simp: only_tables_def\<close>)
  show "scan_inv p C P K w'"
  proof (rule scan_inv_frame [OF assms(1)])
    show "names_ok p w'"
      by (rule names_ok_only [OF scan_inv_prefix(2) [OF assms(1)] assms(3)]) (use away in blast)
  qed (use assms snap same_meta_only in auto)
  show "live s w'" using assms(2,3) same_meta_views(4) [OF same_meta_only] by blast
  show "snapshot p token w' = snapshot p token w" by (rule snap)
qed

text \<open>A capture at any time.\<close>

lemma snapshot_complete: "snapshot p token w \<noteq> None \<Longrightarrow> valid_token token \<and> (\<forall>e. table_of (snapshot_table p token e) w \<noteq> None)"
  by (metis snapshot_def)

lemma snapshot_token_old:
  assumes "names_ok p w" "snapshot p token w \<noteq> None" "u \<in> set (sd_uuids w)"
  shows "token_tables p token \<inter> token_tables p u = {}"
proof (rule token_tables_disjoint)
  show "length token = length u"
    using assms(1,3) snapshot_complete [OF assms(2)] by (auto simp: names_ok_def valid_token_def)
  show "token \<noteq> u"
  proof
    assume "token = u"
    then have "table_of (snapshot_table p token False) w = None"
      using assms(1,3) by (auto simp: names_ok_def)
    then show False using snapshot_complete [OF assms(2)] by blast
  qed
qed

lemma snapshot_grows:
  assumes "names_ok p w" "grows p w w'" "snapshot p token w \<noteq> None"
  shows "snapshot p token w' = snapshot p token w"
proof (rule snapshot_frame)
  fix t assume "t \<in> token_tables p token"
  then have "\<forall>u \<in> set (sd_uuids w). t \<notin> token_tables p u"
    using snapshot_token_old [OF assms(1,3)] by blast
  then show "table_of t w' = table_of t w"
    using assms(2) by (auto simp: grows_def)
qed

lemma names_ok_grows:
  assumes "names_ok p w" "grows p w w'"
  shows "names_ok p w'"
proof -
  obtain used where used: "sd_uuids w = used @ sd_uuids w'"
    and same: "\<forall>t. (\<forall>u \<in> set used. t \<notin> token_tables p u) \<longrightarrow> table_of t w' = table_of t w"
    using assms(2) by (auto simp: grows_def)
  have "table_of t w' = None" if "u \<in> set (sd_uuids w')" "t \<in> token_tables p u" for u t
  proof -
    have "t \<notin> token_tables p v" if "v \<in> set used" for v
    proof -
      have "u \<noteq> v" "length u = length v"
        using assms(1) used that \<open>u \<in> set (sd_uuids w')\<close> by (auto simp: names_ok_def valid_token_def)
      then show ?thesis
        using token_tables_disjoint \<open>t \<in> token_tables p u\<close> by blast
    qed
    then have "table_of t w' = table_of t w" using same by blast
    then show ?thesis
      using assms(1) that used by (auto simp: names_ok_def)
  qed
  then show ?thesis
    using assms(1) used by (simp add: names_ok_def)
qed

lemma scan_inv_grows:
  assumes "scan_inv p C P K w" "grows p w w'"
  shows "scan_inv p C P K w'" "live s w' = live s w" "facts w' = facts w"
proof -
  have names: "names_ok p w" and pre: "scan_prefix p"
    using scan_inv_prefix [OF assms(1)] by simp_all
  show "facts w' = facts w" by (rule grows_facts [OF assms(2) pre])
  have snaps: "snapshot p (ss_baseline_snapshot s) w \<noteq> None" "snapshot p (ss_checkpoint_snapshot s) w \<noteq> None" if "live s w" for s
    using assms(1) that by (auto simp: scan_inv_def store_ok_def open_ok_def live_def)
  show "scan_inv p C P K w'"
    by (rule scan_inv_frame [OF assms(1) same_meta_grows [OF assms(2)] names_ok_grows [OF names assms(2)]])
      (use snapshot_grows [OF names assms(2)] snaps grows_facts [OF assms(2) pre] in auto)
  show "live s w' = live s w"
    by (rule same_meta_views(4) [OF same_meta_grows [OF assms(2)]])
qed

text \<open>A cleanup that keeps the snapshots of an open round.\<close>

lemma scan_inv_cleanup:
  assumes "scan_inv p C P K w" "drops (removable p keep) w w'"
    "\<And>s. live s w \<Longrightarrow> ss_baseline_snapshot s \<in> set keep \<and> ss_checkpoint_snapshot s \<in> set keep"
  shows "scan_inv p C P K w'" "live s w' = live s w" "facts w' = facts w"
proof -
  have names: "names_ok p w" and pre: "scan_prefix p"
    using scan_inv_prefix [OF assms(1)] by simp_all
  have only: "only_tables (removable p keep) w w'" using assms(2) by (simp add: drops_def)
  show facts: "facts w' = facts w"
    by (rule facts_frame) (use only working_not_prefixed [OF pre] in \<open>auto simp: only_tables_def removable_def\<close>)
  have kept: "snapshot p token w' = snapshot p token w" if "token \<in> set keep" "snapshot p token w \<noteq> None" for token
  proof (rule snapshot_frame)
    fix t assume "t \<in> token_tables p token"
    moreover have "token \<noteq> []" using that(2) by (auto simp: snapshot_def valid_token_def split: if_splits)
    ultimately have "t \<notin> removable p keep" using that(1) by (auto simp: removable_def)
    then show "table_of t w' = table_of t w" using only by (simp add: only_tables_def)
  qed
  have gone: "names_ok p w'"
    by (rule names_ok_only [OF names only]) (use names assms(2) in \<open>auto simp: names_ok_def drops_def\<close>)
  have snaps: "snapshot p (ss_baseline_snapshot s) w \<noteq> None" "snapshot p (ss_checkpoint_snapshot s) w \<noteq> None" if "live s w" for s
    using assms(1) that by (auto simp: scan_inv_def store_ok_def open_ok_def live_def)
  show "live s w' = live s w"
    by (rule same_meta_views(4) [OF same_meta_only [OF only]])
  show "scan_inv p C P K w'"
    by (rule scan_inv_frame [OF assms(1) same_meta_only [OF only] gone])
      (use assms(3) kept snaps facts in auto)
qed


subsection \<open>Publishing a manifest\<close>

lemma latest_by_snoc:
  "latest_by f (rs @ [r]) = (case latest_by f rs of None \<Rightarrow> Some r | Some r' \<Rightarrow> if f r' \<le> f r then Some r else Some r')"
  by (induction rs) (auto split: option.split)

definition add_manifest :: "scan_state \<Rightarrow> 'r scan_db \<Rightarrow> 'r scan_db" where
  "add_manifest s w = w\<lparr>sd_manifests := sd_manifests w @ [s]\<rparr>"

lemma add_manifest_snapshot [simp]: "snapshot p token (add_manifest s w) = snapshot p token w"
  by (rule snapshot_frame) (simp add: add_manifest_def)

lemma memory_snapshot [simp]:
  "snapshot p t (w\<lparr>sd_epoch := e\<rparr>) = snapshot p t w" "snapshot p t (w\<lparr>sd_generation := g\<rparr>) = snapshot p t w"
  "snapshot p t (w\<lparr>sd_faults := fs\<rparr>) = snapshot p t w" "snapshot p t (w\<lparr>sd_commits := cs\<rparr>) = snapshot p t w"
  by (rule snapshot_frame, simp)+

lemma add_manifest_same [simp]:
  "sd_commits (add_manifest s w) = sd_commits w" "sd_uuids (add_manifest s w) = sd_uuids w"
  "table_of t (add_manifest s w) = table_of t w" "committed_row (add_manifest s w) = committed_row w"
  "committed_round s' (add_manifest s w) = committed_round s' w"
  "facts (add_manifest s w) = facts w" "sd_epoch (add_manifest s w) = sd_epoch w" "names_ok p (add_manifest s w) = names_ok p w"
  by (simp_all add: add_manifest_def table_of_def committed_row_def committed_round_def facts_def rows_of_def
      names_ok_def)

lemma manifest_add:
  "(\<And>m. manifest w = Some m \<Longrightarrow> ss_version m \<le> ss_version s) \<Longrightarrow> manifest (add_manifest s w) = Some s"
  by (auto simp: manifest_def add_manifest_def latest_by_snoc word_le_def split: option.split)

text \<open>When a manifest may follow the one before it.\<close>

definition successor :: "string \<Rightarrow> scan_state \<Rightarrow> 'r scan_db \<Rightarrow> bool" where
  "successor p s w \<longleftrightarrow> state_ok s \<and>
     (\<forall>m. manifest w = Some m \<longrightarrow> ss_version m \<le> ss_version s \<and> sint (ss_event_time m) \<le> sint (ss_event_time s)) \<and>
     (if active s \<and> \<not> committed_round s w
      then open_ok p s w \<and> snapshot p (ss_baseline_snapshot s) w = published p w
      else published p w = Some (facts w) \<and> (active s \<longrightarrow> ss_phase s = FINALIZING))"

text \<open>What the ledger asks of a manifest before it is saved.\<close>

definition promised :: "('e, 'r) ledger \<Rightarrow> committed_scan list \<Rightarrow> string \<Rightarrow> scan_state \<Rightarrow> 'r scan_db \<Rightarrow> bool" where
  "promised K C p s w \<longleftrightarrow>
     (sd_commits w = C \<and> active s \<and> \<not> committed_round s w \<longrightarrow> sealed K s (snapshot p (ss_checkpoint_snapshot s) w))"

lemma scan_inv_add_manifest:
  assumes "scan_inv p C P K w" "successor p s w" "promised K C p s w"
  shows "scan_inv p C P K (add_manifest s w)" "successor p s (add_manifest s w)" "manifest (add_manifest s w) = Some s"
proof -
  show new: "manifest (add_manifest s w) = Some s"
    by (rule manifest_add) (use assms(2) in \<open>simp add: successor_def\<close>)
  have pub: "published p (add_manifest s w) = published p w"
    using assms(2) by (auto simp: published_def [of p "add_manifest s w"] new successor_def split: if_splits)
  have open_same: "open_ok p s (add_manifest s w) = open_ok p s w"
    by (simp add: open_ok_def)
  have "store_ok p (add_manifest s w)"
    using assms by (auto simp: store_ok_def new scan_inv_def open_same successor_def split: if_splits)
  moreover have "live m (add_manifest s w) \<longleftrightarrow> m = s \<and> active s \<and> \<not> committed_round s w" for m
    by (auto simp: live_def new)
  ultimately show "scan_inv p C P K (add_manifest s w)"
    using assms(1,3) by (simp add: scan_inv_def pub promised_def)
  show "successor p s (add_manifest s w)"
    using assms(2) by (simp add: successor_def new pub open_same)
qed

text \<open>Assertions about tables and manifests do not look at what the process holds in memory.\<close>

lemma memory_views [simp]:
  "manifest (w\<lparr>sd_epoch := e\<rparr>) = manifest w" "committed_row (w\<lparr>sd_epoch := e\<rparr>) = committed_row w"
  "facts (w\<lparr>sd_epoch := e\<rparr>) = facts w"
  "manifest (w\<lparr>sd_generation := g\<rparr>) = manifest w" "committed_row (w\<lparr>sd_generation := g\<rparr>) = committed_row w"
  "facts (w\<lparr>sd_generation := g\<rparr>) = facts w"
  "manifest (w\<lparr>sd_faults := fs\<rparr>) = manifest w" "committed_row (w\<lparr>sd_faults := fs\<rparr>) = committed_row w"
  "facts (w\<lparr>sd_faults := fs\<rparr>) = facts w"
  by (simp_all add: manifest_def committed_row_def facts_def rows_of_def)

text \<open>What the process itself remembers of its round.\<close>

definition memory :: "'r scan_db \<Rightarrow> u64 \<times> u8" where
  "memory w = (sd_epoch w, sd_generation w)"

definition memory_of :: "scan_state \<Rightarrow> u64 \<times> u8" where
  "memory_of s = (ss_event_time s, ss_generation s)"

lemma memory_simps [simp]:
  "memory (w\<lparr>sd_epoch := e, sd_generation := g\<rparr>) = (e, g)" "memory (w\<lparr>sd_faults := fs\<rparr>) = memory w"
  "memory (w\<lparr>sd_commits := cs\<rparr>) = memory w" "memory (add_manifest s w) = memory w"
  by (simp_all add: memory_def add_manifest_def)

lemma memory_live [simp]:
  "live s (w\<lparr>sd_epoch := e\<rparr>) = live s w" "live s (w\<lparr>sd_generation := g\<rparr>) = live s w" "live s (w\<lparr>sd_faults := fs\<rparr>) = live s w"
  "committed_round s (w\<lparr>sd_epoch := e\<rparr>) = committed_round s w" "committed_round s (w\<lparr>sd_generation := g\<rparr>) = committed_round s w"
  "committed_round s (w\<lparr>sd_faults := fs\<rparr>) = committed_round s w"
  by (simp_all add: live_def committed_round_def)

lemma memory_preds [simp]:
  "scan_inv p C P K (w\<lparr>sd_epoch := e\<rparr>) = scan_inv p C P K w" "successor p s (w\<lparr>sd_epoch := e\<rparr>) = successor p s w"
  "scan_inv p C P K (w\<lparr>sd_generation := g\<rparr>) = scan_inv p C P K w" "successor p s (w\<lparr>sd_generation := g\<rparr>) = successor p s w"
  "scan_inv p C P K (w\<lparr>sd_faults := fs\<rparr>) = scan_inv p C P K w" "successor p s (w\<lparr>sd_faults := fs\<rparr>) = successor p s w"
  "promised K C p s (w\<lparr>sd_epoch := e\<rparr>) = promised K C p s w" "promised K C p s (w\<lparr>sd_generation := g\<rparr>) = promised K C p s w"
  "promised K C p s (w\<lparr>sd_faults := fs\<rparr>) = promised K C p s w"
  "published p (w\<lparr>sd_epoch := e\<rparr>) = published p w" "published p (w\<lparr>sd_generation := g\<rparr>) = published p w"
  "published p (w\<lparr>sd_faults := fs\<rparr>) = published p w"
  by (simp_all add: scan_inv_def store_ok_def names_ok_def open_ok_def successor_def published_def promised_def
      cong: option.case_cong if_cong)

definition saving :: "string \<Rightarrow> committed_scan list \<Rightarrow> ('r multiset \<times> 'r multiset) option \<Rightarrow> ('e, 'r) ledger \<Rightarrow> scan_state \<Rightarrow> bool \<Rightarrow> 'r scan_db \<Rightarrow> bool" where
  "saving p C P K s b w \<longleftrightarrow> scan_inv p C P K w \<and> successor p s w \<and> promised K C p s w \<and> committed_round s w = b"

lemma hoare_save:
  "hoare (saving p C P K s b) (save_resume_state n s)
     (\<lambda>_ w. saving p C P K s b w \<and> manifest w = Some s \<and> memory w = memory_of s) (saving p C P K s b)"
  unfolding save_resume_state_def
proof (rule hoare_retried, rule hoare_then)
  show "hoare (saving p C P K s b)
      (io_modify (\<lambda>w. w\<lparr>sd_epoch := ss_event_time s, sd_generation := ss_generation s\<rparr>))
      (\<lambda>_ w. saving p C P K s b w \<and> memory w = memory_of s) (saving p C P K s b)"
    by (simp add: hoare_def io_modify_def saving_def memory_of_def)
  show "hoare (\<lambda>w. saving p C P K s b w \<and> memory w = memory_of s)
      (statement (\<lambda>w. Some (w\<lparr>sd_manifests := sd_manifests w @ [s]\<rparr>)))
      (\<lambda>_ w. saving p C P K s b w \<and> manifest w = Some s \<and> memory w = memory_of s) (saving p C P K s b)"
  proof (rule hoare_statement)
    fix w w' :: "'a scan_db"
    assume w: "saving p C P K s b w \<and> memory w = memory_of s"
      and "Some (w\<lparr>sd_manifests := sd_manifests w @ [s]\<rparr>) = Some w'"
    then have w': "w' = add_manifest s w" by (simp add: add_manifest_def)
    show "(saving p C P K s b w' \<and> manifest w' = Some s \<and> memory w' = memory_of s) \<and> saving p C P K s b w'"
      using scan_inv_add_manifest [of p C P K w s] w unfolding w' by (simp add: saving_def promised_def)
  qed (simp_all add: blind_def saving_def)
qed

subsection \<open>The steps of an execution\<close>

lemma hoare_working:
  assumes "tb.keeps working_tables m"
  shows "hoare (\<lambda>w. scan_inv p C P K w \<and> live s w \<and> memory w = e) m (\<lambda>_ w. scan_inv p C P K w \<and> live s w \<and> memory w = e)
    (scan_inv p C P K)"
proof (rule hoare_weaken)
  show "hoare (\<lambda>w. scan_inv p C P K w \<and> live s w \<and> memory w = e) m
    (\<lambda>_ w. scan_inv p C P K w \<and> live s w \<and> memory w = e) (\<lambda>w. scan_inv p C P K w \<and> live s w \<and> memory w = e)"
  proof (rule hoare_only [OF assms])
    fix w w' :: "'a scan_db"
    assume w: "scan_inv p C P K w \<and> live s w \<and> memory w = e" and only: "only_tables working_tables w w'"
    then have "memory w' = e" by (simp add: only_tables_def memory_def)
    then show "scan_inv p C P K w' \<and> live s w' \<and> memory w' = e"
      using scan_inv_working [OF _ _ only] w by blast
  qed
qed auto

lemma published_grows:
  assumes "scan_inv p C P K w" "grows p w w'"
  shows "published p w' = published p w"
proof -
  note same = same_meta_views [OF same_meta_grows [OF assms(2)]]
  have "snapshot p (ss_baseline_snapshot s) w' = snapshot p (ss_baseline_snapshot s) w" if "live s w" for s
    by (rule snapshot_grows [OF scan_inv_prefix(2) [OF assms(1)] assms(2)])
      (use assms(1) that in \<open>auto simp: scan_inv_def store_ok_def open_ok_def live_def\<close>)
  then show ?thesis
    using scan_inv_grows(3) [OF assms] by (auto simp: published_def same live_def split: option.split)
qed

lemma hoare_capture:
  assumes "\<And>w w'. A w \<Longrightarrow> grows p w w' \<Longrightarrow> A w'" "\<And>w. A w \<Longrightarrow> scan_inv p C P K w"
  shows "hoare A (capture p n) (\<lambda>token w. A w \<and> snapshot p token w = Some (facts w)) (scan_inv p C P K)"
proof (rule hoareI)
  fix w w' token assume w: "A w" "capture p n w = (w', Inr token)"
  then have "grows p w w'" using keeps_capture by (metis fst_conv gr.keeps_def)
  with w assms show "A w' \<and> snapshot p token w' = Some (facts w')"
    using capture_Inr scan_inv_prefix(1) by blast
next
  fix w w' e assume w: "A w" "capture p n w = (w', Inl e)"
  then have "grows p w w'" using keeps_capture by (metis fst_conv gr.keeps_def)
  with w assms show "scan_inv p C P K w'" by blast
qed

lemma hoare_cleanup:
  "hoare (\<lambda>w. scan_inv p C P K w \<and> manifest w = Some s \<and> memory w = e \<and> committed_round s w = b) (cleanup_scan_snapshots p s)
     (\<lambda>_ w. scan_inv p C P K w \<and> manifest w = Some s \<and> memory w = e \<and> committed_round s w = b) (scan_inv p C P K)"
proof -
  let ?keep = "if active s then [ss_baseline_snapshot s, ss_checkpoint_snapshot s] else []"
  have "scan_inv p C P K w' \<and> manifest w' = Some s \<and> memory w' = e \<and> committed_round s w' = b"
    if w: "scan_inv p C P K w \<and> manifest w = Some s \<and> memory w = e \<and> committed_round s w = b"
      and c: "cleanup p ?keep w = (w', r)" for w w' r
  proof -
    have d: "drops (removable p ?keep) w w'"
      using keeps_cleanup c by (metis dr.keeps_def fst_conv)
    then have only: "only_tables (removable p ?keep) w w'" by (simp add: drops_def)
    have "scan_inv p C P K w'"
      by (rule scan_inv_cleanup(1) [OF _ d]) (use w in \<open>auto simp: live_def\<close>)
    then show ?thesis
      using w only same_meta_views [OF same_meta_only [OF only]] by (simp add: only_tables_def memory_def)
  qed
  moreover have "\<exists>r'. cleanup p ?keep w = (w', r')" if "cleanup_scan_snapshots p s w = (w', r)" for w w' r
    using that unfolding cleanup_scan_snapshots_def Let_def
    by (cases "cleanup p ?keep w") (auto split: sum.splits)
  ultimately show ?thesis
    by (intro hoareI) blast+
qed

text \<open>A state that goes on with the round of the manifest.\<close>

definition follows :: "scan_state \<Rightarrow> scan_state \<Rightarrow> bool" where
  "follows m s \<longleftrightarrow> state_ok s \<and> active s \<and> ss_version m \<le> ss_version s \<and> ss_event_time s = ss_event_time m \<and>
     ss_generation s = ss_generation m \<and> ss_baseline_snapshot s = ss_baseline_snapshot m"

lemma follows_successor:
  assumes "scan_inv p C P K w" "live m w" "follows m s" "snapshot p (ss_checkpoint_snapshot s) w \<noteq> None"
  shows "successor p s w" "\<not> committed_round s w"
proof -
  show open_round: "\<not> committed_round s w"
    using assms(2,3) by (simp add: live_def follows_def committed_round_def)
  have "open_ok p m w" "published p w = snapshot p (ss_baseline_snapshot m) w"
    using assms(1,2) by (auto simp: scan_inv_def store_ok_def live_def published_def)
  then show "successor p s w"
    using assms open_round by (simp add: successor_def open_ok_def live_def follows_def)
qed

lemma sealed_token [simp]:
  "sealed K (s\<lparr>ss_checkpoint_snapshot := t\<rparr>) x = sealed K s x" "sealed K (s\<lparr>ss_version := v\<rparr>) x = sealed K s x"
  "sealed K (s\<lparr>ss_statistics := z\<rparr>) x = sealed K s x" "sealed K (s\<lparr>ss_observed_entries := o'\<rparr>) x = sealed K s x"
  by (simp_all add: sealed_def stored_def cut_of_def)

lemma hoare_save_follows:
  assumes "follows m s" "ss_checkpoint_snapshot s = ss_checkpoint_snapshot m"
  shows "hoare (\<lambda>w. scan_inv p C P K w \<and> live m w \<and> promised K C p s w) (save_resume_state n s)
     (\<lambda>_ w. scan_inv p C P K w \<and> live s w \<and> memory w = memory_of s) (scan_inv p C P K)"
proof (rule hoare_weaken [OF hoare_save [of p C P K s False n]])
  fix w :: "'a scan_db" assume w: "scan_inv p C P K w \<and> live m w \<and> promised K C p s w"
  then have "snapshot p (ss_checkpoint_snapshot s) w \<noteq> None"
    using assms(2) by (auto simp: scan_inv_def store_ok_def live_def open_ok_def)
  then show "saving p C P K s False w"
    using w follows_successor assms(1) unfolding saving_def by blast
qed (use assms(1) in \<open>auto simp: saving_def live_def follows_def\<close>)

lemma hoare_seal:
  assumes "follows m s"
  shows "hoare (\<lambda>w. (scan_inv p C P K w \<and> live m w) \<and> (sd_commits w = C \<longrightarrow> sealed K s (Some (facts w)))) (seal_resume_state p n s)
     (\<lambda>s' w. scan_inv p C P K w \<and> live s' w \<and> memory w = memory_of s' \<and> (\<exists>token. s' = s\<lparr>ss_checkpoint_snapshot := token\<rparr>))
     (scan_inv p C P K)"
  unfolding seal_resume_state_def Let_def
proof (rule hoare_bind [OF hoare_capture], goal_cases)
  case (1 w w')
  then show ?case using scan_inv_grows same_meta_views(5) [OF same_meta_grows] by metis
next
  case (3 token)
  let ?s = "s\<lparr>ss_checkpoint_snapshot := token\<rparr>"
  have f: "follows m ?s" using assms by (auto simp: follows_def state_ok_iff active_def)
  show ?case
  proof (rule hoare_then [where R = "\<lambda>w. scan_inv p C P K w \<and> manifest w = Some ?s \<and> memory w = memory_of ?s \<and>
        committed_round ?s w = False"])
    show "hoare (\<lambda>w. ((scan_inv p C P K w \<and> live m w) \<and> (sd_commits w = C \<longrightarrow> sealed K s (Some (facts w)))) \<and>
          snapshot p token w = Some (facts w)) (save_resume_state n ?s)
        (\<lambda>_ w. scan_inv p C P K w \<and> manifest w = Some ?s \<and> memory w = memory_of ?s \<and> committed_round ?s w = False)
        (scan_inv p C P K)"
    proof (rule hoare_weaken [OF hoare_save [of p C P K ?s False n]])
      fix w :: "'a scan_db"
      assume w: "((scan_inv p C P K w \<and> live m w) \<and> (sd_commits w = C \<longrightarrow> sealed K s (Some (facts w)))) \<and>
          snapshot p token w = Some (facts w)"
      then have "promised K C p ?s w" by (simp add: promised_def)
      moreover have "snapshot p (ss_checkpoint_snapshot ?s) w \<noteq> None" using w by simp
      ultimately show "saving p C P K ?s False w"
        using w follows_successor [OF _ _ f] unfolding saving_def by blast
    qed (auto simp: saving_def)
    show "hoare (\<lambda>w. scan_inv p C P K w \<and> manifest w = Some ?s \<and> memory w = memory_of ?s \<and> committed_round ?s w = False)
        (io_then (cleanup_scan_snapshots p ?s) (io_return ?s))
        (\<lambda>s' w. scan_inv p C P K w \<and> live s' w \<and> memory w = memory_of s' \<and> (\<exists>token. s' = s\<lparr>ss_checkpoint_snapshot := token\<rparr>))
        (scan_inv p C P K)"
      by (rule hoare_then [OF hoare_cleanup], rule hoare_return) (use f in \<open>auto simp: live_def follows_def\<close>)
  qed
qed auto


text \<open>The commit of a round in its last phase.\<close>

definition finishing :: "string \<Rightarrow> committed_scan list \<Rightarrow> ('r multiset \<times> 'r multiset) option \<Rightarrow> ('e, 'r) ledger \<Rightarrow> scan_state \<Rightarrow> 'r scan_db \<Rightarrow> bool" where
  "finishing p C P K s w \<longleftrightarrow> scan_inv p C P K w \<and> manifest w = Some s \<and> ss_phase s = FINALIZING \<and> memory w = memory_of s"

lemma finishing_commit:
  assumes "finishing p C P K s w"
    "w' = w\<lparr>sd_commits := sd_commits w @ [\<lparr>cs_generation = ss_generation s, cs_epoch = ss_event_time s\<rparr>]\<rparr>"
  shows "finishing p C P K s w' \<and> committed_round s w'"
proof -
  let ?c = "\<lparr>cs_generation = ss_generation s, cs_epoch = ss_event_time s\<rparr>"
  have ok: "store_ok p w" and m: "manifest w = Some s" using assms(1) by (simp_all add: finishing_def scan_inv_def)
  have "sint (cs_epoch c) \<le> sint (ss_event_time s)" if "committed_row w = Some c" for c
    using ok m that by (auto simp: store_ok_def)
  then have c: "committed_row w' = Some ?c"
    by (auto simp: assms(2) committed_row_def latest_by_snoc split: option.split)
  have m': "manifest w' = Some s" and f': "table_of t w' = table_of t w" for t
    using m by (simp_all add: assms(2) manifest_def)
  have names: "names_ok p w'"
    using ok by (simp add: store_ok_def names_ok_def assms(2))
  have "store_ok p w'"
    using ok m assms(1) by (auto simp: store_ok_def m' c names committed_round_def state_ok_iff finishing_def)
  moreover have "sd_commits w' \<noteq> C" "\<exists>cs. sd_commits w' = C @ cs"
    using assms by (auto simp: finishing_def scan_inv_def)
  ultimately show ?thesis
    using assms m' c by (simp add: finishing_def scan_inv_def committed_round_def)
qed

lemma finishing_blind: "blind (finishing p C P K s)"
  by (simp add: blind_def finishing_def)

lemma hoare_commit:
  "hoare (finishing p C P K s) (commit_scan_generation n)
     (\<lambda>_ w. finishing p C P K s w \<and> committed_round s w) (finishing p C P K s)"
  unfolding commit_scan_generation_def
proof (rule hoare_retried, rule hoare_bind [where R = "\<lambda>e w. e = ss_event_time s \<and> finishing p C P K s w"])
  show "hoare (finishing p C P K s) (\<lambda>w. (w, Inr (sd_epoch w))) (\<lambda>e w. e = ss_event_time s \<and> finishing p C P K s w) (finishing p C P K s)"
    by (simp add: hoare_def finishing_def memory_def memory_of_def)
  fix e
  show "hoare (\<lambda>w. e = ss_event_time s \<and> finishing p C P K s w)
      (io_bind (fetch manifest) (\<lambda>row. case row of None \<Rightarrow> io_lift (Inl DatabaseFailed)
        | Some s \<Rightarrow> statement (\<lambda>w. Some (w\<lparr>sd_commits := sd_commits w @ [\<lparr>cs_generation = ss_generation s, cs_epoch = e\<rparr>]\<rparr>))))
      (\<lambda>_ w. finishing p C P K s w \<and> committed_round s w) (finishing p C P K s)"
  proof (rule hoare_assume, rule hoare_bind [where R = "\<lambda>row w. row = Some s \<and> finishing p C P K s w"], goal_cases)
    case 1
    show ?case
      by (rule hoare_fetch [OF finishing_blind]) (auto simp: finishing_def)
  next
    case (2 row)
    show ?case
    proof (rule hoare_assume)
      assume e: "row = Some s"
      show "hoare (finishing p C P K s) (case row of None \<Rightarrow> io_lift (Inl DatabaseFailed)
        | Some s \<Rightarrow> statement (\<lambda>w. Some (w\<lparr>sd_commits := sd_commits w @ [\<lparr>cs_generation = ss_generation s, cs_epoch = e\<rparr>]\<rparr>)))
        (\<lambda>_ w. finishing p C P K s w \<and> committed_round s w) (finishing p C P K s)"
        unfolding e option.case
        by (rule hoare_statement [OF finishing_blind])
          (use 2 in \<open>auto intro: finishing_commit [OF _ refl, THEN conjunct1] finishing_commit [OF _ refl, THEN conjunct2]\<close>)
    qed
  qed
qed

end
