(* ===== verification/ScanLedger.thy ===== *)
theory ScanLedger
  imports ScanTriples
begin

section \<open>What a full scan has stored so far\<close>

text \<open>
  The exact effect of the writer of a full scan on the facts: a block of rows goes in once,
  however often its request is repeated, a batch adds the rows of its entries, and of the
  entries sent so far all but the pending ones and the open batch are stored. \<open>tracks\<close> ties
  this to the items the traversal still has to send, so that every checkpoint is sealed with
  the rows of exactly the entries before it.
\<close>

subsection \<open>A block goes in once\<close>

lemma insert_rows_Inr:
  "insert_rows known t rows w = (w', Inr ()) \<Longrightarrow>
     \<exists>old. table_of t w = Some old \<and> table_of t w' = Some (if known then old else old + mset rows)"
  unfolding insert_rows_def by (auto dest!: statement_Inr split: option.splits if_splits)

lemma insert_rows_lost:
  "insert_rows known t rows w = (w', Inl DatabaseTransient) \<Longrightarrow>
     table_of t w' = (if taken w \<and> \<not> known then map_option (\<lambda>old. old + mset rows) (table_of t w) else table_of t w)"
  unfolding insert_rows_def statement_def taken_def Let_def
  by (auto split: list.splits verdict.splits option.splits if_splits)

lemma insert_block_Inr:
  "insert_block n known t rows w = (w', Inr ()) \<Longrightarrow>
     \<exists>old. table_of t w = Some old \<and> table_of t w' = Some (if known then old else old + mset rows)"
proof (induction n arbitrary: known w)
  case 0
  then show ?case using insert_rows_Inr [of known t rows w w'] by (simp split del: if_split)
next
  case (Suc n)
  obtain w1 r where w1: "insert_rows known t rows w = (w1, r)" by fastforce
  show ?case
  proof (cases "r = Inl DatabaseTransient")
    case True
    with Suc.prems w1 have "insert_block n (known \<or> taken w) t rows w1 = (w', Inr ())" by simp
    with Suc.IH obtain old where "table_of t w1 = Some old"
      "table_of t w' = Some (if known \<or> taken w then old else old + mset rows)" by blast
    then show ?thesis
      using insert_rows_lost [of known t rows w w1] w1 True by (auto split: if_splits)
  next
    case False
    with Suc.prems w1 show ?thesis using insert_rows_Inr [of known t rows w w'] by (simp split del: if_split)
  qed
qed

text \<open>Rows added to the base table, and nothing else changed.\<close>

definition fed :: "'r multiset \<Rightarrow> 'r scan_db \<Rightarrow> 'r scan_db \<Rightarrow> bool" where
  "fed M w w' \<longleftrightarrow> only_tables working_tables w w' \<and> facts w' = (fst (facts w) + M, snd (facts w))"

lemma fed_trans: "fed M w w' \<Longrightarrow> fed N w' w'' \<Longrightarrow> fed (M + N) w w''"
  unfolding fed_def using tb.trans by (auto simp: add.assoc)

lemma fed_nothing: "fed {#} w w"
  by (simp add: fed_def)

lemma fed_memory: "fed M w w' \<Longrightarrow> sd_generation w' = sd_generation w \<and> sd_epoch w' = sd_epoch w"
  by (simp add: fed_def only_tables_def)

lemma fed_insert_block:
  assumes "insert_block n False (local_table (source_table False)) rows w = (w', Inr ())"
  shows "fed (mset rows) w w'"
proof -
  have only: "only_tables {local_table (source_table False)} w w'"
    by (rule keeps_Inr [OF keeps_insert_block assms]) simp
  moreover have "local_table (source_table True) \<noteq> local_table (source_table False)" by (simp add: source_table_def)
  ultimately show ?thesis
    using insert_block_Inr [OF assms] only_tables_mono [OF only, of working_tables]
    by (auto simp: fed_def facts_def rows_of_def only_tables_def)
qed

subsection \<open>Requests and batches\<close>

lemma take_request_Inr:
  "take_request f weight n k xs = Inr (rs, rest) \<Longrightarrow> \<exists>ys. xs = ys @ rest \<and> map f ys = map Inr rs"
proof (induction f weight n k xs arbitrary: rs rest rule: take_request.induct)
  case (2 f weight n k x xs)
  show ?case
  proof (cases "n < max_request_rows \<and> k < max_request_bytes")
    case True
    then obtain r rs' where r: "f x = Inr r" "take_request f weight (Suc n) (k + weight r) xs = Inr (rs', rest)" "rs = r # rs'"
      using "2.prems" by (auto split: sum.splits prod.splits)
    from "2.IH" [OF True r(1,2)] obtain ys where "xs = ys @ rest" "map f ys = map Inr rs'" by blast
    then show ?thesis using r by (intro exI [of _ "x # ys"]) simp
  qed (use "2.prems" in auto)
qed simp

lemma native_requests_Inr:
  "native_requests f weight xs = map Inr rss \<Longrightarrow> map f xs = map Inr (concat rss)"
proof (induction f weight xs arbitrary: rss rule: native_requests.induct)
  case (2 f weight x xs)
  show ?case
  proof (cases "take_request f weight 0 0 (x # xs)")
    case (Inl e)
    then show ?thesis using "2.prems" by (cases rss) (auto simp del: take_request.simps)
  next
    case (Inr z)
    obtain rs rest where z: "z = (rs, rest)" by fastforce
    then obtain qs where qs: "rss = rs # qs" "native_requests f weight rest = map Inr qs"
      using Inr "2.prems" by (auto simp del: take_request.simps)
    from take_request_Inr [OF Inr [unfolded z]] obtain ys where ys: "x # xs = ys @ rest" "map f ys = map Inr rs" by blast
    have "map f rest = map Inr (concat qs)"
      using "2.IH" [OF Inr z [symmetric] qs(2)] z by simp
    then show ?thesis unfolding ys(1) qs(1) using ys(2) by simp
  qed
qed simp

lemma write_requests_Inr:
  "write_requests n stamp qs w = (w', Inr ()) \<Longrightarrow> \<exists>rss. qs = map Inr rss \<and> fed (mset (map stamp (concat rss))) w w'"
proof (induction qs arbitrary: w)
  case Nil
  then show ?case by (auto simp: io_Inr fed_nothing)
next
  case (Cons q qs)
  then obtain rows w1 where q: "q = Inr rows"
    and b: "insert_block n False (local_table (source_table False)) (map stamp rows) w = (w1, Inr ())"
    and rest: "write_requests n stamp qs w1 = (w', Inr ())"
    by (auto simp: io_Inr)
  from Cons.IH [OF rest] obtain rss where rss: "qs = map Inr rss" "fed (mset (map stamp (concat rss))) w1 w'" by blast
  have "fed (mset (map stamp rows) + mset (map stamp (concat rss))) w w'"
    by (rule fed_trans [OF fed_insert_block [OF b] rss(2)])
  then show ?case using q rss(1) by (intro exI [of _ "rows # rss"]) simp
qed

text \<open>The rows of entries, of all their versions, at a generation and an epoch.\<close>

definition entry_rows :: "('e, 'v, 'm, 'r, 'k) pipe_env \<Rightarrow> u8 \<Rightarrow> u64 \<Rightarrow> 'e list \<Rightarrow> 'r multiset" where
  "entry_rows env g t es =
     mset (map (\<lambda>v. pe_stamp env [] (projr (pe_capture env g t v))) (concat (map (view_all (pe_model env)) es)))"

lemma entry_rows_append: "entry_rows env g t (xs @ ys) = entry_rows env g t xs + entry_rows env g t ys"
  by (simp add: entry_rows_def)

lemma entry_rows_Nil [simp]: "entry_rows env g t [] = {#}"
  by (simp add: entry_rows_def)

lemma entry_rows_mset: "mset xs = mset ys \<Longrightarrow> entry_rows env g t xs = entry_rows env g t ys"
proof -
  have "entry_rows env g t es = (\<Sum>e\<in>#mset es. entry_rows env g t [e])" for es
    by (induction es) (simp_all add: entry_rows_def)
  then show "mset xs = mset ys \<Longrightarrow> ?thesis" by metis
qed

lemma write_candidates_Inr:
  assumes "write_candidates env es [] w = (w', Inr ())"
  shows "fed (entry_rows env (sd_generation w) (sd_epoch w) es) w w'"
proof -
  let ?f = "pe_capture env (sd_generation w) (sd_epoch w)" and ?vs = "concat (map (view_all (pe_model env)) es)"
  from assms obtain rss where rss: "native_requests ?f (pe_weight env) ?vs = map Inr rss"
    and f: "fed (mset (map (pe_stamp env []) (concat rss))) w w'"
    unfolding write_candidates_def using write_requests_Inr by blast
  have "concat rss = map (\<lambda>v. projr (?f v)) ?vs"
    using arg_cong [OF native_requests_Inr [OF rss], of "map projr"] by (simp add: comp_def)
  then show ?thesis using f by (simp add: entry_rows_def comp_def)
qed

lemma flush_batch_Inr:
  assumes "flush_batch env False es w = (w', Inr ())"
  shows "fed (entry_rows env (sd_generation w) (sd_epoch w) es) w w'"
proof (cases "es = []")
  case True
  then show ?thesis using assms by (simp add: flush_batch_def io_Inr fed_nothing)
next
  case False
  then have "write_candidates env (sort_batch env es) [] w = (w', Inr ())"
    using assms by (simp add: flush_batch_def Let_def)
  from write_candidates_Inr [OF this] show ?thesis
    using entry_rows_mset [of "sort_batch env es" es env "sd_generation w" "sd_epoch w"] by (simp add: sort_batch_def)
qed

text \<open>Of the entries sent, a writer has stored all but its open batch.\<close>

lemma write_entries_Inr:
  "write_entries env False batch es w = (w', Inr batch') \<Longrightarrow>
     \<exists>xs. batch @ es = xs @ batch' \<and> fed (entry_rows env (sd_generation w) (sd_epoch w) xs) w w'"
proof (induction es arbitrary: batch w)
  case Nil
  then show ?case by (intro exI [of _ "[]"]) (auto simp: io_Inr fed_nothing)
next
  case (Cons e es)
  show ?case
  proof (cases "length (batch @ [e]) \<ge> pe_batch_size env")
    case True
    then obtain w1 where w1: "flush_batch env False (batch @ [e]) w = (w1, Inr ())"
      and rest: "write_entries env False [] es w1 = (w', Inr batch')"
      using Cons.prems by (auto simp: Let_def io_Inr)
    from Cons.IH [OF rest] obtain xs where xs: "es = xs @ batch'"
      "fed (entry_rows env (sd_generation w1) (sd_epoch w1) xs) w1 w'" by auto
    have "fed (entry_rows env (sd_generation w) (sd_epoch w) ((batch @ [e]) @ xs)) w w'"
      unfolding entry_rows_append [of env _ _ "batch @ [e]"]
      using fed_trans [OF flush_batch_Inr [OF w1] xs(2)] fed_memory [OF flush_batch_Inr [OF w1]] by simp
    then show ?thesis using xs(1) by (intro exI [of _ "(batch @ [e]) @ xs"]) simp
  next
    case False
    then show ?thesis using Cons.prems Cons.IH [of "batch @ [e]" w] by (simp add: Let_def)
  qed
qed

subsection \<open>What the traversal still has to send\<close>

text \<open>
  The items from the entry at position \<open>n\<close> on, \<open>c\<close> being the last checkpoint the store holds:
  the entries come in order, a checkpoint stands at its position, and a traversal that starts
  again does so at \<open>c\<close>.
\<close>

fun items_ok :: "('e, 'r) ledger \<Rightarrow> nat \<Rightarrow> bytes \<Rightarrow> ('e, 'k) scan_item list \<Rightarrow> bool" where
  "items_ok K n c [] \<longleftrightarrow> n = length (lg_entries K)"
| "items_ok K n c (Resumed _ # items) \<longleftrightarrow> items_ok K (reached K c) c items"
| "items_ok K n c (Entry e # items) \<longleftrightarrow> n < length (lg_entries K) \<and> lg_entries K ! n = e \<and> items_ok K (Suc n) c items"
| "items_ok K n c (DirectoryCounts _ # items) \<longleftrightarrow> items_ok K n c items"
| "items_ok K n c (Checkpoint b # items) \<longleftrightarrow> reached K b = n \<and> items_ok K n b items"
| "items_ok K n c (Tick # items) \<longleftrightarrow> items_ok K n c items"

text \<open>A traversal that did not fail sends all of that, from wherever it is told to start.\<close>

definition faithful :: "('e, 'r) ledger \<Rightarrow> ('e, 'v, 'm, 'r, 'k) run_env \<Rightarrow> bool" where
  "faithful K env \<longleftrightarrow> (lg_on K \<longrightarrow>
     (\<forall>g t es. lg_rows K g t es = entry_rows (re_pipe env) g t es) \<and>
     (\<forall>c items outcome. re_resume env \<or> c = [] \<longrightarrow> re_source env (if c = [] then None else Some c) = (items, outcome) \<longrightarrow>
        items_ok K (reached K c) c items))"

definition tracks ::
  "('e, 'v, 'm, 'r, 'k) pipe_env \<Rightarrow> ('e, 'r) ledger \<Rightarrow> committed_scan list \<Rightarrow> ('e, 'k) scan_item list \<Rightarrow> ('e, 'k) producer \<Rightarrow> 'r scan_db \<Rightarrow> bool" where
  "tracks env K C items pd w \<longleftrightarrow> (lg_on K \<and> sd_commits w = C \<longrightarrow>
     (\<forall>g t es. lg_rows K g t es = entry_rows env g t es) \<and> \<not> ss_incremental (pd_state pd) \<and> ss_phase (pd_state pd) = RUNNING \<and>
     (\<exists>n xs batch. items_ok K n (ss_checkpoint (pd_state pd)) items \<and>
        pd_writer pd = Serial batch \<and> take n (lg_entries K) = xs @ batch @ pd_pending pd \<and>
        facts w = stored K (pd_state pd) xs) \<and>
     (pd_matches pd \<longrightarrow> pd_pending pd = [] \<and> pd_writer pd = Serial [] \<and>
        snapshot (pe_prefix env) (ss_checkpoint_snapshot (pd_state pd)) w = Some (facts w)))"

subsection \<open>Saving keeps the facts\<close>

definition same_tables :: "'r scan_db \<Rightarrow> 'r scan_db \<Rightarrow> bool" where
  "same_tables w w' \<longleftrightarrow> (\<forall>t. table_of t w' = table_of t w) \<and> sd_commits w' = sd_commits w"

interpretation st: step_relation same_tables
  by unfold_locales (auto simp: same_tables_def)

lemma same_tables_facts: "same_tables w w' \<Longrightarrow> facts w' = facts w \<and> snapshot p token w' = snapshot p token w"
  using facts_frame snapshot_frame unfolding same_tables_def by metis

lemma tables_save: "st.keeps (save_resume_state n s)"
  unfolding save_resume_state_def
  by (intro st.keeps_intros st.keeps_modify st.keeps_statement) (auto simp: same_tables_def)

lemma save_Inr: "save_resume_state n s w = (w', Inr ()) \<Longrightarrow> same_tables w w'"
  using tables_save by (metis fst_conv st.keeps_def)

lemma cleanup_Inr:
  assumes "cleanup_scan_snapshots p s w = (w', Inr ())" "scan_prefix p"
  shows "facts w' = facts w"
    "active s \<Longrightarrow> token \<in> {ss_baseline_snapshot s, ss_checkpoint_snapshot s} \<Longrightarrow> snapshot p token w \<noteq> None \<Longrightarrow>
       snapshot p token w' = snapshot p token w"
proof -
  let ?keep = "if active s then [ss_baseline_snapshot s, ss_checkpoint_snapshot s] else []"
  obtain r where "cleanup p ?keep w = (w', r)"
    using assms(1) unfolding cleanup_scan_snapshots_def Let_def
    by (cases "cleanup p ?keep w") (auto split: sum.splits if_splits)
  then have "drops (removable p ?keep) w w'"
    using keeps_cleanup by (metis dr.keeps_def fst_conv)
  then have only: "only_tables (removable p ?keep) w w'" by (simp add: drops_def)
  show "facts w' = facts w"
    by (rule facts_frame) (use only working_not_prefixed [OF assms(2)] in \<open>auto simp: only_tables_def removable_def\<close>)
  assume s: "active s" and t: "token \<in> {ss_baseline_snapshot s, ss_checkpoint_snapshot s}" "snapshot p token w \<noteq> None"
  have "token \<noteq> []" using t(2) by (auto simp: snapshot_def valid_token_def split: if_splits)
  then have "x \<notin> removable p ?keep" if "x \<in> token_tables p token" for x
    using that s t(1) by (auto simp: removable_def)
  then show "snapshot p token w' = snapshot p token w"
    by (intro snapshot_frame) (use only in \<open>simp add: only_tables_def\<close>)
qed

lemma seal_Inr:
  assumes "seal_resume_state p n s w = (w', Inr s')" "scan_prefix p" "active s"
  shows "facts w' = facts w" "snapshot p (ss_checkpoint_snapshot s') w' = Some (facts w')"
proof -
  from assms(1) obtain token w1 w2 where w1: "capture p n w = (w1, Inr token)"
    and w2: "save_resume_state n (s\<lparr>ss_checkpoint_snapshot := token\<rparr>) w1 = (w2, Inr ())"
    and w3: "cleanup_scan_snapshots p (s\<lparr>ss_checkpoint_snapshot := token\<rparr>) w2 = (w', Inr ())"
    and s': "s' = s\<lparr>ss_checkpoint_snapshot := token\<rparr>"
    unfolding seal_resume_state_def Let_def io_Inr by blast
  have "grows p w w1" using keeps_capture w1 by (metis fst_conv gr.keeps_def)
  then have f1: "facts w1 = facts w" by (rule grows_facts [OF _ assms(2)])
  have f2: "facts w2 = facts w1" and s2: "snapshot p token w2 = Some (facts w1)"
    using same_tables_facts [OF save_Inr [OF w2]] capture_Inr [OF w1 assms(2)] by simp_all
  show "facts w' = facts w" using cleanup_Inr(1) [OF w3 assms(2)] f1 f2 by simp
  have "snapshot p token w' = snapshot p token w2"
    by (rule cleanup_Inr(2) [OF w3 assms(2)]) (use assms(3) s2 in \<open>auto simp: active_def\<close>)
  then show "snapshot p (ss_checkpoint_snapshot s') w' = Some (facts w')"
    using cleanup_Inr(1) [OF w3 assms(2)] f2 s2 s' by simp
qed

subsection \<open>Every item keeps track\<close>

lemma stored_append: "\<forall>g t es. lg_rows K g t es = entry_rows env g t es \<Longrightarrow>
    stored K s (xs @ ys) = (fst (stored K s xs) + entry_rows env (ss_generation s) (ss_event_time s) ys, snd (stored K s xs))"
  by (simp add: stored_def entry_rows_append add.assoc)

lemma fed_stored:
  assumes "fed (entry_rows env (sd_generation w) (sd_epoch w) ys) w w'" "facts w = stored K s xs" "memory w = memory_of s"
    "\<forall>g t es. lg_rows K g t es = entry_rows env g t es"
  shows "facts w' = stored K s (xs @ ys)"
  using assms(1,2,3) stored_append [OF assms(4)] by (simp add: fed_def memory_def memory_of_def)

lemma working_commits:
  assumes "tb.keeps working_tables m" "m w = (w', r)"
  shows "sd_commits w' = sd_commits w" "memory w' = memory w" "scan_prefix p \<Longrightarrow> snapshot p token w' = snapshot p token w"
proof -
  have only: "only_tables working_tables w w'" by (rule keeps_Inr [OF assms])
  then show "sd_commits w' = sd_commits w" "memory w' = memory w" by (simp_all add: only_tables_def memory_def)
  show "snapshot p token w' = snapshot p token w" if "scan_prefix p"
    by (rule snapshot_frame) (use only token_tables_not_working [OF that] in \<open>auto simp: only_tables_def\<close>)
qed

lemma tracks_deliver:
  assumes "tracks env K C items pd w" "deliver_pending env pd w = (w', Inr pd')" "memory w = memory_of (pd_state pd)"
  shows "tracks env K C items pd' w'" "pd_pending pd' = []"
proof -
  show "pd_pending pd' = []"
    using assms(2) by (auto simp: deliver_pending_def io_Inr split: if_splits)
  show "tracks env K C items pd' w'"
  proof (cases "pd_pending pd = []")
    case True
    then show ?thesis using assms(1,2) by (simp add: deliver_pending_def io_Inr)
  next
    case False
    then obtain wr where wr: "writer_data env (ss_incremental (pd_state pd)) (pd_writer pd) (pd_pending pd) w = (w', Inr wr)"
      and pd': "pd' = pd\<lparr>pd_pending := [], pd_writer := wr\<rparr>"
      using assms(2) by (auto simp: deliver_pending_def io_Inr)
    have com: "sd_commits w' = sd_commits w" by (rule working_commits(1) [OF working_writer_data wr])
    show ?thesis
      unfolding tracks_def com
    proof (intro impI)
      assume "lg_on K \<and> sd_commits w = C"
      with assms(1) obtain n xs batch where rows: "\<forall>g t es. lg_rows K g t es = entry_rows env g t es"
        and s: "\<not> ss_incremental (pd_state pd)" "ss_phase (pd_state pd) = RUNNING"
        and ok: "items_ok K n (ss_checkpoint (pd_state pd)) items" and b: "pd_writer pd = Serial batch"
        and take: "take n (lg_entries K) = xs @ batch @ pd_pending pd" and f: "facts w = stored K (pd_state pd) xs"
        and m: "\<not> pd_matches pd"
        using False unfolding tracks_def by blast
      from wr s b obtain batch' where e: "write_entries env False batch (pd_pending pd) w = (w', Inr batch')"
        and wr': "wr = Serial batch'" by (auto simp: io_Inr)
      from write_entries_Inr [OF e] obtain ys where ys: "batch @ pd_pending pd = ys @ batch'"
        and fed: "fed (entry_rows env (sd_generation w) (sd_epoch w) ys) w w'" by blast
      have "facts w' = stored K (pd_state pd) (xs @ ys)"
        by (rule fed_stored [OF fed f assms(3) rows])
      moreover have "take n (lg_entries K) = (xs @ ys) @ batch'"
        using take ys by simp
      ultimately show "(\<forall>g t es. lg_rows K g t es = entry_rows env g t es) \<and> \<not> ss_incremental (pd_state pd') \<and> ss_phase (pd_state pd') = RUNNING \<and>
         (\<exists>n xs batch. items_ok K n (ss_checkpoint (pd_state pd')) items \<and> pd_writer pd' = Serial batch \<and>
            take n (lg_entries K) = xs @ batch @ pd_pending pd' \<and> facts w' = stored K (pd_state pd') xs) \<and>
         (pd_matches pd' \<longrightarrow> pd_pending pd' = [] \<and> pd_writer pd' = Serial [] \<and>
            snapshot (pe_prefix env) (ss_checkpoint_snapshot (pd_state pd')) w' = Some (facts w'))"
        unfolding pd' using rows s ok wr' m by fastforce
    qed
  qed
qed

lemma tracks_barrier:
  assumes "tracks env K C items pd w" "barrier env pd w = (w', Inr pd')" "memory w = memory_of (pd_state pd)"
  shows "tracks env K C items pd' w'" "pd_pending pd' = pd_pending pd"
    "lg_on K \<and> sd_commits w' = C \<Longrightarrow> pd_writer pd' = Serial []"
proof -
  from assms(2) obtain wr where wr: "writer_barrier env (ss_incremental (pd_state pd)) (pd_writer pd) w = (w', Inr wr)"
    and pd': "pd' = pd\<lparr>pd_writer := wr\<rparr>"
    by (auto simp: barrier_def io_Inr)
  then show "pd_pending pd' = pd_pending pd" by simp
  have com: "sd_commits w' = sd_commits w" by (rule working_commits(1) [OF working_writer_barrier wr])
  have "pd_writer pd' = Serial [] \<and> (\<forall>g t es. lg_rows K g t es = entry_rows env g t es) \<and> \<not> ss_incremental (pd_state pd') \<and> ss_phase (pd_state pd') = RUNNING \<and>
         (\<exists>n xs batch. items_ok K n (ss_checkpoint (pd_state pd')) items \<and> pd_writer pd' = Serial batch \<and>
            take n (lg_entries K) = xs @ batch @ pd_pending pd' \<and> facts w' = stored K (pd_state pd') xs) \<and>
         (pd_matches pd' \<longrightarrow> pd_pending pd' = [] \<and> pd_writer pd' = Serial [] \<and>
            snapshot (pe_prefix env) (ss_checkpoint_snapshot (pd_state pd')) w' = Some (facts w'))"
    if on: "lg_on K \<and> sd_commits w = C"
  proof -
    from on assms(1) obtain n xs batch where rows: "\<forall>g t es. lg_rows K g t es = entry_rows env g t es"
      and s: "\<not> ss_incremental (pd_state pd)" "ss_phase (pd_state pd) = RUNNING"
      and ok: "items_ok K n (ss_checkpoint (pd_state pd)) items" and b: "pd_writer pd = Serial batch"
      and take: "take n (lg_entries K) = xs @ batch @ pd_pending pd" and f: "facts w = stored K (pd_state pd) xs"
      and m: "pd_matches pd \<longrightarrow> pd_pending pd = [] \<and> pd_writer pd = Serial [] \<and>
        snapshot (pe_prefix env) (ss_checkpoint_snapshot (pd_state pd)) w = Some (facts w)"
      unfolding tracks_def by blast
    from wr s b have e: "flush_batch env False batch w = (w', Inr ())" and wr': "wr = Serial []" by (auto simp: io_Inr)
    have f': "facts w' = stored K (pd_state pd) (xs @ batch)"
      by (rule fed_stored [OF flush_batch_Inr [OF e] f assms(3) rows])
    have "w' = w" if "pd_matches pd"
      using m that b e by (simp add: flush_batch_def io_Inr)
    then show ?thesis
      unfolding pd' using rows s ok wr' m take f' by (auto intro!: exI [of _ n] exI [of _ "xs @ batch"])
  qed
  then show "tracks env K C items pd' w'" "lg_on K \<and> sd_commits w' = C \<Longrightarrow> pd_writer pd' = Serial []"
    unfolding tracks_def com by blast+
qed

lemma tracks_entry:
  assumes "tracks env K C (Entry e # items) pd w" "on_entry env e pd w = (w', Inr pd')" "memory w = memory_of (pd_state pd)"
  shows "tracks env K C items pd' w'"
proof -
  let ?pd = "pd\<lparr>pd_matches := False, pd_pending := pd_pending pd @ [e]\<rparr>"
  have t: "tracks env K C items ?pd w"
    unfolding tracks_def
  proof (intro impI)
    assume "lg_on K \<and> sd_commits w = C"
    with assms(1) obtain n xs batch where rows: "\<forall>g t es. lg_rows K g t es = entry_rows env g t es"
      and s: "\<not> ss_incremental (pd_state pd)" "ss_phase (pd_state pd) = RUNNING"
      and n: "n < length (lg_entries K)" "lg_entries K ! n = e" "items_ok K (Suc n) (ss_checkpoint (pd_state pd)) items"
      and b: "pd_writer pd = Serial batch" "take n (lg_entries K) = xs @ batch @ pd_pending pd" "facts w = stored K (pd_state pd) xs"
      unfolding tracks_def by auto
    have "take (Suc n) (lg_entries K) = xs @ batch @ (pd_pending pd @ [e])"
      using n b(2) by (simp add: take_Suc_conv_app_nth)
    then show "(\<forall>g t es. lg_rows K g t es = entry_rows env g t es) \<and> \<not> ss_incremental (pd_state ?pd) \<and> ss_phase (pd_state ?pd) = RUNNING \<and>
       (\<exists>n xs batch. items_ok K n (ss_checkpoint (pd_state ?pd)) items \<and> pd_writer ?pd = Serial batch \<and>
          take n (lg_entries K) = xs @ batch @ pd_pending ?pd \<and> facts w = stored K (pd_state ?pd) xs) \<and>
       (pd_matches ?pd \<longrightarrow> pd_pending ?pd = [] \<and> pd_writer ?pd = Serial [] \<and>
          snapshot (pe_prefix env) (ss_checkpoint_snapshot (pd_state ?pd)) w = Some (facts w))"
      using rows s n(3) b(1,3) by auto
  qed
  then show ?thesis
    using assms(2,3) tracks_deliver(1) [OF t, of w' pd'] by (auto simp: on_entry_def Let_def io_Inr split: if_splits)
qed

lemma tracks_resumed:
  assumes "tracks env K C (Resumed selected # items) pd w" "on_resumed env selected pd w = (w', Inr pd')"
    "scan_inv p C P K w" "live (pd_state pd) w" "p = pe_prefix env"
  shows "tracks env K C items pd' w'"
proof -
  have pre: "scan_prefix p" by (rule scan_inv_prefix(1) [OF assms(3)])
  from assms(2) obtain wr w1 pg where b: "writer_barrier env (ss_incremental (pd_state pd)) (pd_writer pd) w = (w1, Inr wr)"
    and r: "restore (pe_prefix env) (ss_checkpoint_snapshot (pd_state pd)) w1 = (w', Inr ())"
    and pd': "pd' = pd\<lparr>pd_pending := [], pd_writer := wr, pd_matches := True, pd_progress := pg,
      pd_statistics := snapshot_of (pe_kinds env) (pg_complete_prefix pg)\<rparr>"
    by (auto simp: on_resumed_def barrier_def execute_save_def io_Inr)
  note k1 = working_commits [OF working_writer_barrier b] and k2 = working_commits [OF working_restore r]
  have same: "snapshot p (ss_checkpoint_snapshot (pd_state pd)) w' = snapshot p (ss_checkpoint_snapshot (pd_state pd)) w"
    "snapshot p (ss_checkpoint_snapshot (pd_state pd)) w1 = snapshot p (ss_checkpoint_snapshot (pd_state pd)) w"
    using k1(3) [OF pre] k2(3) [OF pre] by simp_all
  have f: "snapshot p (ss_checkpoint_snapshot (pd_state pd)) w = Some (facts w')"
    using restore_Inr [OF r] pre assms(5) same by simp
  show ?thesis
    unfolding tracks_def k2(1) k1(1)
  proof (intro impI)
    assume on: "lg_on K \<and> sd_commits w = C"
    from on assms(1) obtain n xs batch where rows: "\<forall>g t es. lg_rows K g t es = entry_rows env g t es"
      and s: "\<not> ss_incremental (pd_state pd)" "ss_phase (pd_state pd) = RUNNING" and wb: "pd_writer pd = Serial batch"
      and ok: "items_ok K (reached K (ss_checkpoint (pd_state pd))) (ss_checkpoint (pd_state pd)) items"
      unfolding tracks_def by auto
    have "sealed K (pd_state pd) (Some (facts w'))"
      using assms(3,4) on f by (auto simp: scan_inv_def)
    then have "facts w' = stored K (pd_state pd) (take (reached K (ss_checkpoint (pd_state pd))) (lg_entries K))"
      using on s by (simp add: sealed_def cut_of_def)
    moreover have "wr = Serial []"
      using b s(1) wb by (auto simp: io_Inr)
    ultimately show "(\<forall>g t es. lg_rows K g t es = entry_rows env g t es) \<and> \<not> ss_incremental (pd_state pd') \<and> ss_phase (pd_state pd') = RUNNING \<and>
       (\<exists>n xs batch. items_ok K n (ss_checkpoint (pd_state pd')) items \<and> pd_writer pd' = Serial batch \<and>
          take n (lg_entries K) = xs @ batch @ pd_pending pd' \<and> facts w' = stored K (pd_state pd') xs) \<and>
       (pd_matches pd' \<longrightarrow> pd_pending pd' = [] \<and> pd_writer pd' = Serial [] \<and>
          snapshot (pe_prefix env) (ss_checkpoint_snapshot (pd_state pd')) w' = Some (facts w'))"
      unfolding pd' using rows s ok same(1) f assms(5) by (auto intro!: exI [of _ "reached K (ss_checkpoint (pd_state pd))"])
  qed
qed

subsection \<open>Saving a state with its facts\<close>

text \<open>What the ledger asks before a producer saves a state.\<close>

definition due :: "('e, 'r) ledger \<Rightarrow> committed_scan list \<Rightarrow> string \<Rightarrow> ('e, 'k) producer \<Rightarrow> scan_state \<Rightarrow> 'r scan_db \<Rightarrow> bool" where
  "due K C p pd s w \<longleftrightarrow> (lg_on K \<and> sd_commits w = C \<longrightarrow>
     sealed K s (Some (facts w)) \<and> (pd_matches pd \<longrightarrow> snapshot p (ss_checkpoint_snapshot s) w = Some (facts w)))"

text \<open>A state that differs from the one saved last in what a checkpoint changes.\<close>

definition same_round :: "scan_state \<Rightarrow> scan_state \<Rightarrow> bool" where
  "same_round m s \<longleftrightarrow> ss_incremental s = ss_incremental m \<and> ss_generation s = ss_generation m \<and>
     ss_event_time s = ss_event_time m \<and> ss_checkpoint_snapshot s = ss_checkpoint_snapshot m"

lemma stored_round: "same_round m s \<Longrightarrow> stored K s xs = stored K m xs"
  by (simp add: same_round_def stored_def)

lemma commits_cleanup:
  assumes "cleanup_scan_snapshots p s w = (w', Inr ())"
  shows "sd_commits w' = sd_commits w"
proof -
  let ?keep = "if active s then [ss_baseline_snapshot s, ss_checkpoint_snapshot s] else []"
  obtain r where "cleanup p ?keep w = (w', r)"
    using assms(1) unfolding cleanup_scan_snapshots_def Let_def
    by (cases "cleanup p ?keep w") (auto split: sum.splits if_splits)
  then have "drops (removable p ?keep) w w'"
    using keeps_cleanup by (metis dr.keeps_def fst_conv)
  then show ?thesis by (simp add: drops_def only_tables_def)
qed

lemma commits_seal:
  assumes "seal_resume_state p n s w = (w', Inr s')"
  shows "sd_commits w' = sd_commits w"
proof -
  from assms obtain token w1 w2 where w1: "capture p n w = (w1, Inr token)"
    and w2: "save_resume_state n (s\<lparr>ss_checkpoint_snapshot := token\<rparr>) w1 = (w2, Inr ())"
    and w3: "cleanup_scan_snapshots p (s\<lparr>ss_checkpoint_snapshot := token\<rparr>) w2 = (w', Inr ())"
    unfolding seal_resume_state_def Let_def io_Inr by blast
  have "grows p w w1" using keeps_capture w1 by (metis fst_conv gr.keeps_def)
  then show ?thesis
    using same_meta_views(5) [OF same_meta_grows] save_Inr [OF w2] commits_cleanup [OF w3] by (simp add: same_tables_def)
qed

lemma save_facts_Inr:
  assumes "save_facts env s pd w = (w', Inr pd')" "scan_prefix (pe_prefix env)" "active s"
  shows "facts w' = facts w" "sd_commits w' = sd_commits w"
    "\<exists>v token. pd' = pd\<lparr>pd_state := s\<lparr>ss_version := v, ss_checkpoint_snapshot := token\<rparr>, pd_matches := True\<rparr>"
    "pd_matches pd \<longrightarrow> snapshot (pe_prefix env) (ss_checkpoint_snapshot s) w = Some (facts w) \<Longrightarrow>
       snapshot (pe_prefix env) (ss_checkpoint_snapshot (pd_state pd')) w' = Some (facts w')"
proof -
  from assms(1) obtain v s' where s': "execute_save env (if pd_matches pd then ManifestOnly else Capture) (s\<lparr>ss_version := v\<rparr>) w = (w', Inr s')"
    and pd': "pd' = pd\<lparr>pd_state := s', pd_matches := True\<rparr>"
    by (auto simp: save_facts_def io_Inr advance_def split: option.splits)
  have act: "active (s\<lparr>ss_version := v\<rparr>)" using assms(3) by (simp add: active_def)
  have "facts w' = facts w \<and> sd_commits w' = sd_commits w \<and> (\<exists>token. s' = s\<lparr>ss_version := v, ss_checkpoint_snapshot := token\<rparr>) \<and>
    ((pd_matches pd \<longrightarrow> snapshot (pe_prefix env) (ss_checkpoint_snapshot s) w = Some (facts w)) \<longrightarrow>
       snapshot (pe_prefix env) (ss_checkpoint_snapshot s') w' = Some (facts w'))"
  proof (cases "pd_matches pd")
    case True
    then have save: "save_resume_state (pe_restarts env) (s\<lparr>ss_version := v\<rparr>) w = (w', Inr ())" and "s' = s\<lparr>ss_version := v\<rparr>"
      using s' by (auto simp: execute_save_def io_Inr)
    then show ?thesis
      using same_tables_facts [OF save_Inr [OF save]] save_Inr [OF save] True
      by (auto simp: same_tables_def intro: exI [of _ "ss_checkpoint_snapshot s"])
  next
    case False
    then have seal: "seal_resume_state (pe_prefix env) (pe_restarts env) (s\<lparr>ss_version := v\<rparr>) w = (w', Inr s')"
      using s' by (simp add: execute_save_def)
    then have "\<exists>token. s' = s\<lparr>ss_version := v, ss_checkpoint_snapshot := token\<rparr>"
      by (auto simp: seal_resume_state_def Let_def io_Inr)
    then show ?thesis
      using seal_Inr [OF seal assms(2) act] commits_seal [OF seal] by blast
  qed
  then show "facts w' = facts w" "sd_commits w' = sd_commits w"
    "\<exists>v token. pd' = pd\<lparr>pd_state := s\<lparr>ss_version := v, ss_checkpoint_snapshot := token\<rparr>, pd_matches := True\<rparr>"
    "pd_matches pd \<longrightarrow> snapshot (pe_prefix env) (ss_checkpoint_snapshot s) w = Some (facts w) \<Longrightarrow>
       snapshot (pe_prefix env) (ss_checkpoint_snapshot (pd_state pd')) w' = Some (facts w')"
    using pd' by auto
qed

text \<open>Before a checkpoint and at the end, everything the traversal sent is stored.\<close>

lemma tracks_settled:
  assumes "tracks env K C items pd w" "pd_pending pd = []" "pd_writer pd = Serial []" "lg_on K" "sd_commits w = C"
  obtains n where "items_ok K n (ss_checkpoint (pd_state pd)) items" "facts w = stored K (pd_state pd) (take n (lg_entries K))"
    "\<not> ss_incremental (pd_state pd)" "ss_phase (pd_state pd) = RUNNING" "\<forall>g t es. lg_rows K g t es = entry_rows env g t es"
    "pd_matches pd \<longrightarrow> snapshot (pe_prefix env) (ss_checkpoint_snapshot (pd_state pd)) w = Some (facts w)"
  using assms unfolding tracks_def by auto

lemma tracks_progress [simp]:
  "tracks env K C items (pd\<lparr>pd_progress := pg\<rparr>) w = tracks env K C items pd w"
  "tracks env K C items (pd\<lparr>pd_statistics := sn\<rparr>) w = tracks env K C items pd w"
  by (simp_all add: tracks_def)

lemma tracks_counts:
  assumes "tracks env K C (DirectoryCounts d # items) pd w" "on_counts env d pd w = (w', Inr pd')"
  shows "tracks env K C items pd' w'"
  using assms by (auto simp: on_counts_def io_Inr tracks_def split: prod.splits)

definition at_checkpoint :: "bytes \<Rightarrow> u64 \<Rightarrow> string \<Rightarrow> scan_state \<Rightarrow> scan_state" where
  "at_checkpoint b n z s = s\<lparr>ss_checkpoint := b, ss_observed_entries := n, ss_statistics := z\<rparr>"

definition at_end :: "u64 \<Rightarrow> string \<Rightarrow> scan_state \<Rightarrow> scan_state" where
  "at_end n z s = s\<lparr>ss_phase := FINALIZING, ss_observed_entries := n, ss_statistics := z\<rparr>"

lemma due_checkpoint:
  assumes "tracks env K C (Checkpoint b # items) pd w" "pd_pending pd = []" "lg_on K \<and> sd_commits w = C \<Longrightarrow> pd_writer pd = Serial []"
    "p = pe_prefix env"
  shows "due K C p pd (at_checkpoint b n z (pd_state pd)) w"
  unfolding due_def
proof (intro impI)
  assume on: "lg_on K \<and> sd_commits w = C"
  from tracks_settled [OF assms(1,2) assms(3) [OF on]] on obtain k where
    "items_ok K k (ss_checkpoint (pd_state pd)) (Checkpoint b # items)" "facts w = stored K (pd_state pd) (take k (lg_entries K))"
    "\<not> ss_incremental (pd_state pd)" "ss_phase (pd_state pd) = RUNNING"
    "pd_matches pd \<longrightarrow> snapshot p (ss_checkpoint_snapshot (pd_state pd)) w = Some (facts w)"
    unfolding assms(4) by metis
  then show "sealed K (at_checkpoint b n z (pd_state pd)) (Some (facts w)) \<and>
    (pd_matches pd \<longrightarrow> snapshot p (ss_checkpoint_snapshot (at_checkpoint b n z (pd_state pd))) w = Some (facts w))"
    by (simp add: sealed_def cut_of_def at_checkpoint_def stored_def)
qed

lemma tracks_checkpoint:
  assumes "tracks env K C (Checkpoint b # items) pd w" "pd_pending pd = []" "lg_on K \<and> sd_commits w = C \<Longrightarrow> pd_writer pd = Serial []"
    "save_facts env (at_checkpoint b n z (pd_state pd)) pd w = (w', Inr pd')" "scan_prefix (pe_prefix env)" "active (pd_state pd)"
  shows "tracks env K C items pd' w'"
proof -
  have act: "active (at_checkpoint b n z (pd_state pd))" using assms(6) by (simp add: active_def at_checkpoint_def)
  note f = save_facts_Inr [OF assms(4,5) act]
  obtain v token where pd': "pd' = pd\<lparr>pd_state := at_checkpoint b n z (pd_state pd)\<lparr>ss_version := v, ss_checkpoint_snapshot := token\<rparr>, pd_matches := True\<rparr>"
    using f(3) by blast
  show ?thesis
    unfolding tracks_def f(2)
  proof (intro impI)
    assume on: "lg_on K \<and> sd_commits w = C"
    from tracks_settled [OF assms(1,2) assms(3) [OF on]] on obtain k where k:
      "items_ok K k (ss_checkpoint (pd_state pd)) (Checkpoint b # items)" "facts w = stored K (pd_state pd) (take k (lg_entries K))"
      "\<not> ss_incremental (pd_state pd)" "ss_phase (pd_state pd) = RUNNING" "\<forall>g t es. lg_rows K g t es = entry_rows env g t es"
      "pd_matches pd \<longrightarrow> snapshot (pe_prefix env) (ss_checkpoint_snapshot (pd_state pd)) w = Some (facts w)"
      by metis
    have snap: "snapshot (pe_prefix env) (ss_checkpoint_snapshot (pd_state pd')) w' = Some (facts w')"
      by (rule f(4)) (use k(6) in \<open>simp add: at_checkpoint_def\<close>)
    have "facts w' = stored K (pd_state pd') (take k (lg_entries K))"
      using k(2) f(1) by (simp add: pd' stored_def at_checkpoint_def)
    then show "(\<forall>g t es. lg_rows K g t es = entry_rows env g t es) \<and> \<not> ss_incremental (pd_state pd') \<and> ss_phase (pd_state pd') = RUNNING \<and>
       (\<exists>n xs batch. items_ok K n (ss_checkpoint (pd_state pd')) items \<and> pd_writer pd' = Serial batch \<and>
          take n (lg_entries K) = xs @ batch @ pd_pending pd' \<and> facts w' = stored K (pd_state pd') xs) \<and>
       (pd_matches pd' \<longrightarrow> pd_pending pd' = [] \<and> pd_writer pd' = Serial [] \<and>
          snapshot (pe_prefix env) (ss_checkpoint_snapshot (pd_state pd')) w' = Some (facts w'))"
      using k snap assms(2) assms(3) [OF on] by (auto simp: pd' at_checkpoint_def intro!: exI [of _ k])
  qed
qed

text \<open>What a traversal that reached its end has stored.\<close>

definition complete :: "('e, 'r) ledger \<Rightarrow> committed_scan list \<Rightarrow> string \<Rightarrow> scan_state \<Rightarrow> 'r scan_db \<Rightarrow> bool" where
  "complete K C p s w \<longleftrightarrow> (lg_on K \<and> sd_commits w = C \<longrightarrow> \<not> ss_incremental s \<and> facts w = stored K s (lg_entries K) \<and>
     snapshot p (ss_checkpoint_snapshot s) w = Some (facts w))"

lemma due_end:
  assumes "tracks env K C [] pd w" "pd_pending pd = []" "lg_on K \<and> sd_commits w = C \<Longrightarrow> pd_writer pd = Serial []"
    "p = pe_prefix env"
  shows "due K C p pd (at_end n z (pd_state pd)) w"
  unfolding due_def
proof (intro impI)
  assume on: "lg_on K \<and> sd_commits w = C"
  from tracks_settled [OF assms(1,2) assms(3) [OF on]] on obtain k where
    "items_ok K k (ss_checkpoint (pd_state pd)) ([] :: ('a, 'e) scan_item list)" "facts w = stored K (pd_state pd) (take k (lg_entries K))"
    "\<not> ss_incremental (pd_state pd)" "pd_matches pd \<longrightarrow> snapshot p (ss_checkpoint_snapshot (pd_state pd)) w = Some (facts w)"
    unfolding assms(4) by metis
  then show "sealed K (at_end n z (pd_state pd)) (Some (facts w)) \<and>
    (pd_matches pd \<longrightarrow> snapshot p (ss_checkpoint_snapshot (at_end n z (pd_state pd))) w = Some (facts w))"
    by (simp add: sealed_def cut_of_def at_end_def stored_def phase_defs)
qed

lemma complete_end:
  assumes "tracks env K C [] pd w" "pd_pending pd = []" "lg_on K \<and> sd_commits w = C \<Longrightarrow> pd_writer pd = Serial []"
    "save_facts env (at_end n z (pd_state pd)) pd w = (w', Inr pd')" "p = pe_prefix env" "scan_prefix p" "active (pd_state pd)"
  shows "complete K C p (pd_state pd') w'"
proof -
  have act: "active (at_end n z (pd_state pd))" by (simp add: active_def at_end_def)
  have pre: "scan_prefix (pe_prefix env)" using assms(5,6) by simp
  note f = save_facts_Inr [OF assms(4) pre act]
  obtain v token where pd': "pd' = pd\<lparr>pd_state := at_end n z (pd_state pd)\<lparr>ss_version := v, ss_checkpoint_snapshot := token\<rparr>, pd_matches := True\<rparr>"
    using f(3) by blast
  show ?thesis
    unfolding complete_def f(2)
  proof (intro impI)
    assume on: "lg_on K \<and> sd_commits w = C"
    with due_end [OF assms(1,2,3,5), of n z] have due: "sealed K (at_end n z (pd_state pd)) (Some (facts w))"
      "pd_matches pd \<longrightarrow> snapshot (pe_prefix env) (ss_checkpoint_snapshot (at_end n z (pd_state pd))) w = Some (facts w)"
      unfolding assms(5) by (auto simp: due_def)
    show "\<not> ss_incremental (pd_state pd') \<and> facts w' = stored K (pd_state pd') (lg_entries K) \<and>
        snapshot p (ss_checkpoint_snapshot (pd_state pd')) w' = Some (facts w')"
      using due(1) f(4) [OF due(2)] f(1) on assms(5)
      by (simp add: pd' sealed_def cut_of_def at_end_def stored_def phase_defs)
  qed
qed

end
