(* ===== verification/ScanAtomic.thy ===== *)
theory ScanAtomic
  imports ScanLedger "HOL-Library.Code_Target_Nat"
begin

section \<open>A scan publishes its generation or nothing\<close>

text \<open>
  The triples of \<open>ScanTriples\<close> composed to whole executions and to sequences of them: no
  interruption changes the published facts, whatever the statements of an execution did
  before it.
\<close>

subsection \<open>The producer\<close>

definition feeding :: "string \<Rightarrow> committed_scan list \<Rightarrow> ('r multiset \<times> 'r multiset) option \<Rightarrow> ('e, 'r) ledger \<Rightarrow> scan_state \<Rightarrow> 'r scan_db \<Rightarrow> bool" where
  "feeding p C P K s w \<longleftrightarrow> scan_inv p C P K w \<and> live s w \<and> memory w = memory_of s"

lemma hoare_feeding:
  assumes "tb.keeps working_tables m" "\<And>w w' x. m w = (w', Inr x) \<Longrightarrow> st x = s"
  shows "hoare (feeding p C P K s) m (\<lambda>x w. st x = s \<and> feeding p C P K s w) (scan_inv p C P K)"
proof (rule hoareI)
  note h = hoare_working [OF assms(1)]
  show "st x = s \<and> feeding p C P K s w'" if "feeding p C P K s w" "m w = (w', Inr x)" for w w' x
    using hoareD(1) [OF h _ that(2)] assms(2) [OF that(2)] that(1) unfolding feeding_def by blast
  show "scan_inv p C P K w'" if "feeding p C P K s w" "m w = (w', Inl e)" for w w' e
    using hoareD(2) [OF h _ that(2)] that(1) unfolding feeding_def by blast
qed

lemma deliver_pending_state: "deliver_pending env pd w = (w', Inr pd') \<Longrightarrow> pd_state pd' = pd_state pd"
  by (auto simp: deliver_pending_def io_Inr split: if_splits)

lemma barrier_state: "barrier env pd w = (w', Inr pd') \<Longrightarrow> pd_state pd' = pd_state pd"
  by (auto simp: barrier_def io_Inr)

lemma hoare_deliver:
  "pd_state pd = s \<Longrightarrow> hoare (feeding p C P K s) (deliver_pending env pd) (\<lambda>pd' w. pd_state pd' = s \<and> feeding p C P K s w) (scan_inv p C P K)"
  by (rule hoare_feeding [OF working_deliver_pending]) (simp add: deliver_pending_state)

lemma hoare_barrier:
  "pd_state pd = s \<Longrightarrow> hoare (feeding p C P K s) (barrier env pd) (\<lambda>pd' w. pd_state pd' = s \<and> feeding p C P K s w) (scan_inv p C P K)"
  by (rule hoare_feeding [OF working_barrier]) (simp add: barrier_state)

lemma advance_Inr:
  "advance s = Inr s' \<longleftrightarrow> (\<exists>v. checked_add (ss_version s) 1 = Some v \<and> s' = s\<lparr>ss_version := v\<rparr>)"
  by (auto simp: advance_def split: option.split)

lemma checked_add_one: "checked_add v (1 :: u64) = Some v' \<Longrightarrow> v < v'"
  using checked_add_Some_iff [of v 1 v'] by (simp add: word_less_nat_alt)

text \<open>A changed state of the round, saved one version later.\<close>

definition changed :: "scan_state \<Rightarrow> scan_state \<Rightarrow> bool" where
  "changed m s \<longleftrightarrow> state_ok s \<and> active s \<and> ss_version s = ss_version m \<and> ss_event_time s = ss_event_time m \<and>
     ss_generation s = ss_generation m \<and> ss_baseline_snapshot s = ss_baseline_snapshot m \<and>
     ss_checkpoint_snapshot s = ss_checkpoint_snapshot m"

lemma changed_follows: "changed m s \<Longrightarrow> advance s = Inr s' \<Longrightarrow> follows m s' \<and> ss_checkpoint_snapshot s' = ss_checkpoint_snapshot m"
  by (auto simp: advance_Inr changed_def follows_def state_ok_iff active_def dest: checked_add_one)

lemma hoare_pure: "(\<And>w. P w \<Longrightarrow> E w) \<Longrightarrow> hoare P (io_lift r) (\<lambda>x w. r = Inr x \<and> P w) E"
  by (rule hoare_lift) auto

text \<open>A triple with what successful runs lead to besides.\<close>

lemma hoare_Inr:
  "hoare P m Q E \<Longrightarrow> (\<And>w w' x. P w \<Longrightarrow> m w = (w', Inr x) \<Longrightarrow> R x w') \<Longrightarrow> hoare P m (\<lambda>x w. Q x w \<and> R x w) E"
  unfolding hoare_def by (auto split: prod.split sum.split)

lemma hoare_execute_save:
  assumes "follows m s" "action \<noteq> Restore" "ss_checkpoint_snapshot s = ss_checkpoint_snapshot m" "p = pe_prefix env"
  shows "hoare (\<lambda>w. (scan_inv p C P K w \<and> live m w) \<and>
      (if action = Capture then sd_commits w = C \<longrightarrow> sealed K s (Some (facts w)) else promised K C p s w)) (execute_save env action s)
    (\<lambda>s' w. feeding p C P K s' w \<and> (\<exists>token. s' = s\<lparr>ss_checkpoint_snapshot := token\<rparr>)) (scan_inv p C P K)"
proof (cases action)
  case Capture
  show ?thesis
    unfolding execute_save_def Capture save_action.case assms(4)
    by (rule hoare_weaken [OF hoare_seal [OF assms(1)]]) (auto simp: feeding_def)
next
  case ManifestOnly
  show ?thesis
    unfolding execute_save_def ManifestOnly save_action.case
    by (rule hoare_then [OF hoare_pre [OF hoare_save_follows [OF assms(1,3)]]], simp, rule hoare_return)
      (auto simp: feeding_def intro: exI [of _ "ss_checkpoint_snapshot s"])
qed (use assms(2) in simp)

lemma hoare_save_facts:
  assumes "changed m s" "p = pe_prefix env"
  shows "hoare (\<lambda>w. feeding p C P K m w \<and> due K C p pd s w) (save_facts env s pd)
    (\<lambda>pd' w. feeding p C P K (pd_state pd') w \<and> ss_phase (pd_state pd') = ss_phase s) (scan_inv p C P K)"
  unfolding save_facts_def
proof (rule hoare_bind [OF hoare_pure], simp add: feeding_def, rule hoare_assume)
  fix s' assume a: "advance s = Inr s'"
  note f = changed_follows [OF assms(1) a]
  have s': "ss_checkpoint_snapshot s' = ss_checkpoint_snapshot s" "sealed K s' x = sealed K s x" for x
    using a by (auto simp: advance_Inr)
  show "hoare (\<lambda>w. feeding p C P K m w \<and> due K C p pd s w)
    (io_bind (execute_save env (if pd_matches pd then ManifestOnly else Capture) s')
      (\<lambda>s''. io_return (pd\<lparr>pd_state := s'', pd_matches := True\<rparr>)))
    (\<lambda>pd' w. feeding p C P K (pd_state pd') w \<and> ss_phase (pd_state pd') = ss_phase s) (scan_inv p C P K)"
  proof (rule hoare_bind)
    show "hoare (\<lambda>w. feeding p C P K m w \<and> due K C p pd s w) (execute_save env (if pd_matches pd then ManifestOnly else Capture) s')
      (\<lambda>s'' w. feeding p C P K s'' w \<and> (\<exists>token. s'' = s'\<lparr>ss_checkpoint_snapshot := token\<rparr>)) (scan_inv p C P K)"
    proof (rule hoare_pre [OF hoare_execute_save [OF conjunct1 [OF f] _ conjunct2 [OF f] assms(2)]])
      fix w assume w: "feeding p C P K m w \<and> due K C p pd s w"
      then have "sd_commits w = C \<longrightarrow> sealed K s (Some (facts w)) \<and>
          (lg_on K \<and> pd_matches pd \<longrightarrow> snapshot p (ss_checkpoint_snapshot s) w = Some (facts w))"
        by (cases "lg_on K") (auto simp: due_def sealed_def)
      moreover have "sealed K s x" if "\<not> lg_on K" for x using that by (simp add: sealed_def)
      ultimately show "(scan_inv p C P K w \<and> live m w) \<and>
          (if (if pd_matches pd then ManifestOnly else Capture) = Capture then sd_commits w = C \<longrightarrow> sealed K s' (Some (facts w))
           else promised K C p s' w)"
        using w by (cases "lg_on K") (auto simp: feeding_def promised_def s')
    qed simp
    fix s''
    show "hoare (\<lambda>w. feeding p C P K s'' w \<and> (\<exists>token. s'' = s'\<lparr>ss_checkpoint_snapshot := token\<rparr>))
      (io_return (pd\<lparr>pd_state := s'', pd_matches := True\<rparr>))
      (\<lambda>pd' w. feeding p C P K (pd_state pd') w \<and> ss_phase (pd_state pd') = ss_phase s) (scan_inv p C P K)"
      by (rule hoare_return) (use a in \<open>auto simp: advance_Inr\<close>)
  qed
qed

lemma feeding_inv: "feeding p C P K s w \<Longrightarrow> scan_inv p C P K w"
  by (simp add: feeding_def)

lemma feeding_state: "feeding p C P K s w \<Longrightarrow> state_ok s \<and> active s"
  by (auto simp: feeding_def live_def scan_inv_def store_ok_def)

lemma feeding_prefix: "feeding p C P K s w \<Longrightarrow> scan_prefix p"
  using scan_inv_prefix(1) feeding_inv by blast

text \<open>A round in progress, with the items still to come.\<close>

definition under_way ::
  "('e, 'v, 'm, 'r, 'k) pipe_env \<Rightarrow> committed_scan list \<Rightarrow> ('r multiset \<times> 'r multiset) option \<Rightarrow> ('e, 'r) ledger \<Rightarrow>
    ('e, 'k) scan_item list \<Rightarrow> ('e, 'k) producer \<Rightarrow> 'r scan_db \<Rightarrow> bool" where
  "under_way env C P K items pd w \<longleftrightarrow> feeding (pe_prefix env) C P K (pd_state pd) w \<and> tracks env K C items pd w"

lemma under_way_memory: "under_way env C P K items pd w \<Longrightarrow> memory w = memory_of (pd_state pd)"
  by (simp add: under_way_def feeding_def)

lemma hoare_under_way:
  assumes "hoare (feeding p C P K (pd_state pd)) m (\<lambda>pd' w. pd_state pd' = pd_state pd \<and> feeding p C P K (pd_state pd) w) E"
    "p = pe_prefix env" "\<And>w w' x. under_way env C P K items pd w \<Longrightarrow> m w = (w', Inr x) \<Longrightarrow> R x w'"
  shows "hoare (under_way env C P K items pd) m
    (\<lambda>pd' w. (pd_state pd' = pd_state pd \<and> feeding p C P K (pd_state pd') w) \<and> R pd' w) E"
proof (rule hoare_Inr)
  show "hoare (under_way env C P K items pd) m (\<lambda>pd' w. pd_state pd' = pd_state pd \<and> feeding p C P K (pd_state pd') w) E"
    by (rule hoare_weaken [OF assms(1)]) (auto simp: under_way_def assms(2))
qed (rule assms(3))

lemma hoare_deliver_tracked:
  "hoare (under_way env C P K items pd) (deliver_pending env pd)
    (\<lambda>pd' w. (pd_state pd' = pd_state pd \<and> pd_pending pd' = []) \<and> under_way env C P K items pd' w) (scan_inv (pe_prefix env) C P K)"
proof (rule hoare_weaken [OF hoare_under_way [OF hoare_deliver [OF refl] refl]])
  show "tracks env K C items x w' \<and> pd_pending x = []"
    if "under_way env C P K items pd w" "deliver_pending env pd w = (w', Inr x)" for w w' x
    using that tracks_deliver [of env K C items pd w w' x] under_way_memory [OF that(1)] by (simp add: under_way_def)
qed (auto simp: under_way_def)

lemma hoare_barrier_tracked:
  "hoare (under_way env C P K items pd) (barrier env pd)
    (\<lambda>pd' w. (pd_state pd' = pd_state pd \<and> pd_pending pd' = pd_pending pd) \<and> under_way env C P K items pd' w \<and>
      (lg_on K \<and> sd_commits w = C \<longrightarrow> pd_writer pd' = Serial [])) (scan_inv (pe_prefix env) C P K)"
proof (rule hoare_weaken [OF hoare_under_way [OF hoare_barrier [OF refl] refl]])
  show "tracks env K C items x w' \<and> pd_pending x = pd_pending pd \<and> (lg_on K \<and> sd_commits w' = C \<longrightarrow> pd_writer x = Serial [])"
    if "under_way env C P K items pd w" "barrier env pd w = (w', Inr x)" for w w' x
    using that tracks_barrier [of env K C items pd w w' x] under_way_memory [OF that(1)] by (simp add: under_way_def)
qed (auto simp: under_way_def)

lemma hoare_on_resumed:
  assumes "p = pe_prefix env" "pd_state pd = s"
  shows "hoare (feeding p C P K s) (on_resumed env selected pd) (\<lambda>pd' w. pd_state pd' = s \<and> feeding p C P K s w) (scan_inv p C P K)"
  unfolding on_resumed_def
proof (rule hoare_bind [OF hoare_barrier], goal_cases)
  case (2 pd1)
  show ?case
  proof (rule hoare_assume, rule hoare_bind [where R = "\<lambda>s' w. s' = s \<and> feeding p C P K s w"])
    assume s: "pd_state pd1 = s"
    show "hoare (feeding p C P K s) (execute_save env Restore (pd_state pd1)) (\<lambda>s' w. s' = s \<and> feeding p C P K s w) (scan_inv p C P K)"
      unfolding execute_save_def save_action.case s
      by (rule hoare_feeding [where st = id, simplified]) (auto intro!: keeps_statements working_restore simp: io_Inr)
    fix s'
    show "hoare (\<lambda>w. s' = s \<and> feeding p C P K s w)
      (io_bind (io_lift (progress_resumed (pe_kinds env) selected (pd_progress pd1)))
        (\<lambda>pg. io_return (pd1\<lparr>pd_state := s', pd_matches := True, pd_progress := pg,
          pd_statistics := snapshot_of (pe_kinds env) (pg_complete_prefix pg)\<rparr>)))
      (\<lambda>pd' w. pd_state pd' = s \<and> feeding p C P K s w) (scan_inv p C P K)"
      by (rule hoare_assume, rule hoare_bind [OF hoare_pure], simp add: feeding_inv, rule hoare_return) auto
  qed
qed (use assms in auto)

lemma hoare_on_entry:
  assumes "pd_state pd = s"
  shows "hoare (feeding p C P K s) (on_entry env e pd) (\<lambda>pd' w. pd_state pd' = s \<and> feeding p C P K s w) (scan_inv p C P K)"
  unfolding on_entry_def Let_def
  by (rule hoare_if, rule hoare_deliver, simp add: assms, rule hoare_return) (simp add: assms)

lemma hoare_on_counts:
  assumes "pd_state pd = s"
  shows "hoare (feeding p C P K s) (on_counts env d pd) (\<lambda>pd' w. pd_state pd' = s \<and> feeding p C P K s w) (scan_inv p C P K)"
  unfolding on_counts_def
  by (rule hoare_bind [OF hoare_pure], simp add: feeding_inv, simp split: prod.split, intro allI impI, rule hoare_return)
    (simp add: assms)

lemma hoare_on_checkpoint:
  fixes env :: "('e, 'v, 'm, 'r, 'k) pipe_env"
  assumes "p = pe_prefix env"
  shows "hoare (under_way env C P K (Checkpoint cursor # items) pd) (on_checkpoint env cursor pd)
    (\<lambda>pd' w. under_way env C P K items pd' w \<and> ss_phase (pd_state pd') = ss_phase (pd_state pd)) (scan_inv p C P K)"
  unfolding on_checkpoint_def assms
proof (rule hoare_bind [OF hoare_deliver_tracked], rule hoare_assume, rule hoare_bind [OF hoare_barrier_tracked], rule hoare_assume,
    rule hoare_bind [OF hoare_pure], simp add: under_way_def feeding_def, rule hoare_assume)
  fix pd1 pd2 :: "('e, 'k) producer" and counts
  let ?n = "ko_total (pe_kinds env) (sc_scanned counts)" and ?z = "pe_statistics env counts" and ?p = "pe_prefix env"
  assume 1: "pd_state pd1 = pd_state pd \<and> pd_pending pd1 = []" and 2: "pd_state pd2 = pd_state pd1 \<and> pd_pending pd2 = pd_pending pd1"
  let ?s = "pd_state pd2\<lparr>ss_checkpoint := cursor, ss_observed_entries := ?n, ss_statistics := ?z\<rparr>"
  have s: "?s = at_checkpoint cursor ?n ?z (pd_state pd2)" by (simp add: at_checkpoint_def)
  let ?P = "\<lambda>w. under_way env C P K (Checkpoint cursor # items) pd2 w \<and> (lg_on K \<and> sd_commits w = C \<longrightarrow> pd_writer pd2 = Serial [])"
  show "hoare ?P
    (io_bind (save_facts env ?s pd2) (\<lambda>pd. io_return (pd\<lparr>pd_progress := progress_confirm cursor (pd_progress pd)\<rparr>)))
    (\<lambda>pd' w. under_way env C P K items pd' w \<and> ss_phase (pd_state pd') = ss_phase (pd_state pd)) (scan_inv ?p C P K)"
  proof (rule hoare_pre [where P = "\<lambda>w. (state_ok (pd_state pd2) \<and> active (pd_state pd2) \<and> scan_prefix ?p) \<and> ?P w"],
      rule hoare_assume, rule hoare_bind)
    assume ok: "state_ok (pd_state pd2) \<and> active (pd_state pd2) \<and> scan_prefix ?p"
    have ch: "changed (pd_state pd2) ?s"
      using ok by (auto simp: changed_def state_ok_iff active_def)
    show "hoare ?P (save_facts env ?s pd2)
      (\<lambda>pd' w. (feeding ?p C P K (pd_state pd') w \<and> ss_phase (pd_state pd') = ss_phase ?s) \<and> tracks env K C items pd' w) (scan_inv ?p C P K)"
    proof (rule hoare_Inr [OF hoare_pre [OF hoare_save_facts [OF ch refl]]])
      fix w assume w: "?P w"
      have "due K C ?p pd2 ?s w"
        unfolding s by (rule due_checkpoint [of env K C cursor items]) (use w 1 2 in \<open>auto simp: under_way_def\<close>)
      then show "feeding ?p C P K (pd_state pd2) w \<and> due K C ?p pd2 ?s w"
        using w by (simp add: under_way_def)
    next
      fix w w' x assume w: "?P w" and r: "save_facts env ?s pd2 w = (w', Inr x)"
      show "tracks env K C items x w'"
        by (rule tracks_checkpoint [OF _ _ _ r [unfolded s]]) (use w 1 2 ok in \<open>auto simp: under_way_def\<close>)
    qed
    show "hoare (\<lambda>w. (feeding ?p C P K (pd_state pd3) w \<and> ss_phase (pd_state pd3) = ss_phase ?s) \<and> tracks env K C items pd3 w)
      (io_return (pd3\<lparr>pd_progress := progress_confirm cursor (pd_progress pd3)\<rparr>))
      (\<lambda>pd' w. under_way env C P K items pd' w \<and> ss_phase (pd_state pd') = ss_phase (pd_state pd)) (scan_inv ?p C P K)" for pd3
      by (rule hoare_return) (use 1 2 in \<open>simp add: under_way_def\<close>)
  qed (auto simp: under_way_def dest: feeding_state feeding_prefix)
qed

lemma hoare_produce_item:
  assumes "p = pe_prefix env"
  shows "hoare (under_way env C P K (item # items) pd) (produce_item env item pd)
    (\<lambda>pd' w. under_way env C P K items pd' w \<and> ss_phase (pd_state pd') = ss_phase (pd_state pd)) (scan_inv p C P K)"
proof (cases item)
  case (Checkpoint cursor)
  show ?thesis unfolding Checkpoint produce_item.simps by (rule hoare_on_checkpoint [OF assms])
next
  case (Resumed selected)
  have "hoare (under_way env C P K (item # items) pd) (on_resumed env selected pd)
    (\<lambda>pd' w. (pd_state pd' = pd_state pd \<and> feeding p C P K (pd_state pd') w) \<and> tracks env K C items pd' w) (scan_inv p C P K)"
    by (rule hoare_under_way [OF hoare_on_resumed [OF assms refl] assms])
      (auto simp: under_way_def Resumed assms feeding_def intro: tracks_resumed)
  then show ?thesis
    unfolding Resumed produce_item.simps by (rule hoare_weaken) (auto simp: under_way_def assms)
next
  case (Entry e)
  have "hoare (under_way env C P K (item # items) pd) (on_entry env e pd)
    (\<lambda>pd' w. (pd_state pd' = pd_state pd \<and> feeding p C P K (pd_state pd') w) \<and> tracks env K C items pd' w) (scan_inv p C P K)"
    by (rule hoare_under_way [OF hoare_on_entry [OF refl] assms])
      (auto simp: under_way_def Entry assms feeding_def intro: tracks_entry)
  then show ?thesis
    unfolding Entry produce_item.simps by (rule hoare_weaken) (auto simp: under_way_def assms)
next
  case (DirectoryCounts d)
  have "hoare (under_way env C P K (item # items) pd) (on_counts env d pd)
    (\<lambda>pd' w. (pd_state pd' = pd_state pd \<and> feeding p C P K (pd_state pd') w) \<and> tracks env K C items pd' w) (scan_inv p C P K)"
    by (rule hoare_under_way [OF hoare_on_counts [OF refl] assms])
      (auto simp: under_way_def DirectoryCounts assms feeding_def intro: tracks_counts)
  then show ?thesis
    unfolding DirectoryCounts produce_item.simps by (rule hoare_weaken) (auto simp: under_way_def assms)
next
  case Tick
  have "tracks env K C (Tick # items) pd w = tracks env K C items pd w" for w by (simp add: tracks_def)
  then show ?thesis
    unfolding Tick produce_item.simps
    by (intro hoare_weaken [OF hoare_deliver_tracked [of env C P K items pd]]) (auto simp: under_way_def assms)
qed

lemma hoare_produce_items:
  assumes "p = pe_prefix env"
  shows "hoare (under_way env C P K items pd) (produce_items env items pd)
    (\<lambda>pd' w. under_way env C P K [] pd' w \<and> ss_phase (pd_state pd') = ss_phase (pd_state pd)) (scan_inv p C P K)"
proof (induction items arbitrary: pd)
  case Nil
  then show ?case by (auto intro: hoare_return)
next
  case (Cons item items)
  show ?case
    unfolding produce_items.simps
  proof (rule hoare_bind [OF hoare_produce_item [OF assms]])
    fix pd1
    show "hoare (\<lambda>w. under_way env C P K items pd1 w \<and> ss_phase (pd_state pd1) = ss_phase (pd_state pd)) (produce_items env items pd1)
      (\<lambda>pd' w. under_way env C P K [] pd' w \<and> ss_phase (pd_state pd') = ss_phase (pd_state pd)) (scan_inv p C P K)"
    proof (rule hoare_pre [where P = "\<lambda>w. ss_phase (pd_state pd1) = ss_phase (pd_state pd) \<and> under_way env C P K items pd1 w"], rule hoare_assume)
      assume "ss_phase (pd_state pd1) = ss_phase (pd_state pd)"
      with Cons.IH [of pd1] show "hoare (under_way env C P K items pd1) (produce_items env items pd1)
        (\<lambda>pd' w. under_way env C P K [] pd' w \<and> ss_phase (pd_state pd') = ss_phase (pd_state pd)) (scan_inv p C P K)" by simp
    qed simp
  qed
qed

lemma hoare_finish_traversal:
  fixes env :: "('e, 'v, 'm, 'r, 'k) pipe_env"
  assumes "p = pe_prefix env"
  shows "hoare (under_way env C P K [] pd) (finish_traversal env outcome pd)
    (\<lambda>pd' w. (feeding p C P K (pd_state pd') w \<and> ss_phase (pd_state pd') = FINALIZING) \<and> complete K C p (pd_state pd') w) (scan_inv p C P K)"
  unfolding finish_traversal_def assms
proof (rule hoare_bind [OF hoare_deliver_tracked], rule hoare_assume, rule hoare_bind [OF hoare_barrier_tracked], rule hoare_assume,
    rule hoare_bind [OF hoare_pure], simp add: under_way_def feeding_def, rule hoare_assume)
  fix pd1 pd2 :: "('e, 'k) producer" and u :: unit
  let ?n = "sp_scanned_entries (pd_statistics pd2)" and ?z = "pe_statistics env (sp_counts (pd_statistics pd2))" and ?p = "pe_prefix env"
  assume 1: "pd_state pd1 = pd_state pd \<and> pd_pending pd1 = []" and 2: "pd_state pd2 = pd_state pd1 \<and> pd_pending pd2 = pd_pending pd1"
  let ?s = "pd_state pd2\<lparr>ss_phase := FINALIZING, ss_observed_entries := ?n, ss_statistics := ?z\<rparr>"
  have s: "?s = at_end ?n ?z (pd_state pd2)" by (simp add: at_end_def)
  let ?P = "\<lambda>w. under_way env C P K [] pd2 w \<and> (lg_on K \<and> sd_commits w = C \<longrightarrow> pd_writer pd2 = Serial [])"
  show "hoare ?P (save_facts env ?s pd2)
    (\<lambda>pd' w. (feeding ?p C P K (pd_state pd') w \<and> ss_phase (pd_state pd') = FINALIZING) \<and> complete K C ?p (pd_state pd') w) (scan_inv ?p C P K)"
  proof (rule hoare_pre [where P = "\<lambda>w. (state_ok (pd_state pd2) \<and> active (pd_state pd2) \<and> scan_prefix ?p) \<and> ?P w"], rule hoare_assume)
    assume ok: "state_ok (pd_state pd2) \<and> active (pd_state pd2) \<and> scan_prefix ?p"
    then have ch: "changed (pd_state pd2) ?s"
      by (auto simp: changed_def state_ok_iff active_def phase_defs)
    show "hoare ?P (save_facts env ?s pd2)
      (\<lambda>pd' w. (feeding ?p C P K (pd_state pd') w \<and> ss_phase (pd_state pd') = FINALIZING) \<and> complete K C ?p (pd_state pd') w) (scan_inv ?p C P K)"
    proof (rule hoare_Inr)
      show "hoare ?P (save_facts env ?s pd2) (\<lambda>pd' w. feeding ?p C P K (pd_state pd') w \<and> ss_phase (pd_state pd') = FINALIZING) (scan_inv ?p C P K)"
      proof (rule hoare_weaken [OF hoare_save_facts [OF ch refl]])
        fix w assume w: "?P w"
        have "due K C ?p pd2 ?s w"
          unfolding s by (rule due_end [of env K C]) (use w 1 2 in \<open>auto simp: under_way_def\<close>)
        then show "feeding ?p C P K (pd_state pd2) w \<and> due K C ?p pd2 ?s w"
          using w by (simp add: under_way_def)
      qed simp_all
      fix w w' x assume w: "?P w" and r: "save_facts env ?s pd2 w = (w', Inr x)"
      show "complete K C ?p (pd_state x) w'"
        by (rule complete_end [OF _ _ _ r [unfolded s] refl]) (use w 1 2 ok in \<open>auto simp: under_way_def\<close>)
    qed
  qed (auto simp: under_way_def dest: feeding_state feeding_prefix)
qed

lemma hoare_produce:
  assumes "p = pe_prefix env"
  shows "hoare (under_way env C P K items pd) (produce env items outcome pd)
    (\<lambda>s' w. (feeding p C P K s' w \<and> ss_phase s' = FINALIZING) \<and> complete K C p s' w) (scan_inv p C P K)"
  unfolding produce_def
proof (rule hoare_bind [OF hoare_produce_items [OF assms]])
  fix pd1
  show "hoare (\<lambda>w. under_way env C P K [] pd1 w \<and> ss_phase (pd_state pd1) = ss_phase (pd_state pd))
    (io_bind (finish_traversal env outcome pd1) (\<lambda>pd. io_return (pd_state pd)))
    (\<lambda>s' w. (feeding p C P K s' w \<and> ss_phase s' = FINALIZING) \<and> complete K C p s' w) (scan_inv p C P K)"
    by (rule hoare_bind [OF hoare_pre [OF hoare_finish_traversal [OF assms]]], simp, rule hoare_return) simp
qed

subsection \<open>The execution\<close>

text \<open>A round that is over: its manifest says so, and the facts are published.\<close>

definition settled :: "string \<Rightarrow> committed_scan list \<Rightarrow> ('r multiset \<times> 'r multiset) option \<Rightarrow> ('e, 'r) ledger \<Rightarrow> 'r scan_db \<Rightarrow> bool" where
  "settled p C P K w \<longleftrightarrow> scan_inv p C P K w \<and> published p w = Some (facts w) \<and>
     (\<exists>s. manifest w = Some s \<and> ss_phase s = COMPLETED \<and> memory w = memory_of s)"

lemma completed_state_Inr:
  "completed_state s = Inr s' \<Longrightarrow> state_ok s \<Longrightarrow> state_ok s' \<and> ss_phase s' = COMPLETED \<and> \<not> active s' \<and>
     ss_version s < ss_version s' \<and> ss_event_time s' = ss_event_time s"
  by (auto simp: completed_state_def advance_Inr state_ok_iff active_def phase_defs dest: checked_add_one)

lemma completed_successor:
  assumes "scan_inv p C P K w" "manifest w = Some s" "committed_round s w" "completed_state s' = Inr s''"
    "state_ok s'" "ss_version s \<le> ss_version s'" "ss_event_time s' = ss_event_time s"
  shows "successor p s'' w" "committed_round s'' w" "promised K C p s'' w"
proof -
  note c = completed_state_Inr [OF assms(4,5)]
  show "committed_round s'' w" using assms(3,7) c by (simp add: committed_round_def)
  show "promised K C p s'' w" using c by (simp add: promised_def)
  have "published p w = Some (facts w)" using assms(2,3) by (simp add: published_def)
  then show "successor p s'' w"
    using c assms(2,6,7) by (auto simp: successor_def)
qed

lemma hoare_complete:
  assumes "completed_state s' = Inr s''" "state_ok s'" "ss_version s \<le> ss_version s'" "ss_event_time s' = ss_event_time s"
  shows "hoare (\<lambda>w. scan_inv p C P K w \<and> manifest w = Some s \<and> committed_round s w) (save_resume_state n s'')
    (\<lambda>_ w. scan_inv p C P K w \<and> manifest w = Some s'' \<and> memory w = memory_of s'' \<and> committed_round s'' w = True)
    (scan_inv p C P K)"
  by (rule hoare_weaken [OF hoare_save [of p C P K s'' True n]])
    (use completed_successor [OF _ _ _ assms] in \<open>auto simp: saving_def\<close>)

lemma settled_completed:
  "scan_inv p C P K w \<and> manifest w = Some s \<and> ss_phase s = COMPLETED \<and> memory w = memory_of s \<Longrightarrow> settled p C P K w"
  by (auto simp: settled_def published_def active_def phase_defs)

lemma settled_blind: "blind (settled p C P K)"
  by (simp add: blind_def settled_def)

lemma fetch_effect: "\<exists>fs. fst (fetch q w) = w\<lparr>sd_faults := fs\<rparr>"
proof -
  have "\<exists>fs r. statement Some w = (w\<lparr>sd_faults := fs\<rparr>, r)"
    unfolding statement_def Let_def by (auto simp: no_faults split: list.split verdict.split) (metis no_faults)
  then show ?thesis
    by (auto simp: fetch_def io_then_def io_bind_def split: sum.split)
qed

lemma hoare_ignored_sweep: "blind Q \<Longrightarrow> hoare Q (ignore_error batch_cleanup) (\<lambda>_. Q) E"
proof (rule hoareI)
  fix w w' x assume q: "blind Q" "Q w" and "ignore_error batch_cleanup w = (w', Inr x)"
  then have "w' = fst (fetch (\<lambda>_. ()) w)" by (auto simp: ignore_error_def batch_cleanup_def)
  with fetch_effect [of "\<lambda>_. ()" w] q show "Q w'" by (auto simp: blind_def)
qed (simp add: ignore_error_def)

lemma feeding_sealed: "feeding p C P K s w \<Longrightarrow> sd_commits w = C \<Longrightarrow> sealed K s (snapshot p (ss_checkpoint_snapshot s) w)"
  by (auto simp: feeding_def scan_inv_def)

lemma hoare_publish:
  assumes "p = run_prefix env" "ss_phase s = FINALIZING"
  shows "hoare (feeding p C P K s) (publish env s) (\<lambda>_. settled p C P K) (scan_inv p C P K)"
  unfolding publish_def
proof (rule hoare_then [where R = "feeding p C P K s"])
  show "hoare (feeding p C P K s) (final_statistics env s) (\<lambda>_. feeding p C P K s) (scan_inv p C P K)"
    by (rule hoare_weaken [OF hoare_working [OF working_final_statistics, of p C P K s "memory_of s"]]) (auto simp: feeding_def)
  let ?s = "s\<lparr>ss_statistics := re_final_statistics env s\<rparr>"
  let ?rest = "\<lambda>s. io_then (commit_scan_generation (run_restarts env))
    (io_bind (io_lift (completed_state (s\<lparr>ss_statistics := re_final_statistics env s\<rparr>))) (\<lambda>s.
     io_then (save_resume_state (run_restarts env) s)
    (io_then (cleanup_scan_snapshots (run_prefix env) s)
             (ignore_error batch_cleanup))))"
  have rest: "hoare (feeding p C P K s1) (?rest s1) (\<lambda>_. settled p C P K) (scan_inv p C P K)"
    if "ss_phase s1 = FINALIZING" "state_ok s1" for s1
  proof (rule hoare_then [where R = "\<lambda>w. finishing p C P K s1 w \<and> committed_round s1 w"])
    show "hoare (feeding p C P K s1) (commit_scan_generation (run_restarts env)) (\<lambda>_ w. finishing p C P K s1 w \<and> committed_round s1 w)
      (scan_inv p C P K)"
      by (rule hoare_weaken [OF hoare_commit]) (auto simp: feeding_def finishing_def live_def that)
    let ?s1 = "s1\<lparr>ss_statistics := re_final_statistics env s1\<rparr>"
    have ok: "state_ok ?s1" using that by (simp add: state_ok_iff)
    show "hoare (\<lambda>w. finishing p C P K s1 w \<and> committed_round s1 w)
      (io_bind (io_lift (completed_state ?s1)) (\<lambda>s. io_then (save_resume_state (run_restarts env) s)
        (io_then (cleanup_scan_snapshots (run_prefix env) s) (ignore_error batch_cleanup))))
      (\<lambda>_. settled p C P K) (scan_inv p C P K)"
    proof (rule hoare_bind [OF hoare_pure], simp add: finishing_def, rule hoare_assume)
      fix s2 assume c: "completed_state ?s1 = Inr s2"
      note over = completed_state_Inr [OF c ok]
      show "hoare (\<lambda>w. finishing p C P K s1 w \<and> committed_round s1 w) (io_then (save_resume_state (run_restarts env) s2)
        (io_then (cleanup_scan_snapshots (run_prefix env) s2) (ignore_error batch_cleanup))) (\<lambda>_. settled p C P K) (scan_inv p C P K)"
      proof (rule hoare_then, rule hoare_pre [OF hoare_complete [OF c ok, of s1]])
        show "hoare (\<lambda>w. scan_inv p C P K w \<and> manifest w = Some s2 \<and> memory w = memory_of s2 \<and> committed_round s2 w = True)
          (io_then (cleanup_scan_snapshots (run_prefix env) s2) (ignore_error batch_cleanup)) (\<lambda>_. settled p C P K) (scan_inv p C P K)"
          unfolding assms(1) [symmetric]
        proof (rule hoare_then [OF hoare_cleanup])
          show "hoare (\<lambda>w. scan_inv p C P K w \<and> manifest w = Some s2 \<and> memory w = memory_of s2 \<and> committed_round s2 w = True)
            (ignore_error batch_cleanup) (\<lambda>_. settled p C P K) (scan_inv p C P K)"
            by (rule hoare_weaken [OF hoare_ignored_sweep [of "settled p C P K" "scan_inv p C P K"]])
              (use over in \<open>auto simp: settled_blind intro: settled_completed\<close>)
        qed
      qed (auto simp: finishing_def)
    qed
  qed
  show "hoare (feeding p C P K s) (io_bind (io_lift (advance ?s)) (\<lambda>s.
     io_bind (if ss_incremental s then seal_resume_state (run_prefix env) (run_restarts env) s
              else io_then (save_resume_state (run_restarts env) s) (io_return s)) ?rest)) (\<lambda>_. settled p C P K) (scan_inv p C P K)"
  proof (rule hoare_pre [where P = "\<lambda>w. state_ok s \<and> feeding p C P K s w"], rule hoare_assume,
      rule hoare_bind [OF hoare_pure], simp add: feeding_inv, rule hoare_assume)
    fix s1 assume ok: "state_ok s" and a: "advance ?s = Inr s1"
    have f: "follows s s1" and cs: "ss_checkpoint_snapshot s1 = ss_checkpoint_snapshot s" and ph: "ss_phase s1 = FINALIZING"
      using a ok assms(2) by (auto simp: advance_Inr follows_def state_ok_iff active_def dest: checked_add_one)
    show "hoare (feeding p C P K s) (io_bind (if ss_incremental s1 then seal_resume_state (run_prefix env) (run_restarts env) s1
              else io_then (save_resume_state (run_restarts env) s1) (io_return s1)) ?rest) (\<lambda>_. settled p C P K) (scan_inv p C P K)"
    proof (rule hoare_bind [where R = "\<lambda>s2 w. (ss_phase s2 = FINALIZING \<and> state_ok s2) \<and> feeding p C P K s2 w"])
      show "hoare (feeding p C P K s) (if ss_incremental s1 then seal_resume_state (run_prefix env) (run_restarts env) s1
          else io_then (save_resume_state (run_restarts env) s1) (io_return s1))
        (\<lambda>s2 w. (ss_phase s2 = FINALIZING \<and> state_ok s2) \<and> feeding p C P K s2 w) (scan_inv p C P K)"
      proof (rule hoare_if)
        assume "ss_incremental s1"
        then have inc: "ss_incremental s" using a by (auto simp: advance_Inr)
        show "hoare (feeding p C P K s) (seal_resume_state (run_prefix env) (run_restarts env) s1)
          (\<lambda>s2 w. (ss_phase s2 = FINALIZING \<and> state_ok s2) \<and> feeding p C P K s2 w) (scan_inv p C P K)"
          unfolding assms(1) [symmetric]
        proof (rule hoare_weaken [OF hoare_seal [OF f]])
          fix w assume w: "feeding p C P K s w"
          have "sd_commits w = C \<longrightarrow> sealed K s1 (Some (facts w))"
            using inc feeding_sealed [OF w] by (auto simp: sealed_def)
          then show "(scan_inv p C P K w \<and> live s w) \<and> (sd_commits w = C \<longrightarrow> sealed K s1 (Some (facts w)))"
            using w by (simp add: feeding_def)
        qed (use ph f in \<open>auto simp: feeding_def follows_def state_ok_iff\<close>)
      next
        have same: "sealed K s1 x = sealed K s x" for x using a by (auto simp: advance_Inr)
        have "scan_inv p C P K w \<and> live s w \<and> promised K C p s1 w" if "feeding p C P K s w" for w
          using that feeding_sealed [OF that] by (simp add: feeding_def promised_def same cs)
        then show "hoare (feeding p C P K s) (io_then (save_resume_state (run_restarts env) s1) (io_return s1))
          (\<lambda>s2 w. (ss_phase s2 = FINALIZING \<and> state_ok s2) \<and> feeding p C P K s2 w) (scan_inv p C P K)"
          by (intro hoare_then [OF hoare_pre [OF hoare_save_follows [OF f cs]]] hoare_return)
            (use ph f in \<open>auto simp: feeding_def follows_def\<close>)
      qed
      show "hoare (\<lambda>w. (ss_phase s2 = FINALIZING \<and> state_ok s2) \<and> feeding p C P K s2 w) (?rest s2) (\<lambda>_. settled p C P K) (scan_inv p C P K)" for s2
        by (rule hoare_assume) (use rest in blast)
    qed
  qed (use feeding_state in blast)
qed


text \<open>The state a saved manifest leads to.\<close>

definition saved :: "string \<Rightarrow> committed_scan list \<Rightarrow> ('r multiset \<times> 'r multiset) option \<Rightarrow> ('e, 'r) ledger \<Rightarrow> scan_state \<Rightarrow> 'r scan_db \<Rightarrow> bool" where
  "saved p C P K s w \<longleftrightarrow> scan_inv p C P K w \<and> manifest w = Some s"

lemma saved_blind: "blind (saved p C P K s)"
  by (simp add: blind_def saved_def)

lemma inv_state_ok: "scan_inv p C P K w \<Longrightarrow> manifest w = Some s \<Longrightarrow> state_ok s"
  by (simp add: scan_inv_def store_ok_def)

lemma saved_state: "saved p C P K s w \<Longrightarrow> state_ok s"
  by (simp add: saved_def scan_inv_def store_ok_def)

text \<open>Reading the committed generation tells whether the round was committed.\<close>

lemma hoare_restore_generation:
  assumes "active s"
  shows "hoare (saved p C P K s) (restore_resume_generation s)
    (\<lambda>r w. saved p C P K s w \<and> memory w = memory_of s \<and> r = committed_round s w) (scan_inv p C P K)"
  unfolding restore_resume_generation_def
proof (rule hoare_then [where R = "\<lambda>w. saved p C P K s w \<and> memory w = memory_of s"])
  show "hoare (saved p C P K s) (io_modify (\<lambda>w. w\<lparr>sd_epoch := ss_event_time s, sd_generation := ss_generation s\<rparr>))
    (\<lambda>_ w. saved p C P K s w \<and> memory w = memory_of s) (scan_inv p C P K)"
    by (simp add: hoare_def io_modify_def saved_def memory_of_def)
  show "hoare (\<lambda>w. saved p C P K s w \<and> memory w = memory_of s)
    (io_bind committed (\<lambda>c. case c of None \<Rightarrow> io_return False
       | Some d \<Rightarrow>
           if cs_epoch d = ss_event_time s then
             (if ss_phase s \<noteq> FINALIZING then io_lift (Inl GenerationConflict) else io_return True)
           else if cs_generation d = ss_generation s then io_lift (Inl GenerationConflict)
           else io_return False))
    (\<lambda>r w. saved p C P K s w \<and> memory w = memory_of s \<and> r = committed_round s w) (scan_inv p C P K)"
  proof (rule hoare_bind)
    show "hoare (\<lambda>w. saved p C P K s w \<and> memory w = memory_of s) committed
      (\<lambda>c w. (saved p C P K s w \<and> memory w = memory_of s) \<and> c = committed_row w) (scan_inv p C P K)"
      unfolding committed_def
      by (rule hoare_fetch) (auto simp: blind_def saved_def)
    fix c
    show "hoare (\<lambda>w. (saved p C P K s w \<and> memory w = memory_of s) \<and> c = committed_row w) (case c of None \<Rightarrow> io_return False
       | Some d \<Rightarrow>
           if cs_epoch d = ss_event_time s then
             (if ss_phase s \<noteq> FINALIZING then io_lift (Inl GenerationConflict) else io_return True)
           else if cs_generation d = ss_generation s then io_lift (Inl GenerationConflict)
           else io_return False)
      (\<lambda>r w. saved p C P K s w \<and> memory w = memory_of s \<and> r = committed_round s w) (scan_inv p C P K)"
      by (auto simp: hoare_def io_return_def io_lift_def saved_def committed_round_def split: option.split)
  qed
qed

lemma saved_open: "saved p C P K s w \<Longrightarrow> active s \<Longrightarrow> \<not> committed_round s w \<Longrightarrow> live s w"
  by (simp add: saved_def live_def)

text \<open>Restoring a snapshot of the open round.\<close>

lemma hoare_restore:
  "hoare (\<lambda>w. (scan_inv p C P K w \<and> live s w \<and> memory w = e) \<and> snapshot p token w = X) (restore p token)
     (\<lambda>_ w. (scan_inv p C P K w \<and> live s w \<and> memory w = e) \<and> snapshot p token w = X \<and> X = Some (facts w)) (scan_inv p C P K)"
proof (rule hoareI)
  fix w w' and x :: unit
  assume w: "(scan_inv p C P K w \<and> live s w \<and> memory w = e) \<and> snapshot p token w = X" and r: "restore p token w = (w', Inr x)"
  have only: "only_tables working_tables w w'" by (rule keeps_Inr [OF working_restore r])
  have "snapshot p token w = Some (facts w')"
  proof -
    have "scan_prefix p" using scan_inv_prefix(1) w by blast
    then show ?thesis using restore_Inr [of p token w w'] r by simp
  qed
  moreover have inv: "scan_inv p C P K w" and live: "live s w" using w by simp_all
  moreover have "memory w' = e" using w only by (simp add: only_tables_def memory_def)
  ultimately show "(scan_inv p C P K w' \<and> live s w' \<and> memory w' = e) \<and> snapshot p token w' = X \<and> X = Some (facts w')"
    using scan_inv_working [OF inv live only] w by simp
next
  fix w w' err
  assume w: "(scan_inv p C P K w \<and> live s w \<and> memory w = e) \<and> snapshot p token w = X" and r: "restore p token w = (w', Inl err)"
  have only: "only_tables working_tables w w'" by (rule keeps_Inr [OF working_restore r])
  show "scan_inv p C P K w'" using scan_inv_working(1) [OF _ _ only] w by blast
qed

text \<open>Resuming ends in the settled round, or in the open one with the facts of its checkpoint.\<close>

lemma hoare_resume_round:
  assumes "p = run_prefix env" "active s"
  shows "hoare (saved p C P K s) (resume_round env s)
    (\<lambda>(s', over) w. s' = s \<and> (if over then settled p C P K w
       else feeding p C P K s w \<and> snapshot p (ss_checkpoint_snapshot s) w = Some (facts w))) (scan_inv p C P K)"
  unfolding resume_round_def
proof (rule hoare_bind [OF hoare_pure], simp add: saved_def, rule hoare_assume,
    rule hoare_bind [where R = "\<lambda>exist w. saved p C P K s w"])
  show "hoare (saved p C P K s) results_exist (\<lambda>exist w. saved p C P K s w) (scan_inv p C P K)"
    unfolding results_exist_def by (rule hoare_fetch [OF saved_blind]) (auto simp: saved_def)
  fix exist
  let ?m = "io_bind (restore_resume_generation s) (\<lambda>over.
         if over
         then io_bind (io_lift (completed_state s)) (\<lambda>s'.
              io_then (save_resume_state (run_restarts env) s')
             (io_then (cleanup_scan_snapshots (run_prefix env) s')
             (io_then (ignore_error batch_cleanup)
                      (io_return (s, True)))))
         else io_then (restore (run_prefix env) (ss_checkpoint_snapshot s)) (io_return (s, False)))"
  let ?Q = "\<lambda>(s', over) w. s' = s \<and> (if over then settled p C P K w
       else feeding p C P K s w \<and> snapshot p (ss_checkpoint_snapshot s) w = Some (facts w))"
  have "hoare (saved p C P K s) ?m ?Q (scan_inv p C P K)"
  proof (rule hoare_bind [OF hoare_restore_generation [OF assms(2)]])
    fix over
    show "hoare (\<lambda>w. saved p C P K s w \<and> memory w = memory_of s \<and> over = committed_round s w)
      (if over then io_bind (io_lift (completed_state s)) (\<lambda>s'.
              io_then (save_resume_state (run_restarts env) s')
             (io_then (cleanup_scan_snapshots (run_prefix env) s')
             (io_then (ignore_error batch_cleanup)
                      (io_return (s, True)))))
         else io_then (restore (run_prefix env) (ss_checkpoint_snapshot s)) (io_return (s, False))) ?Q (scan_inv p C P K)"
    proof (rule hoare_if)
      assume over
      show "hoare (\<lambda>w. saved p C P K s w \<and> memory w = memory_of s \<and> over = committed_round s w)
        (io_bind (io_lift (completed_state s)) (\<lambda>s'. io_then (save_resume_state (run_restarts env) s')
             (io_then (cleanup_scan_snapshots (run_prefix env) s')
             (io_then (ignore_error batch_cleanup) (io_return (s, True)))))) ?Q (scan_inv p C P K)"
      proof (rule hoare_pre [where P = "\<lambda>w. state_ok s \<and> scan_inv p C P K w \<and> manifest w = Some s \<and> committed_round s w"],
          rule hoare_assume, rule hoare_bind [OF hoare_pure], simp, rule hoare_assume)
        fix s' assume ok: "state_ok s" and c: "completed_state s = Inr s'"
        note fin = completed_state_Inr [OF c ok]
        show "hoare (\<lambda>w. scan_inv p C P K w \<and> manifest w = Some s \<and> committed_round s w) (io_then (save_resume_state (run_restarts env) s')
             (io_then (cleanup_scan_snapshots (run_prefix env) s')
             (io_then (ignore_error batch_cleanup) (io_return (s, True))))) ?Q (scan_inv p C P K)"
          unfolding assms(1) [symmetric]
        proof (rule hoare_then [OF hoare_complete [OF c ok]], simp, simp, rule hoare_then [OF hoare_cleanup],
            rule hoare_then [where R = "settled p C P K"])
          show "hoare (\<lambda>w. scan_inv p C P K w \<and> manifest w = Some s' \<and> memory w = memory_of s' \<and> committed_round s' w = True)
            (ignore_error batch_cleanup) (\<lambda>_. settled p C P K) (scan_inv p C P K)"
            by (rule hoare_weaken [OF hoare_ignored_sweep [of "settled p C P K" "scan_inv p C P K"]])
              (use fin in \<open>auto simp: settled_blind intro: settled_completed\<close>)
          show "hoare (settled p C P K) (io_return (s, True)) ?Q (scan_inv p C P K)"
            by (rule hoare_return) simp
        qed
      qed (use \<open>over\<close> in \<open>auto simp: saved_def dest: inv_state_ok\<close>)
    next
      assume "\<not> over"
      show "hoare (\<lambda>w. saved p C P K s w \<and> memory w = memory_of s \<and> over = committed_round s w)
        (io_then (restore (run_prefix env) (ss_checkpoint_snapshot s)) (io_return (s, False))) ?Q (scan_inv p C P K)"
        unfolding assms(1) [symmetric]
      proof (rule hoare_then [where R = "\<lambda>w. feeding p C P K s w \<and> snapshot p (ss_checkpoint_snapshot s) w = Some (facts w)"])
        show "hoare (\<lambda>w. saved p C P K s w \<and> memory w = memory_of s \<and> over = committed_round s w)
          (restore p (ss_checkpoint_snapshot s))
          (\<lambda>_ w. feeding p C P K s w \<and> snapshot p (ss_checkpoint_snapshot s) w = Some (facts w)) (scan_inv p C P K)"
        proof (rule hoareI)
          fix w w' x
          assume w: "saved p C P K s w \<and> memory w = memory_of s \<and> over = committed_round s w"
            "restore p (ss_checkpoint_snapshot s) w = (w', Inr x)"
          then have "(scan_inv p C P K w \<and> live s w \<and> memory w = memory_of s) \<and>
              snapshot p (ss_checkpoint_snapshot s) w = snapshot p (ss_checkpoint_snapshot s) w"
            using \<open>\<not> over\<close> assms(2) by (auto simp: saved_def live_def)
          from hoareD(1) [OF hoare_restore this w(2)]
          show "feeding p C P K s w' \<and> snapshot p (ss_checkpoint_snapshot s) w' = Some (facts w')"
            by (simp add: feeding_def)
        next
          fix w w' e
          assume w: "saved p C P K s w \<and> memory w = memory_of s \<and> over = committed_round s w"
            "restore p (ss_checkpoint_snapshot s) w = (w', Inl e)"
          then have "(scan_inv p C P K w \<and> live s w \<and> memory w = memory_of s) \<and>
              snapshot p (ss_checkpoint_snapshot s) w = snapshot p (ss_checkpoint_snapshot s) w"
            using \<open>\<not> over\<close> assms(2) by (auto simp: saved_def live_def)
          from hoareD(2) [OF hoare_restore this w(2)] show "scan_inv p C P K w'" .
        qed
        show "hoare (\<lambda>w. feeding p C P K s w \<and> snapshot p (ss_checkpoint_snapshot s) w = Some (facts w)) (io_return (s, False)) ?Q
          (scan_inv p C P K)"
          by (rule hoare_return) simp
      qed
    qed
  qed
  then show "hoare (saved p C P K s) (if \<not> exist then io_lift (Inl ResultsMissing) else ?m) ?Q (scan_inv p C P K)"
    by (auto simp: hoare_def io_lift_def saved_def)
qed


subsection \<open>A new round\<close>

definition at_rest :: "string \<Rightarrow> committed_scan list \<Rightarrow> ('r multiset \<times> 'r multiset) option \<Rightarrow> ('e, 'r) ledger \<Rightarrow> 'r scan_db \<Rightarrow> bool" where
  "at_rest p C P K w \<longleftrightarrow> scan_inv p C P K w \<and> published p w = Some (facts w)"

lemma at_rest_blind: "blind (at_rest p C P K)"
  by (simp add: blind_def at_rest_def)

lemma hoare_abandon_round:
  assumes "p = run_prefix env" "active s"
  shows "hoare (saved p C P K s) (abandon_round env s) (\<lambda>_. at_rest p C P K) (scan_inv p C P K)"
  unfolding abandon_round_def
proof (rule hoare_bind [where R = "\<lambda>r w. (state_ok s \<and> saved p C P K s w) \<and> r = committed_round s w"])
  show "hoare (saved p C P K s) (if ss_phase s = FINALIZING then restore_resume_generation s else io_return False)
    (\<lambda>r w. (state_ok s \<and> saved p C P K s w) \<and> r = committed_round s w) (scan_inv p C P K)"
  proof (rule hoare_if)
    show "hoare (saved p C P K s) (restore_resume_generation s) (\<lambda>r w. (state_ok s \<and> saved p C P K s w) \<and> r = committed_round s w) (scan_inv p C P K)"
      by (rule hoare_weaken [OF hoare_restore_generation [OF assms(2)]]) (auto dest: saved_state)
    assume ph: "ss_phase s \<noteq> FINALIZING"
    show "hoare (saved p C P K s) (io_return False) (\<lambda>r w. (state_ok s \<and> saved p C P K s w) \<and> r = committed_round s w) (scan_inv p C P K)"
    proof (rule hoare_return)
      fix w assume w: "saved p C P K s w"
      then have "\<not> committed_round s w"
        using ph assms(2) by (auto simp: saved_def scan_inv_def store_ok_def)
      with w show "(state_ok s \<and> saved p C P K s w) \<and> False = committed_round s w"
        using saved_state by blast
    qed
  qed
  fix over
  show "hoare (\<lambda>w. (state_ok s \<and> saved p C P K s w) \<and> over = committed_round s w)
    (if over then io_bind (io_lift (completed_state s)) (save_resume_state (run_restarts env))
     else restore (run_prefix env) (ss_baseline_snapshot s)) (\<lambda>_. at_rest p C P K) (scan_inv p C P K)"
  proof (rule hoare_if)
    assume over
    show "hoare (\<lambda>w. (state_ok s \<and> saved p C P K s w) \<and> over = committed_round s w)
      (io_bind (io_lift (completed_state s)) (save_resume_state (run_restarts env))) (\<lambda>_. at_rest p C P K) (scan_inv p C P K)"
    proof (rule hoare_bind [OF hoare_pure], simp add: saved_def, rule hoare_assume,
        rule hoare_pre [where P = "\<lambda>w. state_ok s \<and> scan_inv p C P K w \<and> manifest w = Some s \<and> committed_round s w"], rule hoare_assume)
      fix s' assume c: "completed_state s = Inr s'" and ok: "state_ok s"
      show "hoare (\<lambda>w. scan_inv p C P K w \<and> manifest w = Some s \<and> committed_round s w) (save_resume_state (run_restarts env) s')
        (\<lambda>_. at_rest p C P K) (scan_inv p C P K)"
        by (rule hoare_weaken [OF hoare_complete [OF c ok]]) (auto simp: at_rest_def published_def)
    qed (use \<open>over\<close> in \<open>auto simp: saved_def\<close>)
  next
    assume "\<not> over"
    show "hoare (\<lambda>w. (state_ok s \<and> saved p C P K s w) \<and> over = committed_round s w) (restore (run_prefix env) (ss_baseline_snapshot s))
      (\<lambda>_. at_rest p C P K) (scan_inv p C P K)"
      unfolding assms(1) [symmetric]
    proof (rule hoareI)
      fix w w' and x :: unit
      assume w: "(state_ok s \<and> saved p C P K s w) \<and> over = committed_round s w" and r: "restore p (ss_baseline_snapshot s) w = (w', Inr x)"
      then have "(scan_inv p C P K w \<and> live s w \<and> memory w = memory w) \<and>
          snapshot p (ss_baseline_snapshot s) w = snapshot p (ss_baseline_snapshot s) w"
        using \<open>\<not> over\<close> assms(2) by (auto simp: saved_def live_def)
      from hoareD(1) [OF hoare_restore this r] show "at_rest p C P K w'"
        by (simp add: at_rest_def published_def live_def)
    next
      fix w w' e
      assume w: "(state_ok s \<and> saved p C P K s w) \<and> over = committed_round s w" and r: "restore p (ss_baseline_snapshot s) w = (w', Inl e)"
      then have "(scan_inv p C P K w \<and> live s w \<and> memory w = memory w) \<and>
          snapshot p (ss_baseline_snapshot s) w = snapshot p (ss_baseline_snapshot s) w"
        using \<open>\<not> over\<close> assms(2) by (auto simp: saved_def live_def)
      from hoareD(2) [OF hoare_restore this r] show "scan_inv p C P K w'" .
    qed
  qed
qed

text \<open>Reading the manifest creates working tables that are missing, without rows.\<close>

definition calm :: "'r scan_db \<Rightarrow> 'r scan_db \<Rightarrow> bool" where
  "calm w w' \<longleftrightarrow> sd_manifests w' = sd_manifests w \<and> sd_commits w' = sd_commits w \<and> sd_uuids w' = sd_uuids w \<and>
     facts w' = facts w \<and> (\<forall>t. t \<notin> working_tables \<longrightarrow> table_of t w' = table_of t w)"

interpretation ca: step_relation calm
  by unfold_locales (auto simp: calm_def)

lemma calm_create: "t \<in> working_tables \<Longrightarrow> ca.keeps (create_table_if_absent t)"
  unfolding create_table_if_absent_def
  by (rule ca.keeps_statement) (auto simp: calm_def facts_def rows_of_def)

lemma calm_load: "ca.keeps load_resume_state"
  unfolding load_resume_state_def load_state_def initialize_schema_def await_prior_operations_def batch_cleanup_def
  by (intro ca.keeps_intros calm_create) (auto intro!: ca.keeps_intros ca.keeps_modify simp: calm_def split: option.split)

lemma load_result:
  "load_resume_state w = (w', Inr r) \<Longrightarrow> r = manifest w'"
  unfolding load_resume_state_def load_state_def io_Inr
  by (auto simp: io_Inr io_modify_def split: option.splits if_splits dest!: fetch_Inr) (metis option.exhaust)

lemma calm_same:
  assumes "calm w w'"
  shows "manifest w' = manifest w" "committed_row w' = committed_row w" "facts w' = facts w"
    "scan_prefix p \<Longrightarrow> snapshot p token w' = snapshot p token w" "scan_prefix p \<Longrightarrow> published p w' = published p w"
    "scan_inv p C P K w \<Longrightarrow> scan_inv p C P K w'"
proof -
  have meta: "same_meta w w'" using assms by (simp add: calm_def same_meta_def)
  note same = same_meta_views [OF meta]
  show "manifest w' = manifest w" "committed_row w' = committed_row w" by (simp_all add: same)
  show f: "facts w' = facts w" using assms by (simp add: calm_def)
  have snap: "snapshot p token w' = snapshot p token w" if "scan_prefix p" for token
    by (rule snapshot_frame) (use assms token_tables_not_working [OF that] in \<open>auto simp: calm_def\<close>)
  then show "scan_prefix p \<Longrightarrow> snapshot p token w' = snapshot p token w" by blast
  show "scan_prefix p \<Longrightarrow> published p w' = published p w"
    using snap f by (simp add: published_def same split: option.split)
  assume i: "scan_inv p C P K w"
  have pre: "scan_prefix p" using scan_inv_prefix(1) [OF i] .
  have "names_ok p w'"
    using scan_inv_prefix(2) [OF i] assms token_tables_not_working [OF pre] by (auto simp: names_ok_def calm_def)
  then show "scan_inv p C P K w'"
    by (rule scan_inv_frame [OF i meta]) (use snap [OF pre] f in auto)
qed


lemma hoare_keep:
  assumes "\<And>w. R w (fst (m w))" "\<And>w w'. P w \<Longrightarrow> R w w' \<Longrightarrow> P w'" "\<And>w. P w \<Longrightarrow> E w"
  shows "hoare P m (\<lambda>_. P) E"
proof (rule hoareI)
  show "P w'" if "P w" "m w = (w', Inr x)" for w w' x using assms(1) [of w] assms(2) that by simp
  show "E w'" if "P w" "m w = (w', Inl e)" for w w' e using assms(1) [of w] assms(2,3) that by fastforce
qed

text \<open>The epoch of a new round lies strictly after the saved one.\<close>

lemma sint_i64_max: "sint i64_max = 2 ^ 63 - 1"
  by (simp add: i64_max_def)

lemma sint_next:
  assumes "0 \<le> sint s" "s \<noteq> i64_max"
  shows "sint (s + 1) = sint s + 1"
proof -
  have "sint s \<noteq> 2 ^ 63 - 1"
    using assms(2) sint_i64_max by (metis signed_word_eqI)
  moreover have "sint s < 2 ^ 63" using sint_lt [of s] by simp
  ultimately have "sint s + 1 < 2 ^ 63" "- (2 ^ 63) \<le> sint s + 1" using assms(1) by auto
  then show ?thesis
    by (simp add: sint_word_ariths signed_take_bit_int_eq_self)
qed

lemma next_epoch_after:
  assumes "next_epoch now s = Inr e" "0 \<le> sint s"
  shows "sint s < sint e" "0 \<le> sint e"
  using assms sint_next [of s] by (auto simp: next_epoch_def split: if_splits)

definition based ::
  "string \<Rightarrow> committed_scan list \<Rightarrow> ('r multiset \<times> 'r multiset) option \<Rightarrow> ('e, 'r) ledger \<Rightarrow> bool \<Rightarrow> 'r scan_db \<Rightarrow> bool" where
  "based p C P K i w \<longleftrightarrow> at_rest p C P K w \<and> i = (committed_row w \<noteq> None)"

definition ready :: "string \<Rightarrow> committed_scan list \<Rightarrow> ('r multiset \<times> 'r multiset) option \<Rightarrow> ('e, 'r) ledger \<Rightarrow> bool \<Rightarrow> string \<Rightarrow> u8 \<Rightarrow> 'r scan_db \<Rightarrow> bool" where
  "ready p C P K i b g w \<longleftrightarrow> based p C P K i w \<and> snapshot p b w = Some (facts w) \<and> g \<le> 1 \<and>
     (\<forall>c. committed_row w = Some c \<longrightarrow> cs_generation c \<noteq> g)"

lemma ready_blind: "blind (ready p C P K i b g)"
  by (simp add: blind_def ready_def based_def at_rest_def)

lemma hoare_begin_generation:
  "hoare (\<lambda>w. based p C P K i w \<and> snapshot p b w = Some (facts w)) begin_scan_generation (ready p C P K i b) (scan_inv p C P K)"
  unfolding begin_scan_generation_def
proof (rule hoare_bind)
  show "hoare (\<lambda>w. based p C P K i w \<and> snapshot p b w = Some (facts w)) committed
    (\<lambda>c w. (based p C P K i w \<and> snapshot p b w = Some (facts w)) \<and> c = committed_row w) (scan_inv p C P K)"
    unfolding committed_def by (rule hoare_fetch) (auto simp: blind_def based_def at_rest_def)
  fix c
  show "hoare (\<lambda>w. (based p C P K i w \<and> snapshot p b w = Some (facts w)) \<and> c = committed_row w)
    (io_return (1 - (case c of None \<Rightarrow> 0 | Some s \<Rightarrow> cs_generation s))) (ready p C P K i b) (scan_inv p C P K)"
  proof (rule hoare_return)
    fix w :: "'a scan_db"
    assume w: "(based p C P K i w \<and> snapshot p b w = Some (facts w)) \<and> c = committed_row w"
    have "cs_generation d \<le> 1" if "committed_row w = Some d" for d
      using w that by (simp add: based_def at_rest_def scan_inv_def store_ok_def)
    moreover have "g \<le> 1 \<Longrightarrow> g = 0 \<or> g = 1" for g :: u8
      by (simp add: word_le_nat_alt word_unat_eq_iff) linarith
    ultimately show "ready p C P K i b (1 - (case c of None \<Rightarrow> 0 | Some s \<Rightarrow> cs_generation s)) w"
      using w by (fastforce simp: ready_def split: option.split)
  qed
qed

text \<open>Facts and checkpoint agree at the start of an execution's traversal.\<close>

definition at_cut :: "('e, 'v, 'm, 'r, 'k) run_env \<Rightarrow> ('e, 'r) ledger \<Rightarrow> committed_scan list \<Rightarrow> string \<Rightarrow> scan_state \<Rightarrow> 'r scan_db \<Rightarrow> bool" where
  "at_cut env K C p s w \<longleftrightarrow> (lg_on K \<and> sd_commits w = C \<longrightarrow>
     snapshot p (ss_checkpoint_snapshot s) w = Some (facts w) \<and> (re_resume env \<or> ss_checkpoint s = []))"

lemma fresh_successor:
  assumes "ready p C P K incremental b g w" "manifest w = previous" "advance (fresh_state env previous incremental b g e) = Inr s"
    "next_epoch now (case previous of None \<Rightarrow> 0 | Some m \<Rightarrow> ss_event_time m) = Inr e"
  shows "saving p C P K s False w" "active s"
proof -
  have inv: "scan_inv p C P K w" and pub: "published p w = Some (facts w)" and snap: "snapshot p b w = Some (facts w)"
    using assms(1) by (simp_all add: ready_def based_def at_rest_def)
  have prev: "0 \<le> sint (case previous of None \<Rightarrow> 0 | Some m \<Rightarrow> ss_event_time m)"
    using inv_state_ok [OF inv] assms(2) by (auto simp: state_ok_iff split: option.split)
  note e = next_epoch_after [OF assms(4) prev]
  obtain v where v: "checked_add (case previous of None \<Rightarrow> 0 | Some m \<Rightarrow> ss_version m) 1 = Some v"
    and s: "s = fresh_state env previous incremental b g e\<lparr>ss_version := v\<rparr>"
    using assms(3) by (auto simp: advance_Inr fresh_state_def)
  show "active s" by (simp add: s fresh_state_def active_def)
  have "\<not> committed_round s w"
  proof
    assume "committed_round s w"
    then obtain c where c: "committed_row w = Some c" "cs_epoch c = e"
      by (auto simp: committed_round_def s fresh_state_def)
    then obtain m where "manifest w = Some m" "sint e \<le> sint (ss_event_time m)"
      using inv by (auto simp: scan_inv_def store_ok_def)
    then show False using e(1) assms(2) by auto
  qed
  moreover have "state_ok s"
    using e(2) assms(1) by (simp add: s fresh_state_def state_ok_iff ready_def phase_defs)
  moreover have "open_ok p s w"
    using assms(1) snap by (auto simp: open_ok_def s fresh_state_def ready_def)
  moreover have "ss_version m \<le> ss_version s \<and> sint (ss_event_time m) \<le> sint (ss_event_time s)" if "manifest w = Some m" for m
    using that assms(2) e(1) checked_add_one [OF v] by (auto simp: s fresh_state_def)
  moreover have "promised K C p s w"
    unfolding promised_def
  proof (intro impI)
    assume c: "sd_commits w = C \<and> active s \<and> \<not> committed_round s w"
    have "\<not> incremental" "Some (facts w) = Some (lg_base K)" "\<forall>g t. lg_rows K g t [] = {#}" if "lg_on K"
      using that c assms(1) inv pub by (auto simp: scan_inv_def ready_def based_def committed_row_def)
    then show "sealed K s (snapshot p (ss_checkpoint_snapshot s) w)"
      using snap by (auto simp: sealed_def s fresh_state_def cut_of_def reached_def stored_def)
  qed
  ultimately show "saving p C P K s False w"
    using inv pub snap \<open>active s\<close> by (auto simp: saving_def successor_def) (simp_all add: s fresh_state_def)
qed


lemma hoare_start_round:
  assumes "p = run_prefix env"
  shows "hoare (\<lambda>w. scan_inv p C P K w \<and> manifest w = old) (start_round env old) (\<lambda>s w. feeding p C P K s w \<and> at_cut env K C p s w) (scan_inv p C P K)"
  unfolding start_round_def assms [symmetric]
proof (rule hoare_then [where R = "at_rest p C P K"])
  show "hoare (\<lambda>w. scan_inv p C P K w \<and> manifest w = old)
    (case old of None \<Rightarrow> io_return () | Some s \<Rightarrow> if active s then abandon_round env s else io_return ())
    (\<lambda>_. at_rest p C P K) (scan_inv p C P K)"
  proof (cases "\<exists>s. old = Some s \<and> active s")
    case True
    then obtain s where s: "old = Some s" "active s" by blast
    have "hoare (\<lambda>w. scan_inv p C P K w \<and> manifest w = old) (abandon_round env s) (\<lambda>_. at_rest p C P K) (scan_inv p C P K)"
      by (rule hoare_pre [OF hoare_abandon_round [OF assms s(2)]]) (simp add: saved_def s(1))
    then show ?thesis by (simp add: s)
  next
    case False
    then have "(case old of None \<Rightarrow> io_return () | Some s \<Rightarrow> if active s then abandon_round env s else io_return ()) = io_return ()"
      by (auto split: option.split)
    then show ?thesis
      using False by (auto intro!: hoare_return simp: at_rest_def published_def split: option.split)
  qed
  have base: "hoare (at_rest p C P K) has_baseline (based p C P K) (scan_inv p C P K)"
    unfolding has_baseline_def committed_def
    by (rule hoare_bind [where R = "\<lambda>c w. at_rest p C P K w \<and> c = committed_row w"],
        rule hoare_fetch [OF at_rest_blind], simp, simp add: at_rest_def, rule hoare_return, simp add: based_def)
  show "hoare (at_rest p C P K)
    (io_bind has_baseline (\<lambda>incremental.
     io_bind (capture p (run_restarts env)) (\<lambda>baseline.
     io_bind begin_scan_generation (\<lambda>generation.
     io_bind load_resume_state (\<lambda>previous.
     io_bind (io_lift (case re_now env of None \<Rightarrow> Inl EpochOverflow | Some now \<Rightarrow> Inr now)) (\<lambda>now.
     io_bind (resume_event_epoch now) (\<lambda>event_time.
     io_bind (io_lift (advance (fresh_state env previous incremental baseline generation event_time))) (\<lambda>fresh.
     io_then (save_resume_state (run_restarts env) fresh)
    (io_then (cleanup_scan_snapshots p fresh)
             (io_return fresh)))))))))) (\<lambda>s w. feeding p C P K s w \<and> at_cut env K C p s w) (scan_inv p C P K)"
  proof (rule hoare_bind [OF base], rule hoare_bind [OF hoare_capture], goal_cases)
    case (1 incremental w w')
    then show ?case
      using scan_inv_grows published_grows same_meta_views(2) [OF same_meta_grows] by (fastforce simp: based_def at_rest_def)
  next
    case (3 incremental b)
    show ?case
    proof (rule hoare_bind [OF hoare_begin_generation])
      fix g
      have load: "hoare (ready p C P K incremental b g) load_resume_state (\<lambda>previous w. ready p C P K incremental b g w \<and> manifest w = previous) (scan_inv p C P K)"
      proof (rule hoareI)
        fix w w' r assume w: "ready p C P K incremental b g w" and r: "load_resume_state w = (w', Inr r)"
        have c: "calm w w'" using calm_load r by (metis ca.keeps_def fst_conv)
        have pre: "scan_prefix p" using w scan_inv_prefix(1) by (auto simp: ready_def based_def at_rest_def)
        show "ready p C P K incremental b g w' \<and> manifest w' = r"
          using w pre load_result [OF r] by (simp add: ready_def based_def at_rest_def calm_same [OF c])
      next
        fix w w' e assume w: "ready p C P K incremental b g w" and r: "load_resume_state w = (w', Inl e)"
        have c: "calm w w'" using calm_load r by (metis ca.keeps_def fst_conv)
        show "scan_inv p C P K w'" using w by (simp add: ready_def based_def at_rest_def calm_same(6) [OF c])
      qed
      show "hoare (ready p C P K incremental b g)
        (io_bind load_resume_state (\<lambda>previous.
         io_bind (io_lift (case re_now env of None \<Rightarrow> Inl EpochOverflow | Some now \<Rightarrow> Inr now)) (\<lambda>now.
         io_bind (resume_event_epoch now) (\<lambda>event_time.
         io_bind (io_lift (advance (fresh_state env previous incremental b g event_time))) (\<lambda>fresh.
         io_then (save_resume_state (run_restarts env) fresh)
        (io_then (cleanup_scan_snapshots p fresh)
                 (io_return fresh))))))) (\<lambda>s w. feeding p C P K s w \<and> at_cut env K C p s w) (scan_inv p C P K)"
      proof (rule hoare_bind [OF load], rule hoare_bind [OF hoare_pure], simp add: ready_def based_def at_rest_def, rule hoare_assume,
          rule hoare_bind [where R = "\<lambda>e w. (ready p C P K incremental b g w \<and> manifest w = previous) \<and>
            next_epoch now (case previous of None \<Rightarrow> 0 | Some m \<Rightarrow> ss_event_time m) = Inr e" for previous now])
        fix previous now
        show "hoare (\<lambda>w. ready p C P K incremental b g w \<and> manifest w = previous) (resume_event_epoch now)
          (\<lambda>e w. (ready p C P K incremental b g w \<and> manifest w = previous) \<and>
            next_epoch now (case previous of None \<Rightarrow> 0 | Some m \<Rightarrow> ss_event_time m) = Inr e) (scan_inv p C P K)"
          unfolding resume_event_epoch_def
        proof (rule hoare_bind)
          show "hoare (\<lambda>w. ready p C P K incremental b g w \<and> manifest w = previous) (fetch manifest)
            (\<lambda>row w. (ready p C P K incremental b g w \<and> manifest w = previous) \<and> row = previous) (scan_inv p C P K)"
            by (rule hoare_fetch) (use ready_blind in \<open>auto simp: blind_def ready_def based_def at_rest_def\<close>)
          show "hoare (\<lambda>w. (ready p C P K incremental b g w \<and> manifest w = previous) \<and> row = previous)
            (io_lift (next_epoch now (case row of None \<Rightarrow> 0 | Some s \<Rightarrow> ss_event_time s)))
            (\<lambda>e w. (ready p C P K incremental b g w \<and> manifest w = previous) \<and>
              next_epoch now (case previous of None \<Rightarrow> 0 | Some m \<Rightarrow> ss_event_time m) = Inr e) (scan_inv p C P K)" for row
            by (rule hoare_lift) (auto simp: ready_def based_def at_rest_def)
        qed
        fix e
        let ?R = "\<lambda>w. (ready p C P K incremental b g w \<and> manifest w = previous) \<and>
            next_epoch now (case previous of None \<Rightarrow> 0 | Some m \<Rightarrow> ss_event_time m) = Inr e"
        show "hoare ?R (io_bind (io_lift (advance (fresh_state env previous incremental b g e))) (\<lambda>fresh.
            io_then (save_resume_state (run_restarts env) fresh) (io_then (cleanup_scan_snapshots p fresh) (io_return fresh))))
          (\<lambda>s w. feeding p C P K s w \<and> at_cut env K C p s w) (scan_inv p C P K)"
        proof (rule hoare_bind [OF hoare_pure], simp add: ready_def based_def at_rest_def, rule hoare_assume)
          fix s assume a: "advance (fresh_state env previous incremental b g e) = Inr s"
          show "hoare ?R (io_then (save_resume_state (run_restarts env) s) (io_then (cleanup_scan_snapshots p s) (io_return s)))
            (\<lambda>s w. feeding p C P K s w \<and> at_cut env K C p s w) (scan_inv p C P K)"
          proof (rule hoare_Inr, rule hoare_pre [where P = "\<lambda>w. active s \<and> saving p C P K s False w"], rule hoare_assume, rule hoare_then)
            assume act: "active s"
            show "hoare (saving p C P K s False) (save_resume_state (run_restarts env) s)
              (\<lambda>_ w. scan_inv p C P K w \<and> manifest w = Some s \<and> memory w = memory_of s \<and> committed_round s w = False) (scan_inv p C P K)"
              by (rule hoare_weaken [OF hoare_save]) (auto simp: saving_def)
            show "hoare (\<lambda>w. scan_inv p C P K w \<and> manifest w = Some s \<and> memory w = memory_of s \<and> committed_round s w = False)
              (io_then (cleanup_scan_snapshots p s) (io_return s)) (feeding p C P K) (scan_inv p C P K)"
              by (rule hoare_then [OF hoare_cleanup], rule hoare_return) (use act in \<open>auto simp: feeding_def live_def\<close>)
          next
            fix w w' x
            assume w: "?R w" and "io_then (save_resume_state (run_restarts env) s) (io_then (cleanup_scan_snapshots p s) (io_return s)) w = (w', Inr x)"
            then obtain w1 where w1: "save_resume_state (run_restarts env) s w = (w1, Inr ())"
              and w': "cleanup_scan_snapshots p s w1 = (w', Inr ())" and x: "x = s"
              unfolding io_Inr by blast
            have pre: "scan_prefix p" and snap: "snapshot p b w = Some (facts w)"
              using w scan_inv_prefix(1) by (auto simp: ready_def based_def at_rest_def)
            have s: "ss_checkpoint_snapshot s = b" "ss_checkpoint s = []" "active s"
              using a by (auto simp: advance_Inr fresh_state_def active_def)
            show "at_cut env K C p x w'"
              using cleanup_Inr [OF w' pre] same_tables_facts [OF save_Inr [OF w1]] snap s by (simp add: x at_cut_def)
          qed (use fresh_successor [OF _ _ a] in blast)
        qed
      qed
    qed
  qed (simp add: based_def at_rest_def)
qed

lemma tracks_initial:
  assumes "feeding p C P K s w" "at_cut env K C p s w" "faithful K env" "ss_phase s = RUNNING" "p = run_prefix env"
    "re_source env (if re_resume env \<and> ss_checkpoint s \<noteq> [] then Some (ss_checkpoint s) else None) = (items, outcome)"
  shows "under_way (re_pipe env) C P K items (initial_producer env s sn) w"
proof -
  have "tracks (re_pipe env) K C items (initial_producer env s sn) w"
    unfolding tracks_def
  proof (intro impI)
    assume on: "lg_on K \<and> sd_commits w = C"
    with assms(2) have cut: "snapshot p (ss_checkpoint_snapshot s) w = Some (facts w)" "re_resume env \<or> ss_checkpoint s = []"
      by (simp_all add: at_cut_def)
    have "sealed K s (Some (facts w))" using feeding_sealed [OF assms(1)] on cut(1) by simp
    then have inc: "\<not> ss_incremental s" and f: "facts w = stored K s (take (reached K (ss_checkpoint s)) (lg_entries K))"
      using on assms(4) by (simp_all add: sealed_def cut_of_def)
    have "items_ok K (reached K (ss_checkpoint s)) (ss_checkpoint s) items"
      using assms(3,6) on cut(2) by (auto simp: faithful_def split: if_splits)
    then show "(\<forall>g t es. lg_rows K g t es = entry_rows (re_pipe env) g t es) \<and> \<not> ss_incremental (pd_state (initial_producer env s sn)) \<and>
      ss_phase (pd_state (initial_producer env s sn)) = RUNNING \<and>
      (\<exists>n xs batch. items_ok K n (ss_checkpoint (pd_state (initial_producer env s sn))) items \<and>
        pd_writer (initial_producer env s sn) = Serial batch \<and>
        take n (lg_entries K) = xs @ batch @ pd_pending (initial_producer env s sn) \<and>
        facts w = stored K (pd_state (initial_producer env s sn)) xs) \<and>
      (pd_matches (initial_producer env s sn) \<longrightarrow> pd_pending (initial_producer env s sn) = [] \<and>
        pd_writer (initial_producer env s sn) = Serial [] \<and>
        snapshot (pe_prefix (re_pipe env)) (ss_checkpoint_snapshot (pd_state (initial_producer env s sn))) w = Some (facts w))"
      using assms(3,4) on inc f by (auto simp: initial_producer_def faithful_def)
  qed
  then show ?thesis
    using assms(1,5) by (simp add: under_way_def initial_producer_def run_prefix_def)
qed

lemma hoare_consume:
  assumes "p = run_prefix env" "faithful K env" "ss_phase s = RUNNING"
  shows "hoare (\<lambda>w. feeding p C P K s w \<and> at_cut env K C p s w) (consume env s sn)
    (\<lambda>s w. (feeding p C P K s w \<and> ss_phase s = FINALIZING) \<and> complete K C p s w) (scan_inv p C P K)"
proof -
  obtain items outcome where src: "re_source env (if re_resume env \<and> ss_checkpoint s \<noteq> [] then Some (ss_checkpoint s) else None)
      = (items, outcome)" by fastforce
  have "p = pe_prefix (re_pipe env)" using assms(1) by (simp add: run_prefix_def)
  note produce = hoare_produce [OF this, of C P K items]
  show ?thesis
    unfolding consume_def src prod.case
    by (rule hoare_pre [OF produce]) (elim conjE, rule tracks_initial [OF _ _ assms(2,3,1) src])
qed

lemma hoare_run_round:
  assumes "p = run_prefix env" "faithful K env"
  shows "hoare (\<lambda>w. feeding p C P K s w \<and> at_cut env K C p s w) (run_round env s sn) (\<lambda>_. settled p C P K) (scan_inv p C P K)"
  unfolding run_round_def
proof (rule hoare_bind [where R = "\<lambda>s w. ss_phase s = FINALIZING \<and> feeding p C P K s w"])
  show "hoare (\<lambda>w. feeding p C P K s w \<and> at_cut env K C p s w) (if ss_phase s = RUNNING then consume env s sn else io_return s)
    (\<lambda>s w. ss_phase s = FINALIZING \<and> feeding p C P K s w) (scan_inv p C P K)"
  proof (rule hoare_if)
    assume "ss_phase s = RUNNING"
    from hoare_consume [OF assms this] show "hoare (\<lambda>w. feeding p C P K s w \<and> at_cut env K C p s w) (consume env s sn)
      (\<lambda>s w. ss_phase s = FINALIZING \<and> feeding p C P K s w) (scan_inv p C P K)"
      by (rule hoare_weaken) auto
  next
    assume "ss_phase s \<noteq> RUNNING"
    then show "hoare (\<lambda>w. feeding p C P K s w \<and> at_cut env K C p s w) (io_return s)
      (\<lambda>s w. ss_phase s = FINALIZING \<and> feeding p C P K s w) (scan_inv p C P K)"
      by (intro hoare_return) (use feeding_state in \<open>force simp: active_def\<close>)
  qed
  fix s
  show "hoare (\<lambda>w. ss_phase s = FINALIZING \<and> feeding p C P K s w) (publish env s) (\<lambda>_. settled p C P K) (scan_inv p C P K)"
    by (rule hoare_assume) (rule hoare_publish [OF assms(1)])
qed

lemma hoare_run_persisted:
  assumes "p = run_prefix env" "faithful K env"
  shows "hoare (scan_inv p C P K) (run_persisted env) (\<lambda>_. settled p C P K) (scan_inv p C P K)"
  unfolding run_persisted_def
proof (rule hoare_then [where R = "scan_inv p C P K"])
  show "hoare (scan_inv p C P K) (io_modify (\<lambda>w. w\<lparr>sd_epoch := 0, sd_generation := 0\<rparr>)) (\<lambda>_. scan_inv p C P K) (scan_inv p C P K)"
    by (simp add: hoare_def io_modify_def)
  let ?start = "\<lambda>old. case old of
         Some s \<Rightarrow>
           if active s \<and> re_resume env then resume_round env s
           else io_bind (start_round env old) (\<lambda>s. io_return (s, False))
       | None \<Rightarrow> io_bind (start_round env None) (\<lambda>s. io_return (s, False))"
  let ?T = "\<lambda>(s, over) w. if over then settled p C P K w else feeding p C P K s w \<and> at_cut env K C p s w"
  show "hoare (scan_inv p C P K) (io_bind load_resume_state (\<lambda>old. io_bind (?start old) (\<lambda>(s, over).
     io_bind (io_lift (restored_statistics env s)) (\<lambda>sn. if over then io_return () else run_round env s sn))))
    (\<lambda>_. settled p C P K) (scan_inv p C P K)"
  proof (rule hoare_bind [where R = "\<lambda>old w. scan_inv p C P K w \<and> manifest w = old"], rule hoareI)
    fix w w' r assume w: "scan_inv p C P K w" and r: "load_resume_state w = (w', Inr r)"
    have c: "calm w w'" using calm_load r by (metis ca.keeps_def fst_conv)
    have "scan_inv p C P K w'" using w by (simp add: calm_same(6) [OF c])
    then show "scan_inv p C P K w' \<and> manifest w' = r"
      using load_result [OF r] by simp
  next
    fix w w' e assume w: "scan_inv p C P K w" and r: "load_resume_state w = (w', Inl e)"
    have c: "calm w w'" using calm_load r by (metis ca.keeps_def fst_conv)
    show "scan_inv p C P K w'" using w by (simp add: calm_same(6) [OF c])
  next
    fix old
    show "hoare (\<lambda>w. scan_inv p C P K w \<and> manifest w = old) (io_bind (?start old) (\<lambda>(s, over).
      io_bind (io_lift (restored_statistics env s)) (\<lambda>sn. if over then io_return () else run_round env s sn)))
      (\<lambda>_. settled p C P K) (scan_inv p C P K)"
    proof (rule hoare_bind [where R = ?T])
      have start: "hoare (\<lambda>w. scan_inv p C P K w \<and> manifest w = old) (io_bind (start_round env old) (\<lambda>s. io_return (s, False))) ?T (scan_inv p C P K)"
        by (rule hoare_bind [OF hoare_start_round [OF assms(1)]], rule hoare_return) simp
      show "hoare (\<lambda>w. scan_inv p C P K w \<and> manifest w = old) (?start old) ?T (scan_inv p C P K)"
      proof (cases "\<exists>s. old = Some s \<and> active s \<and> re_resume env")
        case True
        then obtain s where s: "old = Some s" "active s" "re_resume env" by blast
        from hoare_weaken [OF hoare_resume_round [OF assms(1) s(2), of C P K]] show ?thesis
          unfolding s(1) using s(2,3) by (auto simp: saved_def at_cut_def split: prod.split)
      next
        case False
        then have "?start old = io_bind (start_round env old) (\<lambda>s. io_return (s, False))"
          by (auto split: option.split)
        then show ?thesis using start by simp
      qed
      fix x :: "scan_state \<times> bool"
      obtain s over where x: "x = (s, over)" by fastforce
      have "hoare (?T (s, over)) (io_bind (io_lift (restored_statistics env s)) (\<lambda>sn. if over then io_return () else run_round env s sn))
        (\<lambda>_. settled p C P K) (scan_inv p C P K)"
      proof (rule hoare_bind [OF hoare_pure])
        show "scan_inv p C P K w" if "?T (s, over) w" for w
          using that by (auto simp: settled_def feeding_def split: if_splits)
        show "hoare (\<lambda>w. restored_statistics env s = Inr sn \<and> ?T (s, over) w) (if over then io_return () else run_round env s sn)
          (\<lambda>_. settled p C P K) (scan_inv p C P K)" for sn
          by (rule hoare_assume) (auto intro!: hoare_return hoare_run_round [OF assms])
      qed
      then show "hoare (?T x) (case x of (s, over) \<Rightarrow> io_bind (io_lift (restored_statistics env s))
          (\<lambda>sn. if over then io_return () else run_round env s sn)) (\<lambda>_. settled p C P K) (scan_inv p C P K)"
        by (simp add: x)
    qed
  qed
qed

subsection \<open>Any number of executions\<close>

text \<open>Executions of one job, each cut short by its script or by its end, one after the other.\<close>

fun run_scans :: "(('e, 'v, 'm, 'r, 'k) run_env \<times> verdict list) list \<Rightarrow> 'r scan_db \<Rightarrow> 'r scan_db" where
  "run_scans [] w = w"
| "run_scans ((env, script) # runs) w = run_scans runs (fst (run_persisted env (w\<lparr>sd_faults := script\<rparr>)))"

text \<open>Nothing is followed.\<close>

definition no_ledger :: "('e, 'r) ledger" where
  "no_ledger = \<lparr>lg_on = False, lg_entries = [], lg_position = (\<lambda>_. 0), lg_rows = (\<lambda>_ _ _. {#}), lg_base = ({#}, {#})\<rparr>"


lemma no_ledger_faithful: "faithful no_ledger env"
  by (simp add: faithful_def no_ledger_def)

lemma store_ok_inv: "store_ok p w \<longleftrightarrow> scan_inv p (sd_commits w) (published p w) no_ledger w"
  by (simp add: scan_inv_def sealed_def no_ledger_def)

lemma run_persisted_inv:
  assumes "scan_inv p C P K w" "p = run_prefix env" "faithful K env"
  shows "scan_inv p C P K (fst (run_persisted env w))"
proof -
  obtain w' r where r: "run_persisted env w = (w', r)" by fastforce
  show ?thesis
  proof (cases r)
    case (Inl e)
    with hoareD(2) [OF hoare_run_persisted [OF assms(2,3)] assms(1)] r show ?thesis by simp
  next
    case (Inr x)
    with hoareD(1) [OF hoare_run_persisted [OF assms(2,3)] assms(1)] r show ?thesis by (simp add: settled_def)
  qed
qed

lemma run_scans_inv:
  "scan_inv p C P K w \<Longrightarrow> \<forall>(env, script) \<in> set runs. run_prefix env = p \<and> faithful K env \<Longrightarrow> scan_inv p C P K (run_scans runs w)"
proof (induction runs w rule: run_scans.induct)
  case (2 env script runs w)
  then have "scan_inv p C P K (fst (run_persisted env (w\<lparr>sd_faults := script\<rparr>)))"
    by (intro run_persisted_inv) auto
  with 2 show ?case by simp
qed simp

text \<open>
  C2. A scan publishes its generation or nothing. Whatever executions of a job there were,
  whenever they were cut short and whatever their requests did: as long as none of them
  committed a generation, the published facts are exactly those at the start, and they can be
  restored - the snapshot of an unfinished round is complete. An execution that succeeds
  leaves a completed manifest, and the working tables are the published facts.
\<close>

theorem scan_is_atomic:
  fixes env :: "('e, 'v, 'm, 'r, 'k) run_env"
  assumes "store_ok p w" "\<forall>(env, script) \<in> set ((env, script) # runs). run_prefix env = p"
    "w' = run_scans runs w" "run_persisted env (w'\<lparr>sd_faults := script\<rparr>) = (w'', r)"
  shows "store_ok p w' \<and> (\<exists>cs. sd_commits w' = sd_commits w @ cs) \<and>
    (sd_commits w' = sd_commits w \<longrightarrow> published p w' = published p w) \<and> published p w' \<noteq> None \<and>
    (r = Inr () \<longrightarrow> published p w'' = Some (facts w'') \<and> (\<exists>s. manifest w'' = Some s \<and> ss_phase s = COMPLETED))"
proof -
  have "scan_inv p (sd_commits w) (published p w) (no_ledger :: ('e, 'r) ledger) w"
    using assms(1) by (rule iffD1 [OF store_ok_inv])
  then have inv: "scan_inv p (sd_commits w) (published p w) (no_ledger :: ('e, 'r) ledger) w'"
    unfolding assms(3) by (rule run_scans_inv) (use assms(2) no_ledger_faithful in auto)
  then have ok: "store_ok p w'" by (simp add: scan_inv_def)
  have "published p w' \<noteq> None"
    using ok by (auto simp: published_def store_ok_def open_ok_def split: option.split)
  moreover have "settled p (sd_commits w) (published p w) (no_ledger :: ('e, 'r) ledger) w''" if "r = Inr ()"
  proof -
    have p: "p = run_prefix env" using assms(2) by auto
    have "scan_inv p (sd_commits w) (published p w) (no_ledger :: ('e, 'r) ledger) (w'\<lparr>sd_faults := script\<rparr>)" using inv by simp
    from hoareD(1) [OF hoare_run_persisted [OF p no_ledger_faithful] this] assms(4) that show ?thesis by simp
  qed
  ultimately show ?thesis
    using inv ok by (auto simp: scan_inv_def settled_def)
qed

subsection \<open>A scan that runs\<close>

definition toy_kinds :: "u64 kind_ops" where
  "toy_kinds = \<lparr>ko_zero = 0, ko_saturating_add = saturating_add, ko_saturating_sub = saturating_sub, ko_total = id\<rparr>"

definition toy_pipe :: "(toy_entry, unit, unit, string, u64) pipe_env" where
  "toy_pipe = \<lparr>pe_model = toy_model, pe_prefix = ''scan_cut_1_'', pe_restarts = 1, pe_batch_size = 2, pe_hash = length,
     pe_capture = (\<lambda>_ _ v. Inr (fst (ov_entry v))), pe_weight = length, pe_compare = (\<lambda>_ es. ([], map fst es)),
     pe_stamp = (\<lambda>_ r. r), pe_kinds = toy_kinds, pe_statistics = (\<lambda>c. replicate (unat (sc_scanned c)) CHR ''x'')\<rparr>"

text \<open>A job whose source is empty, and one with an entry before and after a checkpoint.\<close>

definition toy_run :: "(toy_entry, unit, unit, string, u64) run_env" where
  "toy_run = \<lparr>re_pipe = toy_pipe, re_request_key = ''key'', re_resume = False, re_now = Some 5,
     re_source = (\<lambda>_. ([], TraversalCompleted 0 0)),
     re_read_statistics = (\<lambda>text. Inr (if text = [] then None
        else Some (snapshot_of toy_kinds (no_counts toy_kinds\<lparr>sc_scanned := of_nat (length text), sc_retained := of_nat (length text)\<rparr>)))),
     re_final_statistics = ss_statistics, re_resolve = (\<lambda>_ _. []), re_cleanup = (\<lambda>_ rows. rows)\<rparr>"

definition toy_directory :: "string \<Rightarrow> u64 directory_statistics" where
  "toy_directory d = \<lparr>ds_path = d, ds_pass_start = True, ds_revision = 1, ds_outcome = Some ListingComplete,
     ds_vanished_listing = False, ds_scanned = 1, ds_filtered = 0, ds_retained = 1, ds_failed = 0, ds_vanished = 0,
     ds_pruned_dirs = 0, ds_truncated_dirs = 0, ds_regular_file_bytes = 0, ds_unknown_file_sizes = 0, ds_versions = 0,
     ds_delete_markers = 0, ds_all_versions_bytes = 0\<rparr>"

definition toy_resumable :: "(toy_entry, unit, unit, string, u64) run_env" where
  "toy_resumable = toy_run\<lparr>re_resume := True,
     re_source := (\<lambda>from. ((case from of
          None \<Rightarrow> [Entry (''a'', False, 1, 1), DirectoryCounts (toy_directory ''d''), Checkpoint [1]]
        | Some c \<Rightarrow> [Resumed (Some c)]) @ [Entry (''b'', False, 1, 1), DirectoryCounts (toy_directory ''e'')],
        TraversalCompleted 0 0))\<rparr>"

definition toy_db :: "string scan_db" where
  "toy_db = \<lparr>sd_tables = [(''base_local'', {#}), (''incremental_local'', {#})], sd_manifests = [], sd_commits = [], sd_epoch = 0,
     sd_generation = 0, sd_uuids = map (replicate 32) ''0123456789'', sd_faults = []\<rparr>"

definition toy_interrupted :: "verdict list" where
  "toy_interrupted = replicate 45 Acknowledged @ replicate 9 (Lost True DatabaseFailed)"

lemma toy_db_ok: "store_ok ''scan_cut_1_'' toy_db"
  by (simp add: store_ok_def names_ok_def manifest_def committed_row_def toy_db_def scan_prefix_def valid_token_def
      table_of_def token_tables_def snapshot_table_def local_table_def hex_digit_def numeral_eq_Suc)

lemma toy_run_succeeds: "snd (run_persisted toy_run (toy_db\<lparr>sd_faults := []\<rparr>)) = Inr ()"
  by code_simp

lemma scan_is_atomic_witness:
  "(let db = run_scans [(toy_resumable, toy_interrupted), (toy_run, toy_interrupted)] toy_db
    in store_ok ''scan_cut_1_'' db \<and> published ''scan_cut_1_'' db \<noteq> None) \<and>
   (let db = fst (run_persisted toy_run (toy_db\<lparr>sd_faults := []\<rparr>))
    in published ''scan_cut_1_'' db = Some (facts db) \<and> (\<exists>s. manifest db = Some s \<and> ss_phase s = COMPLETED))"
proof -
  let ?runs = "[(toy_resumable, toy_interrupted), (toy_run, toy_interrupted)]" and ?p = "''scan_cut_1_''"
  have prefix: "run_prefix toy_run = ?p" "run_prefix toy_resumable = ?p"
    by (simp_all add: run_prefix_def toy_run_def toy_resumable_def toy_pipe_def)
  obtain w'' r where "run_persisted toy_run (run_scans ?runs toy_db\<lparr>sd_faults := []\<rparr>) = (w'', r)" by fastforce
  from scan_is_atomic [OF toy_db_ok _ refl this] prefix
  have 1: "store_ok ?p (run_scans ?runs toy_db) \<and> published ?p (run_scans ?runs toy_db) \<noteq> None" by auto
  let ?w = "fst (run_persisted toy_run (toy_db\<lparr>sd_faults := []\<rparr>))"
  have "run_persisted toy_run (run_scans [] toy_db\<lparr>sd_faults := []\<rparr>) = (?w, Inr ())"
    using toy_run_succeeds by (simp add: prod_eq_iff)
  from scan_is_atomic [OF toy_db_ok _ refl this] prefix
  have "published ?p ?w = Some (facts ?w) \<and> (\<exists>s. manifest ?w = Some s \<and> ss_phase s = COMPLETED)" by auto
  with 1 show ?thesis by (simp add: Let_def)
qed

end
