(* ===== verification/Outbox.thy ===== *)
theory Outbox
  imports Prelude "HOL-Library.Sublist"
begin

section \<open>The outbox of diagnostics\<close>

text \<open>
  \<open>consumer/stats/diagnostics.rs\<close>: a bounded queue of diagnostic events that are delivered to
  the web application in batches. A batch stays in flight, unchanged, until it is
  acknowledged. The texts of an event are redacted and cut to a number of UTF-8 bytes.

  A text is the list of its Unicode scalar values; its length in bytes is \<open>utf8_len\<close>.
  The hash of an identifier (\<open>blake3\<close>, in hexadecimal) is a parameter.
\<close>

subsection \<open>Texts\<close>

type_synonym utext = "nat list"

definition lit :: "string \<Rightarrow> utext" where
  "lit s = map of_char s"

definition char_len :: "nat \<Rightarrow> nat" where
  "char_len c = (if c < 0x80 then 1 else if c < 0x800 then 2 else if c < 0x10000 then 3 else 4)"

definition utf8_len :: "utext \<Rightarrow> nat" where
  "utf8_len t = sum_list (map char_len t)"

definition is_whitespace :: "nat \<Rightarrow> bool" where
  "is_whitespace c \<longleftrightarrow> (9 \<le> c \<and> c \<le> 13) \<or> c \<in> {0x20, 0x85, 0xA0, 0x1680, 0x2028, 0x2029, 0x202F, 0x205F, 0x3000} \<or>
     (0x2000 \<le> c \<and> c \<le> 0x200A)"

definition is_control :: "nat \<Rightarrow> bool" where
  "is_control c \<longleftrightarrow> c < 0x20 \<or> (0x7F \<le> c \<and> c \<le> 0x9F)"

definition ascii_lower :: "nat \<Rightarrow> nat" where
  "ascii_lower c = (if 0x41 \<le> c \<and> c \<le> 0x5A then c + 0x20 else c)"

function split_whitespace :: "utext \<Rightarrow> utext list" where
  "split_whitespace [] = []"
| "split_whitespace (c # cs) =
     (if is_whitespace c then split_whitespace cs
      else takeWhile (\<lambda>c. \<not> is_whitespace c) (c # cs) # split_whitespace (dropWhile (\<lambda>c. \<not> is_whitespace c) cs))"
  by pat_completeness auto
termination
  by (relation "measure length") (auto simp: le_imp_less_Suc length_dropWhile_le)

text \<open>The longest prefix of at most so many bytes that ends between two characters.\<close>

fun text_prefix :: "utext \<Rightarrow> nat \<Rightarrow> utext" where
  "text_prefix [] limit = []"
| "text_prefix (c # cs) limit = (if char_len c \<le> limit then c # text_prefix cs (limit - char_len c) else [])"

definition max_diagnostic_text_bytes :: nat where "max_diagnostic_text_bytes = 2048"
definition max_diagnostic_label_bytes :: nat where "max_diagnostic_label_bytes = 128"
definition max_diagnostic_batch_events :: nat where "max_diagnostic_batch_events = 64"
definition max_diagnostic_queue_events :: nat where "max_diagnostic_queue_events = 512"

definition secret_keys :: "utext list" where
  "secret_keys = map lit [''password'', ''passwd'', ''secret'', ''token'', ''credential'', ''authorization'',
     ''access_key'', ''secret_key'']"

definition names_secret :: "utext \<Rightarrow> bool" where
  "names_secret t \<longleftrightarrow> list_ex (\<lambda>key. sublist key (map ascii_lower t)) secret_keys"

definition holds_url :: "utext \<Rightarrow> bool" where
  "holds_url t \<longleftrightarrow> sublist (lit ''://'') t"

text \<open>URLs are hidden as a whole, a token that names a secret hides everything after it.\<close>

fun redact_tokens :: "utext \<Rightarrow> utext list \<Rightarrow> utext" where
  "redact_tokens result [] = result"
| "redact_tokens result (t # ts) =
     (let result = (if result \<noteq> [] then result @ [0x20] else result);
          result = result @ (if holds_url t \<or> names_secret t then lit ''[redacted]''
                             else map (\<lambda>c. if is_control c then 0xFFFD else c) t)
      in if names_secret t then result
         else if utf8_len result > max_diagnostic_text_bytes then result
         else redact_tokens result ts)"

definition safe_diagnostic_text :: "utext \<Rightarrow> utext" where
  "safe_diagnostic_text t =
     text_prefix (redact_tokens [] (split_whitespace (text_prefix t max_diagnostic_text_bytes))) max_diagnostic_text_bytes"

definition safe_diagnostic_label :: "utext \<Rightarrow> utext" where
  "safe_diagnostic_label t = text_prefix (safe_diagnostic_text t) max_diagnostic_label_bytes"

subsection \<open>Events, batches and the queue\<close>

record diagnostic_event =
  de_id :: utext
  de_round :: utext
  de_attempt :: utext
  de_origin :: utext
  de_code :: utext
  de_message :: utext
  de_path :: "utext option"

record diagnostic_batch =
  db_id :: utext
  db_events :: "diagnostic_event list"
  db_omitted :: u64

record outbox =
  ob_round :: utext
  ob_attempt :: utext
  ob_capacity :: nat
  ob_batch_size :: nat
  ob_revision :: u64
  ob_next_event :: u64
  ob_next_batch :: u64
  ob_omitted :: u64
  ob_pending :: "diagnostic_event list"
  ob_in_flight :: "diagnostic_batch option"

definition outbox_new :: "utext \<Rightarrow> utext \<Rightarrow> nat \<Rightarrow> nat \<Rightarrow> outbox" where
  "outbox_new round attempt capacity batch_size =
     \<lparr>ob_round = round, ob_attempt = attempt, ob_capacity = min capacity max_diagnostic_queue_events,
      ob_batch_size = max 1 (min batch_size max_diagnostic_batch_events), ob_revision = 0, ob_next_event = 0,
      ob_next_batch = 0, ob_omitted = 0, ob_pending = [], ob_in_flight = None\<rparr>"

definition is_digest :: "utext \<Rightarrow> bool" where
  "is_digest t \<longleftrightarrow> utf8_len t = 64 \<and>
     list_all (\<lambda>c. (0x30 \<le> c \<and> c \<le> 0x39) \<or> (0x41 \<le> c \<and> c \<le> 0x46) \<or> (0x61 \<le> c \<and> c \<le> 0x66)) t"

definition is_bounded :: "diagnostic_event \<Rightarrow> bool" where
  "is_bounded e \<longleftrightarrow> is_digest (de_id e) \<and>
     list_all (\<lambda>t. utf8_len t \<le> max_diagnostic_label_bytes) [de_origin e, de_code e] \<and>
     utf8_len (de_message e) \<le> max_diagnostic_text_bytes \<and>
     (case de_path e of None \<Rightarrow> True | Some t \<Rightarrow> utf8_len t \<le> max_diagnostic_text_bytes)"

definition validate_identity :: "outbox \<Rightarrow> utext \<Rightarrow> utext \<Rightarrow> bool" where
  "validate_identity ob round attempt \<longleftrightarrow>
     ob_round ob = round \<and> ob_attempt ob = attempt \<and> ob_capacity ob \<le> max_diagnostic_queue_events \<and>
     1 \<le> ob_batch_size ob \<and> ob_batch_size ob \<le> max_diagnostic_batch_events \<and>
     length (ob_pending ob) \<le> ob_capacity ob \<and>
     list_all (\<lambda>e. de_round e = ob_round ob \<and> de_attempt e \<noteq> [] \<and> is_bounded e) (ob_pending ob) \<and>
     (case ob_in_flight ob of
        None \<Rightarrow> True
      | Some b \<Rightarrow> is_digest (db_id b) \<and> length (db_events b) \<le> ob_batch_size ob \<and> db_omitted b \<le> ob_omitted ob \<and>
          take (length (db_events b)) (ob_pending ob) = db_events b)"

definition set_attempt :: "utext \<Rightarrow> outbox \<Rightarrow> outbox" where
  "set_attempt attempt ob = ob\<lparr>ob_attempt := attempt\<rparr>"

definition identity_text :: "outbox \<Rightarrow> string \<Rightarrow> u64 \<Rightarrow> utext" where
  "identity_text ob kind n =
     lit (show_nat (utf8_len (ob_round ob))) @ lit '':'' @ ob_round ob @ lit '':'' @ ob_attempt ob @ lit '':'' @
     lit kind @ lit '':'' @ lit (show_nat (unat n))"

definition outbox_identifier :: "(utext \<Rightarrow> utext) \<Rightarrow> outbox \<Rightarrow> string \<Rightarrow> u64 \<Rightarrow> utext" where
  "outbox_identifier hash ob kind n = hash (identity_text ob kind n)"

text \<open>True if the event is kept; a full queue only counts it.\<close>

definition enqueue :: "(utext \<Rightarrow> utext) \<Rightarrow> utext \<Rightarrow> utext \<Rightarrow> utext \<Rightarrow> utext option \<Rightarrow> outbox \<Rightarrow> outbox \<times> bool" where
  "enqueue hash origin code message path ob =
     (if ob_revision ob = - 1 then (ob, False)
      else let ob = ob\<lparr>ob_revision := ob_revision ob + 1\<rparr> in
        if length (ob_pending ob) \<ge> ob_capacity ob \<or> ob_next_event ob = - 1
        then (ob\<lparr>ob_omitted := saturating_add (ob_omitted ob) 1\<rparr>, False)
        else let ob = ob\<lparr>ob_next_event := ob_next_event ob + 1\<rparr>;
                 event = \<lparr>de_id = outbox_identifier hash ob ''event'' (ob_next_event ob), de_round = ob_round ob,
                   de_attempt = ob_attempt ob, de_origin = safe_diagnostic_label origin,
                   de_code = safe_diagnostic_label code, de_message = safe_diagnostic_text message,
                   de_path = map_option safe_diagnostic_text path\<rparr>
             in (ob\<lparr>ob_pending := ob_pending ob @ [event]\<rparr>, True))"

definition prepare_batch :: "(utext \<Rightarrow> utext) \<Rightarrow> outbox \<Rightarrow> outbox \<times> diagnostic_batch option" where
  "prepare_batch hash ob =
     (case ob_in_flight ob of
        Some b \<Rightarrow> (ob, Some b)
      | None \<Rightarrow>
          if (ob_pending ob = [] \<and> ob_omitted ob = 0) \<or> ob_next_batch ob = - 1 \<or> ob_revision ob = - 1 then (ob, None)
          else let ob = ob\<lparr>ob_revision := ob_revision ob + 1, ob_next_batch := ob_next_batch ob + 1\<rparr>;
                   batch = \<lparr>db_id = outbox_identifier hash ob ''batch'' (ob_next_batch ob),
                     db_events = take (ob_batch_size ob) (ob_pending ob), db_omitted = ob_omitted ob\<rparr>
               in (ob\<lparr>ob_in_flight := Some batch\<rparr>, Some batch))"

definition ack :: "utext \<Rightarrow> outbox \<Rightarrow> outbox \<times> bool" where
  "ack batch_id ob =
     (if ob_revision ob = - 1 then (ob, False)
      else case ob_in_flight ob of
          None \<Rightarrow> (ob, False)
        | Some b \<Rightarrow>
            if db_id b \<noteq> batch_id then (ob, False)
            else if db_omitted b > ob_omitted ob \<or> take (length (db_events b)) (ob_pending ob) \<noteq> db_events b then (ob, False)
            else (ob\<lparr>ob_pending := drop (length (db_events b)) (ob_pending ob), ob_omitted := ob_omitted ob - db_omitted b,
                     ob_in_flight := None, ob_revision := ob_revision ob + 1\<rparr>, True))"

definition sanitize :: "diagnostic_event \<Rightarrow> diagnostic_event" where
  "sanitize e = e\<lparr>de_origin := safe_diagnostic_label (de_origin e), de_code := safe_diagnostic_label (de_code e),
     de_message := safe_diagnostic_text (de_message e), de_path := map_option safe_diagnostic_text (de_path e)\<rparr>"

end
