(* ===== verification/WebStore.thy ===== *)
theory WebStore
  imports Outbox "HOL-Library.List_Lexorder"
begin

section \<open>The tables of the web application\<close>

text \<open>
  The SQLite tables of \<open>migrations/001_init.sql\<close> with the types of \<open>domain/task.rs\<close>,
  \<open>domain/execution.rs\<close> and \<open>domain/progress.rs\<close>. A column that stores JSON holds the value
  itself here: two values have the same JSON exactly if they are equal. Reports, statistics
  and structured storage errors are opaque. A time is the number the clock shows.
\<close>

datatype task_type = ScanTask | SyncTask | IntegrityCheckTask

datatype task_status = TaskPending | TaskRunning | TaskCompleted | TaskFailed | TaskCancelled

fun show_task_type :: "task_type \<Rightarrow> string" where
  "show_task_type ScanTask = ''scan''"
| "show_task_type SyncTask = ''sync''"
| "show_task_type IntegrityCheckTask = ''integrity_check''"

definition parse_task_type :: "string \<Rightarrow> task_type option" where
  "parse_task_type s =
     (if s = ''scan'' then Some ScanTask else if s = ''sync'' then Some SyncTask
      else if s = ''integrity_check'' then Some IntegrityCheckTask else None)"

fun show_task_status :: "task_status \<Rightarrow> string" where
  "show_task_status TaskPending = ''pending''"
| "show_task_status TaskRunning = ''running''"
| "show_task_status TaskCompleted = ''completed''"
| "show_task_status TaskFailed = ''failed''"
| "show_task_status TaskCancelled = ''cancelled''"

definition parse_task_status :: "string \<Rightarrow> task_status option" where
  "parse_task_status s =
     (if s = ''pending'' then Some TaskPending else if s = ''running'' then Some TaskRunning
      else if s = ''completed'' then Some TaskCompleted else if s = ''failed'' then Some TaskFailed
      else if s = ''cancelled'' then Some TaskCancelled else None)"

definition can_start :: "task_status \<Rightarrow> bool" where "can_start s \<longleftrightarrow> s \<noteq> TaskRunning"
definition can_cancel :: "task_status \<Rightarrow> bool" where "can_cancel s \<longleftrightarrow> s = TaskRunning"
definition can_delete :: "task_status \<Rightarrow> bool" where "can_delete s \<longleftrightarrow> s \<noteq> TaskRunning"

record task_config =
  tc_scan_resume :: bool
  tc_match_expr :: "utext option"
  tc_exclude_expr :: "utext option"
  tc_depth :: u32
  tc_enable_integrity_check :: bool
  tc_enable_acl :: bool
  tc_qos :: "utext option"
  tc_peak_qos_rate :: u32
  tc_block_size :: "utext option"
  tc_iops :: "u32 option"
  tc_concurrency :: "nat option"
  tc_reset_scan_on_start :: bool

record 'x web_task =
  mt_id :: utext
  mt_name :: utext
  mt_type :: task_type
  mt_source_endpoint :: utext
  mt_source_path :: "utext option"
  mt_dest_endpoint :: "utext option"
  mt_dest_path :: "utext option"
  mt_config :: task_config
  mt_status :: task_status
  mt_created_at :: nat
  mt_started_at :: "nat option"
  mt_finished_at :: "nat option"
  mt_error :: "utext option"
  mt_storage_error :: "'x option"

datatype execution_type = FullExecution | IncrementalExecution

record ('s, 'x) task_execution =
  te_id :: utext
  te_task :: utext
  te_type :: execution_type
  te_status :: task_status
  te_started_at :: nat
  te_finished_at :: "nat option"
  te_stats :: "'s option"
  te_error :: "utext option"
  te_storage_error :: "'x option"

record callback_identity =
  ci_round :: utext
  ci_attempt :: utext
  ci_round_started :: u64
  ci_attempt_started :: u64
  ci_sequence :: u64

record ('s, 'x) web_db =
  wd_tasks :: "'x web_task list"
  wd_executions :: "('s, 'x) task_execution list"
  wd_progress :: "(utext \<times> utext \<times> bool) list"
  wd_cursor :: "(utext \<times> callback_identity \<times> bool) list"
  wd_batches :: "((utext \<times> utext) \<times> diagnostic_batch) list"
  wd_events :: "((utext \<times> utext) \<times> diagnostic_event) list"
  wd_omitted :: "(utext \<times> u64) list"

datatype web_error =
    TaskNotFound utext | ExecutionNotFound utext | EndpointNotFound utext | PathNotFound utext
  | ValidationError string | InvalidTaskState string string | WebDatabaseError | ExecutionError utext
  | EndpointInUseByRunningTask "utext list"

text \<open>A row is inserted, or replaced under its key.\<close>

definition upsert :: "'k \<Rightarrow> 'v \<Rightarrow> ('k \<times> 'v) list \<Rightarrow> ('k \<times> 'v) list" where
  "upsert k v rows =
     (if map_of rows k = None then rows @ [(k, v)] else map (\<lambda>(k', v'). (k', if k' = k then v else v')) rows)"

lemma map_of_upsert: "map_of (upsert k v rows) k' = (if k' = k then Some v else map_of rows k')"
proof -
  have "map_of (map (\<lambda>(k', v'). (k', if k' = k then v else v')) rows) k' =
      (if k' = k \<and> map_of rows k \<noteq> None then Some v else map_of rows k')" for rows
    by (induction rows) auto
  then show ?thesis by (auto simp: upsert_def map_add_def split: option.split)
qed

definition task_row :: "utext \<Rightarrow> ('s, 'x) web_db \<Rightarrow> 'x web_task option" where
  "task_row i db = find (\<lambda>t. mt_id t = i) (wd_tasks db)"

definition execution_row :: "utext \<Rightarrow> ('s, 'x) web_db \<Rightarrow> ('s, 'x) task_execution option" where
  "execution_row i db = find (\<lambda>e. te_id e = i) (wd_executions db)"

end
