(* ===== verification/CallbackReceipt.thy ===== *)
theory CallbackReceipt
  imports WebStore "HOL-Library.Code_Target_Nat"
begin

section \<open>Receiving progress callbacks\<close>

text \<open>
  \<open>infrastructure/callback_receipt.rs\<close>: one transaction stores the diagnostics of a callback,
  each event and each batch at most once, and then its report, unless a later one is stored
  already. An error rolls everything back; the acknowledgement of a batch does not depend on
  whether the report was accepted.
\<close>

record 's submission =
  sb_task :: utext
  sb_report :: utext
  sb_final :: bool
  sb_identity :: "callback_identity option"
  sb_diagnostics :: "diagnostic_batch option"
  sb_execution :: "utext option"
  sb_stats :: "'s option"

record progress_receipt =
  pr_accepted :: bool
  pr_ack :: "utext option"

definition invalid_callback :: web_error where
  "invalid_callback = ValidationError ''Invalid callback diagnostic identity or batch''"

definition is_alphanumeric :: "nat \<Rightarrow> bool" where
  "is_alphanumeric c \<longleftrightarrow> (0x30 \<le> c \<and> c \<le> 0x39) \<or> (0x41 \<le> c \<and> c \<le> 0x5A) \<or> (0x61 \<le> c \<and> c \<le> 0x7A)"

definition valid_id :: "utext \<Rightarrow> bool" where
  "valid_id t \<longleftrightarrow> t \<noteq> [] \<and> utf8_len t \<le> 256 \<and> list_all (\<lambda>c. is_alphanumeric c \<or> c \<in> set (lit ''-_:./'')) t"

definition validate_submission :: "'s submission \<Rightarrow> web_error + unit" where
  "validate_submission sb =
     (if (case sb_identity sb of
            None \<Rightarrow> False
          | Some i \<Rightarrow> \<not> valid_id (ci_round i) \<or> \<not> valid_id (ci_attempt i) \<or> ci_round_started i > ci_attempt_started i)
      then Inl invalid_callback
      else case sb_diagnostics sb of
          None \<Rightarrow> Inr ()
        | Some b \<Rightarrow>
            if \<not> valid_id (db_id b) \<or> length (db_events b) > max_diagnostic_batch_events then Inl invalid_callback
            else if list_ex (\<lambda>e. \<not> valid_id (de_id e) \<or> \<not> valid_id (de_round e) \<or> \<not> valid_id (de_attempt e) \<or>
                (case sb_identity sb of None \<Rightarrow> True | Some i \<Rightarrow> ci_round i \<noteq> de_round e)) (db_events b)
            then Inl invalid_callback
            else if sb_identity sb = None then Inl invalid_callback
            else Inr ())"

text \<open>A report follows the stored one of an earlier round, of an earlier attempt, or of the same attempt unless that was final.\<close>

definition follows_callback :: "callback_identity \<Rightarrow> callback_identity \<Rightarrow> bool \<Rightarrow> bool" where
  "follows_callback next current final_report =
     (if ci_round_started next > ci_round_started current then ci_round next \<noteq> ci_round current
      else if ci_round_started next < ci_round_started current then False
      else if ci_round next \<noteq> ci_round current then False
      else if ci_attempt_started next > ci_attempt_started current then ci_attempt next \<noteq> ci_attempt current
      else if ci_attempt_started next < ci_attempt_started current then False
      else ci_attempt next = ci_attempt current \<and> ci_sequence next > ci_sequence current \<and> \<not> final_report)"

text \<open>The events of a batch by their identifier, in its order; one identifier stands for one event.\<close>

fun collect_events :: "(utext \<times> diagnostic_event) list \<Rightarrow> diagnostic_event list \<Rightarrow> (utext \<times> diagnostic_event) list option" where
  "collect_events m [] = Some m"
| "collect_events m (e # es) =
     (case map_of m (de_id e) of
        Some old \<Rightarrow> if old = e then collect_events m es else None
      | None \<Rightarrow> collect_events (insort_key fst (de_id e, e) m) es)"

definition store_events :: "utext \<Rightarrow> diagnostic_event list \<Rightarrow> ('s, 'x) web_db \<Rightarrow> web_error + ('s, 'x) web_db" where
  "store_events task incoming db =
     (if incoming = [] then Inr db
      else case collect_events [] incoming of
          None \<Rightarrow> Inl invalid_callback
        | Some events \<Rightarrow>
            if list_ex (\<lambda>(i, e). map_of (wd_events db) (task, i) \<noteq> None \<and> map_of (wd_events db) (task, i) \<noteq> Some e) events
            then Inl invalid_callback
            else Inr (db\<lparr>wd_events := wd_events db @
              map (\<lambda>(i, e). ((task, i), e)) (filter (\<lambda>(i, e). map_of (wd_events db) (task, i) = None) events)\<rparr>))"

definition sanitize_batch :: "diagnostic_batch \<Rightarrow> diagnostic_batch" where
  "sanitize_batch b = b\<lparr>db_events := map sanitize (db_events b)\<rparr>"

definition store_batch :: "utext \<Rightarrow> diagnostic_batch \<Rightarrow> ('s, 'x) web_db \<Rightarrow> web_error + ('s, 'x) web_db" where
  "store_batch task batch db =
     (let sanitized = sanitize_batch batch in
      case map_of (wd_batches db) (task, db_id batch) of
        Some existing \<Rightarrow> if existing = sanitized then Inr db else Inl invalid_callback
      | None \<Rightarrow>
          (case store_events task (db_events sanitized) db of
             Inl e \<Rightarrow> Inl e
           | Inr db \<Rightarrow>
               let db = db\<lparr>wd_batches := wd_batches db @ [((task, db_id batch), sanitized)]\<rparr>;
                   omitted = (case map_of (wd_omitted db) task of None \<Rightarrow> 0 | Some n \<Rightarrow> n)
               in Inr (db\<lparr>wd_omitted := upsert task (saturating_add omitted (db_omitted batch)) (wd_omitted db)\<rparr>)))"

text \<open>The running execution of a task that started last.\<close>

definition latest_running :: "utext \<Rightarrow> ('s, 'x) web_db \<Rightarrow> utext option" where
  "latest_running task db =
     (case filter (\<lambda>e. te_task e = task \<and> te_status e = TaskRunning) (wd_executions db) of
        [] \<Rightarrow> None
      | e # es \<Rightarrow> Some (te_id (foldl (\<lambda>a b. if te_started_at b > te_started_at a then b else a) e es)))"

definition store_progress :: "'s submission \<Rightarrow> ('s, 'x) web_db \<Rightarrow> ('s, 'x) web_db" where
  "store_progress sb db =
     (let db = db\<lparr>wd_progress := upsert (sb_task sb) (sb_report sb, sb_final sb) (wd_progress db)\<rparr>;
          db = (case sb_identity sb of
                  None \<Rightarrow> db
                | Some i \<Rightarrow> db\<lparr>wd_cursor := upsert (sb_task sb) (i, sb_final sb) (wd_cursor db)\<rparr>)
      in case sb_stats sb of
           None \<Rightarrow> db
         | Some stats \<Rightarrow>
             let i = (case sb_execution sb of Some i \<Rightarrow> Some i | None \<Rightarrow> latest_running (sb_task sb) db)
             in db\<lparr>wd_executions := map (\<lambda>e.
                  if Some (te_id e) = i \<and> te_task e = sb_task sb \<and> te_status e = TaskRunning
                  then e\<lparr>te_stats := Some stats\<rparr> else e) (wd_executions db)\<rparr>)"

definition receive :: "'s submission \<Rightarrow> ('s, 'x) web_db \<Rightarrow> web_error + ('s, 'x) web_db \<times> progress_receipt" where
  "receive sb db =
     (case task_row (sb_task sb) db of
        None \<Rightarrow> Inl (TaskNotFound (sb_task sb))
      | Some task \<Rightarrow>
          (case validate_submission sb of
             Inl e \<Rightarrow> Inl e
           | Inr _ \<Rightarrow>
               (case (case sb_execution sb of
                        None \<Rightarrow> Inr None
                      | Some i \<Rightarrow>
                          (case find (\<lambda>e. te_id e = i \<and> te_task e = sb_task sb) (wd_executions db) of
                             None \<Rightarrow> Inl invalid_callback
                           | Some e \<Rightarrow> Inr (Some (te_status e = TaskRunning)))) of
                  Inl e \<Rightarrow> Inl e
                | Inr running \<Rightarrow>
                    (case (case sb_diagnostics sb of None \<Rightarrow> Inr db | Some b \<Rightarrow> store_batch (sb_task sb) b db) of
                       Inl e \<Rightarrow> Inl e
                     | Inr db \<Rightarrow>
                         let accepted =
                               (case (sb_identity sb, map_of (wd_cursor db) (sb_task sb)) of
                                  (Some i, Some (current, final_report)) \<Rightarrow> follows_callback i current final_report
                                | (Some _, None) \<Rightarrow> True
                                | (None, None) \<Rightarrow> True
                                | (None, Some _) \<Rightarrow> False);
                             accepted = (case running of None \<Rightarrow> accepted | Some r \<Rightarrow> accepted \<and> r);
                             accepted = (if sb_final sb \<and> mt_status task \<noteq> TaskRunning then False else accepted)
                         in Inr (if accepted then store_progress sb db else db,
                                 \<lparr>pr_accepted = accepted, pr_ack = map_option db_id (sb_diagnostics sb)\<rparr>)))))"

text \<open>Callbacks of any sender, one after the other; those that fail change nothing.\<close>

fun receive_all :: "'s submission list \<Rightarrow> ('s, 'x) web_db \<Rightarrow> ('s, 'x) web_db" where
  "receive_all [] db = db"
| "receive_all (sb # sbs) db = receive_all sbs (case receive sb db of Inl _ \<Rightarrow> db | Inr (db', _) \<Rightarrow> db')"

subsection \<open>Repetition\<close>

lemma store_batch_stored:
  "store_batch task b db = Inr db' \<Longrightarrow> map_of (wd_batches db') (task, db_id b) = Some (sanitize_batch b)"
  by (auto simp: store_batch_def store_events_def Let_def map_add_def split: option.splits if_splits sum.splits)

lemma store_batch_present: "map_of (wd_batches db) (task, db_id b) = Some (sanitize_batch b) \<Longrightarrow> store_batch task b db = Inr db"
  by (simp add: store_batch_def)

lemma store_batch_rows:
  "store_batch task b db = Inr db' \<Longrightarrow> wd_tasks db' = wd_tasks db \<and> wd_executions db' = wd_executions db \<and>
     wd_cursor db' = wd_cursor db \<and> wd_progress db' = wd_progress db"
  by (auto simp: store_batch_def store_events_def Let_def split: option.splits if_splits sum.splits)

lemma store_progress_rows [simp]:
  "wd_tasks (store_progress sb db) = wd_tasks db" "wd_batches (store_progress sb db) = wd_batches db"
  "wd_events (store_progress sb db) = wd_events db" "wd_omitted (store_progress sb db) = wd_omitted db"
  by (auto simp: store_progress_def Let_def split: option.split)

lemma store_progress_cursor:
  "map_of (wd_cursor (store_progress sb db)) t =
     (case sb_identity sb of Some i \<Rightarrow> if t = sb_task sb then Some (i, sb_final sb) else map_of (wd_cursor db) t
      | None \<Rightarrow> map_of (wd_cursor db) t)"
  "map_of (wd_progress (store_progress sb db)) t =
     (if t = sb_task sb then Some (sb_report sb, sb_final sb) else map_of (wd_progress db) t)"
  by (auto simp: store_progress_def Let_def map_of_upsert split: option.split)

lemma find_map_same: "(\<And>x. P (f x) = P x) \<Longrightarrow> find P (map f xs) = map_option f (find P xs)"
  by (induction xs) auto

text \<open>Whether the execution a callback names is running.\<close>

definition execution_check :: "'s submission \<Rightarrow> ('s, 'x) web_db \<Rightarrow> web_error + bool option" where
  "execution_check sb db =
     (case sb_execution sb of
        None \<Rightarrow> Inr None
      | Some i \<Rightarrow>
          (case find (\<lambda>e. te_id e = i \<and> te_task e = sb_task sb) (wd_executions db) of
             None \<Rightarrow> Inl invalid_callback
           | Some e \<Rightarrow> Inr (Some (te_status e = TaskRunning))))"

lemma execution_check_progress: "execution_check sb (store_progress sb' db) = execution_check sb db"
proof -
  obtain f where f: "wd_executions (store_progress sb' db) = map f (wd_executions db)"
    "\<And>e. te_id (f e) = te_id e \<and> te_task (f e) = te_task e \<and> te_status (f e) = te_status e"
  proof (cases "sb_stats sb'")
    case None
    then show ?thesis by (intro that [of id]) (auto simp: store_progress_def Let_def split: option.split)
  next
    case (Some stats)
    define db1 where "db1 = (case sb_identity sb' of
        None \<Rightarrow> db\<lparr>wd_progress := upsert (sb_task sb') (sb_report sb', sb_final sb') (wd_progress db)\<rparr>
      | Some i \<Rightarrow> db\<lparr>wd_progress := upsert (sb_task sb') (sb_report sb', sb_final sb') (wd_progress db),
          wd_cursor := upsert (sb_task sb') (i, sb_final sb') (wd_cursor db)\<rparr>)"
    define i where "i = (case sb_execution sb' of Some i \<Rightarrow> Some i | None \<Rightarrow> latest_running (sb_task sb') db1)"
    have "wd_executions db1 = wd_executions db" by (simp add: db1_def split: option.split)
    then show ?thesis
      by (intro that [of "\<lambda>e. if Some (te_id e) = i \<and> te_task e = sb_task sb' \<and> te_status e = TaskRunning
          then e\<lparr>te_stats := Some stats\<rparr> else e"])
        (auto simp: store_progress_def Let_def Some i_def db1_def split: option.split)
  qed
  show ?thesis
    unfolding execution_check_def f(1) by (subst find_map_same) (auto simp: f(2) split: option.split)
qed

definition acceptable :: "'s submission \<Rightarrow> 'x web_task \<Rightarrow> bool option \<Rightarrow> (callback_identity \<times> bool) option \<Rightarrow> bool" where
  "acceptable sb task running current \<longleftrightarrow>
     (case (sb_identity sb, current) of
        (Some i, Some (c, final_report)) \<Rightarrow> follows_callback i c final_report
      | (Some _, None) \<Rightarrow> True
      | (None, None) \<Rightarrow> True
      | (None, Some _) \<Rightarrow> False) \<and> running \<noteq> Some False \<and> (sb_final sb \<longrightarrow> mt_status task = TaskRunning)"

text \<open>A callback that is received passes its checks, stores its batch and then its report.\<close>

lemma receive_Inr:
  "receive sb db = Inr (db', r) \<longleftrightarrow>
     (\<exists>task running db1. task_row (sb_task sb) db = Some task \<and> validate_submission sb = Inr () \<and>
        execution_check sb db = Inr running \<and>
        (case sb_diagnostics sb of None \<Rightarrow> db1 = db | Some b \<Rightarrow> store_batch (sb_task sb) b db = Inr db1) \<and>
        r = \<lparr>pr_accepted = acceptable sb task running (map_of (wd_cursor db1) (sb_task sb)), pr_ack = map_option db_id (sb_diagnostics sb)\<rparr> \<and>
        db' = (if pr_accepted r then store_progress sb db1 else db1))"
proof -
  have accept: "(let accepted = b;
        accepted = (case running of None \<Rightarrow> accepted | Some r \<Rightarrow> accepted \<and> r);
        accepted = (if sb_final sb \<and> mt_status task \<noteq> TaskRunning then False else accepted)
      in g accepted) = g (b \<and> running \<noteq> Some False \<and> (sb_final sb \<longrightarrow> mt_status task = TaskRunning))"
    for b running task and g :: "bool \<Rightarrow> web_error + ('a, 'b) web_db \<times> progress_receipt"
    by (cases running) (auto simp: Let_def intro: arg_cong [of _ _ g])
  show ?thesis
    unfolding receive_def execution_check_def [symmetric] accept acceptable_def [symmetric]
    by (auto split: option.splits sum.splits)
qed

lemma not_after_itself: "\<not> follows_callback i i f"
  by (simp add: follows_callback_def)

lemma task_row_progress [simp]: "task_row t (store_progress sb db) = task_row t db"
  by (simp add: task_row_def)

lemma receive_tasks: "receive sb db = Inr (db', r) \<Longrightarrow> wd_tasks db' = wd_tasks db"
  using store_batch_rows by (fastforce simp: receive_Inr split: option.splits)

text \<open>
  C22. A callback may arrive any number of times: received once, it is received again, its batch is
  acknowledged again, and nothing in the tables changes, neither events nor omissions nor the
  report.
\<close>

theorem callback_is_idempotent:
  assumes "receive sb db = Inr (db', r)" "sb_identity sb \<noteq> None"
  shows "receive sb db' = Inr (db', r\<lparr>pr_accepted := False\<rparr>)"
proof -
  obtain i where i: "sb_identity sb = Some i" using assms(2) by blast
  obtain task running db1 where ok: "task_row (sb_task sb) db = Some task" "validate_submission sb = Inr ()"
      "execution_check sb db = Inr running" and
    batch: "case sb_diagnostics sb of None \<Rightarrow> db1 = db | Some b \<Rightarrow> store_batch (sb_task sb) b db = Inr db1" and
    r: "r = \<lparr>pr_accepted = acceptable sb task running (map_of (wd_cursor db1) (sb_task sb)), pr_ack = map_option db_id (sb_diagnostics sb)\<rparr>" and
    db': "db' = (if pr_accepted r then store_progress sb db1 else db1)"
    using assms(1) unfolding receive_Inr by blast
  have rows: "wd_tasks db1 = wd_tasks db \<and> wd_executions db1 = wd_executions db"
    using batch store_batch_rows by (auto split: option.splits)
  have again: "case sb_diagnostics sb of None \<Rightarrow> True | Some b \<Rightarrow> store_batch (sb_task sb) b db' = Inr db'"
    using batch db' by (auto split: option.splits intro!: store_batch_present dest: store_batch_stored)
  have same: "execution_check sb db1 = execution_check sb db"
    using rows by (cases "sb_execution sb") (simp_all add: execution_check_def)
  have checks: "task_row (sb_task sb) db' = Some task" "execution_check sb db' = Inr running"
    using ok(1,3) rows db' same by (simp_all add: task_row_def execution_check_progress)
  have "\<not> acceptable sb task running (map_of (wd_cursor db') (sb_task sb))"
    using r db' not_after_itself by (auto simp: acceptable_def i store_progress_cursor)
  then show ?thesis
    unfolding receive_Inr using ok(2) checks again r by (auto split: option.splits)
qed

definition toy_task :: "unit web_task" where
  "toy_task = \<lparr>mt_id = [116], mt_name = [110], mt_type = ScanTask, mt_source_endpoint = [101], mt_source_path = None,
     mt_dest_endpoint = None, mt_dest_path = None,
     mt_config = \<lparr>tc_scan_resume = True, tc_match_expr = None, tc_exclude_expr = None, tc_depth = 0, tc_enable_integrity_check = False,
       tc_enable_acl = False, tc_qos = None, tc_peak_qos_rate = 0x40000000, tc_block_size = None, tc_iops = None,
       tc_concurrency = None, tc_reset_scan_on_start = False\<rparr>,
     mt_status = TaskRunning, mt_created_at = 1, mt_started_at = Some 2, mt_finished_at = None, mt_error = None, mt_storage_error = None\<rparr>"

definition toy_web :: "(unit, unit) web_db" where
  "toy_web = \<lparr>wd_tasks = [toy_task], wd_executions = [], wd_progress = [], wd_cursor = [], wd_batches = [], wd_events = [], wd_omitted = []\<rparr>"

definition toy_submission :: "unit submission" where
  "toy_submission = \<lparr>sb_task = [116], sb_report = [49], sb_final = False,
     sb_identity = Some \<lparr>ci_round = [114], ci_attempt = [97], ci_round_started = 5, ci_attempt_started = 5, ci_sequence = 1\<rparr>,
     sb_diagnostics = Some \<lparr>db_id = [98], db_events = [\<lparr>de_id = [100], de_round = [114], de_attempt = [97],
       de_origin = [], de_code = [], de_message = [], de_path = None\<rparr>], db_omitted = 2\<rparr>,
     sb_execution = None, sb_stats = None\<rparr>"

lemma callback_is_idempotent_witness:
  "\<exists>db r. receive toy_submission toy_web = Inr (db, r) \<and> pr_accepted r \<and> length (wd_events db) = 1 \<and>
     receive toy_submission db = Inr (db, r\<lparr>pr_accepted := False\<rparr>)"
proof -
  have "case receive toy_submission toy_web of Inr (db, r) \<Rightarrow> pr_accepted r \<and> length (wd_events db) = 1 | Inl _ \<Rightarrow> False"
    by code_simp
  then obtain db r where r: "receive toy_submission toy_web = Inr (db, r)" and ok: "pr_accepted r" "length (wd_events db) = 1"
    by (auto split: sum.splits)
  have "sb_identity toy_submission \<noteq> None" by (simp add: toy_submission_def)
  then show ?thesis using callback_is_idempotent [OF r] r ok by blast
qed

subsection \<open>Reports never go back\<close>

definition earlier_callback :: "callback_identity \<Rightarrow> callback_identity \<Rightarrow> bool" where
  "earlier_callback a b \<longleftrightarrow> ci_round_started a < ci_round_started b \<or>
     ci_round_started a = ci_round_started b \<and>
       (ci_attempt_started a < ci_attempt_started b \<or> ci_attempt_started a = ci_attempt_started b \<and> ci_sequence a < ci_sequence b)"

lemma follows_earlier: "follows_callback i c f \<Longrightarrow> earlier_callback c i"
  by (auto simp: follows_callback_def earlier_callback_def split: if_splits)

lemma earlier_trans: "earlier_callback a b \<Longrightarrow> earlier_callback b c \<Longrightarrow> earlier_callback a c"
  by (auto simp: earlier_callback_def)

text \<open>The callbacks of a task whose reports are stored, in their order.\<close>

fun accepted_callbacks :: "utext \<Rightarrow> 's submission list \<Rightarrow> ('s, 'x) web_db \<Rightarrow> 's submission list" where
  "accepted_callbacks t [] db = []"
| "accepted_callbacks t (sb # sbs) db =
     (case receive sb db of
        Inl _ \<Rightarrow> accepted_callbacks t sbs db
      | Inr (db', r) \<Rightarrow> (if pr_accepted r \<and> sb_task sb = t then [sb] else []) @ accepted_callbacks t sbs db')"

definition later_than :: "(callback_identity \<times> bool) option \<Rightarrow> 's submission list \<Rightarrow> bool" where
  "later_than current sbs \<longleftrightarrow>
     (\<forall>c f. current = Some (c, f) \<longrightarrow> (\<forall>sb \<in> set sbs. \<exists>i. sb_identity sb = Some i \<and> earlier_callback c i)) \<and>
     sorted_wrt (\<lambda>a b. \<forall>i. sb_identity a = Some i \<longrightarrow> (\<exists>j. sb_identity b = Some j \<and> earlier_callback i j)) sbs"

lemma receive_cursor:
  assumes "receive sb db = Inr (db', r)"
  shows "map_of (wd_cursor db') t = (if pr_accepted r \<and> sb_task sb = t
      then (case sb_identity sb of Some i \<Rightarrow> Some (i, sb_final sb) | None \<Rightarrow> map_of (wd_cursor db) t) else map_of (wd_cursor db) t)"
    "map_of (wd_progress db') t = (if pr_accepted r \<and> sb_task sb = t then Some (sb_report sb, sb_final sb) else map_of (wd_progress db) t)"
    "pr_accepted r \<Longrightarrow> map_of (wd_cursor db) (sb_task sb) = Some (c, f) \<Longrightarrow> \<exists>i. sb_identity sb = Some i \<and> earlier_callback c i"
proof -
  obtain task running db1 where "task_row (sb_task sb) db = Some task" "validate_submission sb = Inr ()"
      "execution_check sb db = Inr running" and
    batch: "case sb_diagnostics sb of None \<Rightarrow> db1 = db | Some b \<Rightarrow> store_batch (sb_task sb) b db = Inr db1" and
    r: "r = \<lparr>pr_accepted = acceptable sb task running (map_of (wd_cursor db1) (sb_task sb)), pr_ack = map_option db_id (sb_diagnostics sb)\<rparr>" and
    db': "db' = (if pr_accepted r then store_progress sb db1 else db1)"
    using assms unfolding receive_Inr by blast
  have rows: "wd_cursor db1 = wd_cursor db \<and> wd_progress db1 = wd_progress db"
    using batch store_batch_rows by (auto split: option.splits)
  show "map_of (wd_cursor db') t = (if pr_accepted r \<and> sb_task sb = t
      then (case sb_identity sb of Some i \<Rightarrow> Some (i, sb_final sb) | None \<Rightarrow> map_of (wd_cursor db) t) else map_of (wd_cursor db) t)"
    "map_of (wd_progress db') t = (if pr_accepted r \<and> sb_task sb = t then Some (sb_report sb, sb_final sb) else map_of (wd_progress db) t)"
    using db' rows by (auto simp: store_progress_cursor split: option.split)
  show "\<exists>i. sb_identity sb = Some i \<and> earlier_callback c i" if "pr_accepted r" "map_of (wd_cursor db) (sb_task sb) = Some (c, f)"
    using that r rows follows_earlier by (auto simp: acceptable_def split: option.splits)
qed

lemma later_Cons:
  assumes "later_than (Some (i, f)) sbs" "sb_identity sb = Some i"
    "\<And>c f. current = Some (c, f) \<Longrightarrow> earlier_callback c i"
  shows "later_than current (sb # sbs)"
  using assms earlier_trans by (fastforce simp: later_than_def)

text \<open>
  C21. Whatever callbacks arrive, in whatever order and however often, the identities of those whose
  reports are stored for a task ascend strictly by round, attempt and sequence, and what is
  stored in the end is the report of the last of them: no late or repeated callback brings an
  old report back.
\<close>

theorem reports_never_go_back:
  "later_than (map_of (wd_cursor db) t) (accepted_callbacks t sbs db) \<and>
   map_of (wd_progress (receive_all sbs db)) t =
     (case accepted_callbacks t sbs db of
        [] \<Rightarrow> map_of (wd_progress db) t
      | a # as \<Rightarrow> Some (sb_report (last (a # as)), sb_final (last (a # as))))"
proof (induction sbs arbitrary: db)
  case Nil
  then show ?case by (simp add: later_than_def)
next
  case (Cons sb sbs)
  show ?case
  proof (cases "receive sb db")
    case (Inl e)
    then show ?thesis using Cons [of db] by simp
  next
    case (Inr x)
    obtain db' r where x: "x = (db', r)" by fastforce
    note received = receive_cursor [OF Inr [unfolded x]]
    note IH = Cons [of db']
    show ?thesis
    proof (cases "pr_accepted r \<and> sb_task sb = t")
      case False
      then show ?thesis
        using IH received(1,2) [of t] by (cases "accepted_callbacks t sbs db'") (auto simp: Inr x)
    next
      case True
      have stored: "map_of (wd_progress db') t = Some (sb_report sb, sb_final sb)"
        using True received(2) [of t] by simp
      have "later_than (map_of (wd_cursor db) t) (sb # accepted_callbacks t sbs db')"
      proof (cases "sb_identity sb")
        case None
        then have "map_of (wd_cursor db) t = None" "map_of (wd_cursor db') t = None"
          using True received(1) [of t] received(3) by (cases "map_of (wd_cursor db) t"; fastforce)+
        then show ?thesis using IH None by (simp add: later_than_def)
      next
        case (Some i)
        show ?thesis
          by (rule later_Cons [OF _ Some])
            (use IH received(1) [of t] received(3) True Some in \<open>fastforce+\<close>)
      qed
      then show ?thesis using IH stored True by (auto simp: Inr x split: list.splits)
    qed
  qed
qed

end
