(* ===== verification/OutboxProofs.thy ===== *)
theory OutboxProofs
  imports Outbox
begin

section \<open>What the outbox of diagnostics guarantees\<close>

text \<open>
  The redacted texts are bounded and free of URLs and of names of secrets; the identifiers of
  events and batches differ whenever round, attempt, kind or number do; and every queue that
  the operations reach is one a restart accepts.
\<close>

subsection \<open>Lengths and prefixes\<close>

lemma utf8_len_simps [simp]:
  "utf8_len [] = 0" "utf8_len (c # cs) = char_len c + utf8_len cs" "utf8_len (xs @ ys) = utf8_len xs + utf8_len ys"
  by (simp_all add: utf8_len_def)

lemma char_len_pos: "0 < char_len c"
  by (simp add: char_len_def)

lemma text_prefix_le: "utf8_len (text_prefix t n) \<le> n"
  by (induction t n rule: text_prefix.induct) auto

lemma text_prefix_prefix: "prefix (text_prefix t n) t"
  by (induction t n rule: text_prefix.induct) auto

lemma utf8_prefix: "prefix s t \<Longrightarrow> utf8_len s \<le> utf8_len t"
  by (auto simp: prefix_def)

subsection \<open>Redaction\<close>

definition clean :: "utext \<Rightarrow> bool" where
  "clean t \<longleftrightarrow> \<not> holds_url t \<and> \<not> names_secret t"

lemma clean_prefix: "clean t \<Longrightarrow> prefix s t \<Longrightarrow> clean s"
  unfolding clean_def holds_url_def names_secret_def list_ex_iff
  by (meson map_mono_prefix prefix_imp_sublist sublist_order.order.trans)

lemma sublist_spaced:
  assumes "sublist k (xs @ [x] @ ys)" "x \<notin> set k"
  shows "sublist k xs \<or> sublist k ys"
proof -
  from assms(1) obtain p s where "xs @ [x] @ ys = p @ k @ s" by (auto simp: sublist_def)
  then consider us where "xs = p @ us" "us @ [x] @ ys = k @ s" | us where "xs @ us = p" "[x] @ ys = us @ k @ s"
    by (auto simp: append_eq_append_conv2)
  then show ?thesis
  proof cases
    case 1
    from 1(2) consider vs where "us = k @ vs" | vs where "k = us @ vs" "[x] @ ys = vs @ s"
      by (auto simp: append_eq_append_conv2)
    then show ?thesis
    proof cases
      case (2 vs)
      with assms(2) have "vs = []" by (cases vs) auto
      then show ?thesis using 1(1) 2(1) by auto
    qed (use 1(1) in auto)
  next
    case 2
    show ?thesis
    proof (cases us)
      case Nil
      with 2(2) assms(2) show ?thesis by (cases k) auto
    qed (use 2(2) in \<open>auto simp: sublist_def\<close>)
  qed
qed

lemma patterns_plain:
  "0x20 \<notin> set (lit ''://'')" "0xFFFD \<notin> set (lit ''://'')" "key \<in> set secret_keys \<Longrightarrow> 0x20 \<notin> set key \<and> 0xFFFD \<notin> set key"
  "lit ''://'' \<noteq> []" "key \<in> set secret_keys \<Longrightarrow> key \<noteq> []"
  by (auto simp: lit_def secret_keys_def)

lemma clean_spaced: "clean xs \<Longrightarrow> clean ys \<Longrightarrow> clean (xs @ [0x20] @ ys)"
  using sublist_spaced [where x = "0x20" and k = "lit ''://''" and xs = xs and ys = ys] patterns_plain(1,3)
  by (auto simp: clean_def holds_url_def names_secret_def list_ex_iff ascii_lower_def
      dest!: sublist_spaced [where x = "0x20" and xs = "map ascii_lower xs" and ys = "map ascii_lower ys", simplified])

lemma sublist_map_same:
  assumes "sublist k (map f t)" "\<And>c. c \<in> set t \<Longrightarrow> f c \<in> set k \<Longrightarrow> f c = g c"
  shows "sublist k (map g t)"
proof -
  from assms(1) obtain p s where "map f t = p @ k @ s" unfolding sublist_def by blast
  from iffD1 [OF map_eq_append_conv this] obtain p' r where t: "t = p' @ r" and "map f r = k @ s" by metis
  from iffD1 [OF map_eq_append_conv this(2)] obtain q s' where r: "r = q @ s'" and k: "map f q = k" by metis
  have "f c = g c" if "c \<in> set q" for c
    by (rule assms(2)) (use that in \<open>auto simp: t r k [symmetric]\<close>)
  then have same: "map f q = map g q" by simp
  show ?thesis unfolding t r k [symmetric] same by simp
qed

lemma clean_replaced: "clean t \<Longrightarrow> clean (map (\<lambda>c. if is_control c then 0xFFFD else c) t)"
proof -
  let ?f = "\<lambda>c. if is_control c then 0xFFFD else c"
  assume t: "clean t"
  have "sublist (lit ''://'') t" if "sublist (lit ''://'') (map ?f t)"
    using sublist_map_same [of _ ?f t id] that patterns_plain(2) by (force split: if_splits)
  moreover have "sublist key (map ascii_lower t)" if "sublist key (map ascii_lower (map ?f t))" "key \<in> set secret_keys" for key
  proof (rule sublist_map_same [of key "ascii_lower \<circ> ?f" t ascii_lower])
    show "sublist key (map (ascii_lower \<circ> ?f) t)" using that(1) by simp
    show "(ascii_lower \<circ> ?f) c = ascii_lower c" if "(ascii_lower \<circ> ?f) c \<in> set key" for c
      using that patterns_plain(3) [OF \<open>key \<in> set secret_keys\<close>] by (auto simp: ascii_lower_def split: if_splits)
  qed
  ultimately show ?thesis
    using t by (auto simp: clean_def holds_url_def names_secret_def list_ex_iff)
qed

lemma clean_Nil: "clean []"
  using patterns_plain(4,5) by (auto simp: clean_def holds_url_def names_secret_def list_ex_iff)

lemma clean_mark: "clean (lit ''[redacted]'')"
  by code_simp

lemma clean_redact: "clean result \<Longrightarrow> clean (redact_tokens result ts)"
proof (induction result ts rule: redact_tokens.induct)
  case (2 result t ts)
  define r where "r = (if result \<noteq> [] then result @ [0x20] else result) @ (if holds_url t \<or> names_secret t then lit ''[redacted]''
      else map (\<lambda>c. if is_control c then 0xFFFD else c) t)"
  have "clean (if holds_url t \<or> names_secret t then lit ''[redacted]'' else map (\<lambda>c. if is_control c then 0xFFFD else c) t)"
    using clean_mark clean_replaced [of t] by (auto simp: clean_def [of t])
  then have "clean r"
    using clean_spaced [OF 2(2)] by (cases "result = []") (simp_all add: r_def)
  moreover have "redact_tokens result (t # ts) =
      (if names_secret t then r else if utf8_len r > max_diagnostic_text_bytes then r else redact_tokens r ts)"
    by (simp add: r_def Let_def)
  moreover have "\<not> names_secret t \<Longrightarrow> \<not> utf8_len r > max_diagnostic_text_bytes \<Longrightarrow> clean r \<Longrightarrow> clean (redact_tokens r ts)"
    unfolding r_def by (rule 2(1) [OF refl refl])
  ultimately show ?case by (auto simp del: redact_tokens.simps)
qed simp

text \<open>
  C23. Whatever text is reported, the diagnostic text made of it holds at most 2048 bytes and neither a
  URL nor, in any case, the name of a secret; its labels hold at most 128 bytes. Redaction
  replaces the token it finds and drops what follows a secret, and no cut and no joined pieces
  bring either back.
\<close>

theorem diagnostic_text_is_safe:
  "utf8_len (safe_diagnostic_text t) \<le> max_diagnostic_text_bytes \<and> \<not> sublist (lit ''://'') (safe_diagnostic_text t) \<and>
   list_all (\<lambda>key. \<not> sublist key (map ascii_lower (safe_diagnostic_text t))) secret_keys \<and>
   utf8_len (safe_diagnostic_label t) \<le> max_diagnostic_label_bytes \<and> prefix (safe_diagnostic_label t) (safe_diagnostic_text t)"
proof -
  have "clean (safe_diagnostic_text t)"
    unfolding safe_diagnostic_text_def by (rule clean_prefix [OF clean_redact [OF clean_Nil] text_prefix_prefix])
  then show ?thesis
    by (auto simp: clean_def holds_url_def names_secret_def list_ex_iff list_all_iff safe_diagnostic_text_def
        safe_diagnostic_label_def text_prefix_le text_prefix_prefix)
qed

subsection \<open>Identifiers\<close>

lemma lit_append [simp]: "lit (xs @ ys) = lit xs @ lit ys"
  by (simp add: lit_def)

lemma digit_of_char: "d < 10 \<Longrightarrow> of_char (''0123456789'' ! d) = 0x30 + d"
  by (auto simp: less_Suc_eq numeral_eq_Suc)

declare show_nat.simps [simp del]

lemma show_nat_value: "foldl (\<lambda>v c. 10 * v + (c - 0x30)) 0 (lit (show_nat n)) = n"
proof (induction n rule: show_nat.induct)
  case (1 n)
  show ?case
  proof (cases "n < 10")
    case True
    then show ?thesis by (simp add: show_nat.simps [of n] lit_def digit_of_char)
  next
    case False
    with 1 show ?thesis
      using digit_of_char [of "n mod 10"] by (subst show_nat.simps) (simp add: lit_def)
  qed
qed

lemma show_nat_inj: "lit (show_nat m) = lit (show_nat n) \<longleftrightarrow> m = n"
  by (metis show_nat_value)

lemma show_nat_digits: "c \<in> set (lit (show_nat n)) \<Longrightarrow> 0x30 \<le> c \<and> c \<le> 0x39"
proof (induction n rule: show_nat.induct)
  case (1 n)
  show ?case
  proof (cases "n < 10")
    case True
    with 1(2) show ?thesis by (auto simp: show_nat.simps [of n] lit_def digit_of_char)
  next
    case False
    have "lit (show_nat n) = lit (show_nat (n div 10)) @ [0x30 + n mod 10]"
      using False digit_of_char [of "n mod 10"] by (subst show_nat.simps) (simp add: lit_def)
    with 1 False show ?thesis by auto
  qed
qed

lemma colon_splits:
  assumes "xs @ c # ys = xs' @ c # ys'" "c \<notin> set xs" "c \<notin> set xs'"
  shows "xs = xs' \<and> ys = ys'"
proof -
  from assms(1) consider us where "xs = xs' @ us" "us @ c # ys = c # ys'" | us where "xs @ us = xs'" "c # ys = us @ c # ys'"
    by (auto simp: append_eq_append_conv2)
  then show ?thesis using assms(2,3) by cases (auto simp: append_eq_Cons_conv Cons_eq_append_conv)
qed

lemma same_length_prefix:
  assumes "xs @ ys = xs' @ ys'" "utf8_len xs = utf8_len xs'"
  shows "xs = xs' \<and> ys = ys'"
proof -
  have none: "us = []" if "utf8_len us = 0" for us
    using that char_len_pos [of "hd us"] by (cases us) auto
  from assms(1) consider us where "xs = xs' @ us" "us @ ys = ys'" | us where "xs @ us = xs'" "ys = us @ ys'"
    by (auto simp: append_eq_append_conv2)
  then show ?thesis using assms(2) none by cases auto
qed

definition kinds :: "string set" where
  "kinds = {''event'', ''batch''}"

lemma identity_text_inj:
  assumes "identity_text ob kind n = identity_text ob' kind' n'" "kind \<in> kinds" "kind' \<in> kinds"
  shows "ob_round ob = ob_round ob' \<and> ob_attempt ob = ob_attempt ob' \<and> kind = kind' \<and> n = n'"
proof -
  have colon: "lit '':'' = [0x3A]" by (simp add: lit_def)
  have digits: "0x3A \<notin> set (lit (show_nat m))" for m using show_nat_digits [of "0x3A" m] by auto
  note parts = assms(1) [unfolded identity_text_def colon append_Cons append_Nil]
  from colon_splits [OF parts digits digits] have
    len: "utf8_len (ob_round ob) = utf8_len (ob_round ob')" and
    rest: "ob_round ob @ 0x3A # ob_attempt ob @ 0x3A # lit kind @ 0x3A # lit (show_nat (unat n)) =
      ob_round ob' @ 0x3A # ob_attempt ob' @ 0x3A # lit kind' @ 0x3A # lit (show_nat (unat n'))"
    by (auto simp: show_nat_inj)
  from same_length_prefix [OF rest len] have round: "ob_round ob = ob_round ob'" and
    tail: "ob_attempt ob @ 0x3A # lit kind @ 0x3A # lit (show_nat (unat n)) = ob_attempt ob' @ 0x3A # lit kind' @ 0x3A # lit (show_nat (unat n'))"
    by auto
  have k: "0x3A \<notin> set (lit kind)" "0x3A \<notin> set (lit kind')" using assms(2,3) by (auto simp: kinds_def lit_def)
  from tail have "rev (lit (show_nat (unat n))) @ 0x3A # (rev (lit kind) @ 0x3A # rev (ob_attempt ob)) =
      rev (lit (show_nat (unat n'))) @ 0x3A # (rev (lit kind') @ 0x3A # rev (ob_attempt ob'))"
    by (metis (no_types, lifting) append.assoc append_Cons append_Nil rev.simps(2) rev_append)
  from colon_splits [OF this] digits have n: "lit (show_nat (unat n)) = lit (show_nat (unat n'))" and
    "rev (lit kind) @ 0x3A # rev (ob_attempt ob) = rev (lit kind') @ 0x3A # rev (ob_attempt ob')" by auto
  from colon_splits [OF this(2)] k have "lit kind = lit kind'" "ob_attempt ob = ob_attempt ob'" by auto
  then have "kind = kind'" using assms(2,3) by (auto simp: kinds_def lit_def)
  moreover have "n = n'" using n by (simp add: show_nat_inj word_unat_eq_iff)
  ultimately show ?thesis using round \<open>ob_attempt ob = ob_attempt ob'\<close> by simp
qed

subsection \<open>Queues a restart accepts\<close>

inductive outbox_reached :: "(utext \<Rightarrow> utext) \<Rightarrow> outbox \<Rightarrow> bool" for hash where
  outbox_start: "attempt \<noteq> [] \<Longrightarrow> outbox_reached hash (outbox_new round attempt capacity batch_size)"
| outbox_enqueue: "outbox_reached hash ob \<Longrightarrow> outbox_reached hash (fst (enqueue hash origin code message path ob))"
| outbox_prepare: "outbox_reached hash ob \<Longrightarrow> outbox_reached hash (fst (prepare_batch hash ob))"
| outbox_ack: "outbox_reached hash ob \<Longrightarrow> outbox_reached hash (fst (ack batch_id ob))"
| outbox_attempt: "outbox_reached hash ob \<Longrightarrow> attempt \<noteq> [] \<Longrightarrow> outbox_reached hash (set_attempt attempt ob)"

lemma new_event_bounded:
  "is_digest i \<Longrightarrow> is_bounded \<lparr>de_id = i, de_round = r, de_attempt = a, de_origin = safe_diagnostic_label origin,
     de_code = safe_diagnostic_label code, de_message = safe_diagnostic_text message, de_path = map_option safe_diagnostic_text path\<rparr>"
  by (simp add: is_bounded_def safe_diagnostic_label_def safe_diagnostic_text_def text_prefix_le split: option.split)

lemma counted_more: "x \<le> y \<Longrightarrow> x \<le> saturating_add y 1" for x y :: u64
proof -
  have "unat x < 2 ^ 64" by (rule order.strict_trans2 [OF unsigned_less]) simp
  then show "x \<le> y \<Longrightarrow> x \<le> saturating_add y 1"
    by (simp add: word_le_nat_alt unat_saturating_add min_def)
qed

lemma validate_enqueue:
  assumes "\<forall>t. is_digest (hash t)" "validate_identity ob (ob_round ob) (ob_attempt ob)" "ob_attempt ob \<noteq> []"
  shows "validate_identity (fst (enqueue hash origin code message path ob)) (ob_round ob) (ob_attempt ob)"
proof -
  have in_flight: "take (length (db_events b)) (ob_pending ob @ [e]) = db_events b" if "ob_in_flight ob = Some b" for b e
  proof -
    have "take (length (db_events b)) (ob_pending ob) = db_events b" using assms(2) that by (simp add: validate_identity_def)
    then have "length (db_events b) \<le> length (ob_pending ob)" by (metis length_take min.cobounded1)
    then show ?thesis using \<open>take _ _ = _\<close> by simp
  qed
  show ?thesis
    using assms in_flight
    by (auto simp: enqueue_def Let_def validate_identity_def new_event_bounded outbox_identifier_def counted_more split: option.splits)
qed

lemma validate_prepare:
  assumes "\<forall>t. is_digest (hash t)" "validate_identity ob (ob_round ob) (ob_attempt ob)"
  shows "validate_identity (fst (prepare_batch hash ob)) (ob_round ob) (ob_attempt ob)"
  using assms by (auto simp: prepare_batch_def Let_def validate_identity_def outbox_identifier_def min_def split: option.splits)

lemma validate_ack:
  assumes "validate_identity ob (ob_round ob) (ob_attempt ob)"
  shows "validate_identity (fst (ack i ob)) (ob_round ob) (ob_attempt ob)"
  using assms by (auto simp: ack_def validate_identity_def list_all_iff dest: in_set_dropD split: option.splits)

lemma attempt_kept:
  "ob_attempt (fst (enqueue hash origin code message path ob)) = ob_attempt ob"
  "ob_attempt (fst (prepare_batch hash ob)) = ob_attempt ob" "ob_attempt (fst (ack i ob)) = ob_attempt ob"
  "ob_round (fst (enqueue hash origin code message path ob)) = ob_round ob"
  "ob_round (fst (prepare_batch hash ob)) = ob_round ob" "ob_round (fst (ack i ob)) = ob_round ob"
  by (auto simp: enqueue_def prepare_batch_def ack_def Let_def split: option.splits)

text \<open>
  C20. Every queue that enqueuing, preparing, acknowledging and changing the attempt can reach from a
  new one passes the check a restart makes of it: it stays within its capacity, its events
  belong to its round and are bounded, and the batch in flight is a prefix of what is pending
  and claims no more omissions than were counted.
\<close>

theorem outbox_always_valid:
  assumes "outbox_reached hash ob" "\<forall>t. is_digest (hash t)"
  shows "validate_identity ob (ob_round ob) (ob_attempt ob) \<and> ob_attempt ob \<noteq> []"
  using assms(1)
proof induction
  case (outbox_start attempt round capacity batch_size)
  then show ?case by (auto simp: outbox_new_def validate_identity_def max_diagnostic_batch_events_def)
next
  case (outbox_enqueue ob origin code message path)
  then show ?case using validate_enqueue [OF assms(2)] by (simp add: attempt_kept)
next
  case (outbox_prepare ob)
  then show ?case using validate_prepare [OF assms(2)] by (simp add: attempt_kept)
next
  case (outbox_ack ob batch_id)
  then show ?case using validate_ack by (simp add: attempt_kept)
next
  case (outbox_attempt ob attempt)
  then show ?case by (auto simp: set_attempt_def validate_identity_def split: option.splits)
qed

definition toy_hash :: "utext \<Rightarrow> utext" where
  "toy_hash t = replicate 64 0x61"

lemma outbox_always_valid_witness:
  "let ob = fst (prepare_batch toy_hash (fst (enqueue toy_hash (lit ''scan'') (lit ''fault'') (lit ''no answer'') None
     (outbox_new (lit ''r'') (lit ''a'') 4 2)))) in validate_identity ob (lit ''r'') (lit ''a'')"
proof -
  let ?new = "outbox_new (lit ''r'') (lit ''a'') 4 2"
  let ?ob = "fst (prepare_batch toy_hash (fst (enqueue toy_hash (lit ''scan'') (lit ''fault'') (lit ''no answer'') None ?new)))"
  have "outbox_reached toy_hash ?ob" by (intro outbox_prepare outbox_enqueue outbox_start) (simp add: lit_def)
  moreover have "\<forall>t. is_digest (toy_hash t)"
    by (simp add: toy_hash_def is_digest_def utf8_len_def sum_list_replicate char_len_def list_all_iff)
  ultimately have "validate_identity ?ob (ob_round ?ob) (ob_attempt ?ob) \<and> ob_attempt ?ob \<noteq> []"
    by (rule outbox_always_valid)
  then show ?thesis by (simp add: Let_def attempt_kept) (simp add: outbox_new_def)
qed

end
