(* ===== verification/CallbackLink.thy ===== *)
theory CallbackLink
  imports CallbackReceipt OutboxProofs "HOL-Library.Multiset"
begin

section \<open>Diagnostics from the outbox to the tables\<close>

text \<open>
  The outbox of a task and the receiver of its callbacks, joined by requests and answers that
  may be lost, late or repeated (\<open>post_callback\<close> in \<open>consumer/stats/consumer.rs\<close>,
  \<open>initialize_scan\<close> and \<open>restore_checkpoint\<close> in \<open>consumer/stats/callback_state.rs\<close>). The process
  of the scan may end at any point and go on from the last checkpoint, under a new attempt.
\<close>

subsection \<open>The callback state of a scan\<close>







subsection \<open>The link\<close>







subsection \<open>Storing a batch\<close>





lemma sanitize_id [simp]: "de_id (sanitize e) = de_id e"
  by (simp add: sanitize_def)







subsection \<open>The invariant of the link\<close>








































end
