(* ===== verification/WebTasks.thy ===== *)
theory WebTasks
  imports CallbackReceipt
begin

section \<open>Tasks of the web application\<close>

text \<open>
  \<open>application/task_service.rs\<close>, \<open>application/endpoint_service.rs\<close> (deletion) and
  \<open>infrastructure/task_runner.rs\<close> over the tables of \<open>infrastructure/task_repo.rs\<close> and
  \<open>infrastructure/execution_repo.rs\<close>. Every request and every worker thread is a process that
  goes from one await point, or one operation on shared data, to the next; between two of them
  the others may do any number of steps. A request whose client hangs up is dropped where it
  waits.

  What is not under the control of the service is the choice of a step: whether a statement
  succeeds, the clock, new identifiers and the result of a run. A message that the code has in
  Chinese is given in English.
\<close>

subsection \<open>Rows\<close>

definition save_task :: "'x web_task \<Rightarrow> ('s, 'x) web_db \<Rightarrow> ('s, 'x) web_db option" where
  "save_task t db = (if task_row (mt_id t) db \<noteq> None then None else Some (db\<lparr>wd_tasks := wd_tasks db @ [t]\<rparr>))"

definition with_settings :: "'x web_task \<Rightarrow> 'x web_task \<Rightarrow> 'x web_task" where
  "with_settings t r = r\<lparr>mt_name := mt_name t, mt_source_endpoint := mt_source_endpoint t, mt_source_path := mt_source_path t,
     mt_config := mt_config t\<rparr>"

definition update_task_row :: "'x web_task \<Rightarrow> ('s, 'x) web_db \<Rightarrow> web_error + ('s, 'x) web_db" where
  "update_task_row t db =
     (if task_row (mt_id t) db = None then Inl (TaskNotFound (mt_id t))
      else Inr (db\<lparr>wd_tasks := map (\<lambda>r. if mt_id r = mt_id t then with_settings t r else r) (wd_tasks db)\<rparr>))"

definition with_status :: "nat \<Rightarrow> task_status \<Rightarrow> utext option \<Rightarrow> 'x option \<Rightarrow> 'x web_task \<Rightarrow> 'x web_task" where
  "with_status now status msg failure t =
     (let t = t\<lparr>mt_status := status, mt_error := msg, mt_storage_error := failure\<rparr> in
      case status of
        TaskRunning \<Rightarrow> t\<lparr>mt_started_at := Some now, mt_finished_at := None\<rparr>
      | TaskPending \<Rightarrow> t
      | _ \<Rightarrow> t\<lparr>mt_finished_at := Some now\<rparr>)"

definition update_task_status ::
  "nat \<Rightarrow> utext \<Rightarrow> task_status \<Rightarrow> utext option \<Rightarrow> 'x option \<Rightarrow> ('s, 'x) web_db \<Rightarrow> web_error + ('s, 'x) web_db" where
  "update_task_status now i status msg failure db =
     (if task_row i db = None then Inl (TaskNotFound i)
      else Inr (db\<lparr>wd_tasks := map (\<lambda>r. if mt_id r = i then with_status now status msg failure r else r) (wd_tasks db)\<rparr>))"

text \<open>The rows that refer to a task go with it (\<open>ON DELETE CASCADE\<close>).\<close>

definition delete_task_row :: "utext \<Rightarrow> ('s, 'x) web_db \<Rightarrow> web_error + ('s, 'x) web_db" where
  "delete_task_row i db =
     (if task_row i db = None then Inl (TaskNotFound i)
      else Inr \<lparr>wd_tasks = filter (\<lambda>r. mt_id r \<noteq> i) (wd_tasks db),
        wd_executions = filter (\<lambda>e. te_task e \<noteq> i) (wd_executions db),
        wd_progress = filter (\<lambda>(k, _). k \<noteq> i) (wd_progress db),
        wd_cursor = filter (\<lambda>(k, _). k \<noteq> i) (wd_cursor db),
        wd_batches = filter (\<lambda>((k, _), _). k \<noteq> i) (wd_batches db),
        wd_events = filter (\<lambda>((k, _), _). k \<noteq> i) (wd_events db),
        wd_omitted = filter (\<lambda>(k, _). k \<noteq> i) (wd_omitted db)\<rparr>)"

definition save_execution :: "('s, 'x) task_execution \<Rightarrow> ('s, 'x) web_db \<Rightarrow> ('s, 'x) web_db option" where
  "save_execution e db =
     (if task_row (te_task e) db = None \<or> execution_row (te_id e) db \<noteq> None then None
      else Some (db\<lparr>wd_executions := wd_executions db @ [e]\<rparr>))"

definition update_execution_status ::
  "nat \<Rightarrow> utext \<Rightarrow> task_status \<Rightarrow> 's option \<Rightarrow> utext option \<Rightarrow> 'x option \<Rightarrow> ('s, 'x) web_db \<Rightarrow> web_error + ('s, 'x) web_db" where
  "update_execution_status now i status stats msg failure db =
     (if execution_row i db = None then Inl (ExecutionNotFound i)
      else Inr (db\<lparr>wd_executions := map (\<lambda>e. if te_id e \<noteq> i then e
        else e\<lparr>te_status := status,
          te_finished_at := (if status \<in> {TaskCompleted, TaskFailed, TaskCancelled} then Some now else te_finished_at e),
          te_stats := (case stats of None \<Rightarrow> te_stats e | Some s \<Rightarrow> Some s),
          te_error := (case msg of None \<Rightarrow> te_error e | Some m \<Rightarrow> Some m),
          te_storage_error := (case failure of None \<Rightarrow> te_storage_error e | Some f \<Rightarrow> Some f)\<rparr>) (wd_executions db)\<rparr>))"

definition delete_executions :: "utext \<Rightarrow> ('s, 'x) web_db \<Rightarrow> ('s, 'x) web_db" where
  "delete_executions i db = db\<lparr>wd_executions := filter (\<lambda>e. te_task e \<noteq> i) (wd_executions db)\<rparr>"

definition delete_execution :: "utext \<Rightarrow> ('s, 'x) web_db \<Rightarrow> web_error + ('s, 'x) web_db" where
  "delete_execution i db =
     (if execution_row i db = None then Inl (ExecutionNotFound i)
      else Inr (db\<lparr>wd_executions := filter (\<lambda>e. te_id e \<noteq> i) (wd_executions db)\<rparr>))"

definition restart_message :: utext where
  "restart_message = [0x670D, 0x52A1, 0x91CD, 0x542F, 0xFF0C, 0x6267, 0x884C, 0x5DF2, 0x4E2D, 0x65AD, 0xFF1B,
     0x626B, 0x63CF, 0x53EF, 0x7EE7, 0x7EED]"

text \<open>At the start of the server what was running is cancelled if it was a scan and failed otherwise.\<close>

definition recover_interrupted :: "nat \<Rightarrow> ('s, 'x) web_db \<Rightarrow> ('s, 'x) web_db" where
  "recover_interrupted now db =
     (let scans = map mt_id (filter (\<lambda>t. mt_type t = ScanTask) (wd_tasks db));
          db = db\<lparr>wd_executions := map (\<lambda>e. if te_status e = TaskRunning
            then e\<lparr>te_status := (if te_task e \<in> set scans then TaskCancelled else TaskFailed), te_finished_at := Some now,
              te_error := Some restart_message\<rparr> else e) (wd_executions db)\<rparr>
      in db\<lparr>wd_tasks := map (\<lambda>t. if mt_status t = TaskRunning
            then t\<lparr>mt_status := (if mt_type t = ScanTask then TaskCancelled else TaskFailed), mt_finished_at := Some now,
              mt_error := Some restart_message\<rparr> else t) (wd_tasks db)\<rparr>)"

subsection \<open>The service\<close>

text \<open>What a scan covers; a change of it restarts the scan of a task.\<close>

type_synonym scan_scope = "utext \<times> utext option \<times> bool \<times> u32 \<times> utext option \<times> utext option"

definition scope_of :: "'x web_task \<Rightarrow> scan_scope" where
  "scope_of t = (mt_source_endpoint t, mt_source_path t, tc_scan_resume (mt_config t), tc_depth (mt_config t),
     tc_match_expr (mt_config t), tc_exclude_expr (mt_config t))"

text \<open>
  Beside the tables, the running tasks with their cancellation tokens and the permits, the state
  has the identifiers of endpoints, those of paths with their endpoints, and, for the tables a scan job has in ClickHouse,
  the scopes of the scans that wrote to them since they were dropped. The last two components
  only record what happened: the tasks whose worker was lost and the identifiers given to tasks.
\<close>

record ('s, 'x) service =
  sv_db :: "('s, 'x) web_db"
  sv_running :: "(utext \<times> bool) list"
  sv_permits :: nat
  sv_endpoints :: "utext list"
  sv_paths :: "(utext \<times> utext) list"
  sv_scans :: "utext \<Rightarrow> scan_scope list"
  sv_lost :: "utext list"
  sv_used :: "utext list"

definition max_concurrent_tasks :: nat where "max_concurrent_tasks = 8"

record update_request =
  ur_name :: "utext option"
  ur_source_endpoint :: "utext option"
  ur_source_path :: "utext option"
  ur_config :: "task_config option"

record create_request =
  cr_name :: utext
  cr_type :: task_type
  cr_source_endpoint :: utext
  cr_source_path :: "utext option"
  cr_dest_endpoint :: "utext option"
  cr_dest_path :: "utext option"
  cr_config :: task_config

datatype 'x run_result = RunOk | RunError bool utext "'x option"

record 'x choice =
  ch_ok :: bool
  ch_now :: nat
  ch_id :: utext
  ch_incremental :: "bool option"
  ch_tables :: bool
  ch_run :: "'x run_result"

text \<open>A request, or a worker, between two steps.\<close>

datatype 'x process =
    StartRead utext
  | StartChecked "'x web_task"
  | StartSlot "'x web_task"
  | StartPermit "'x web_task"
  | StartSaved "'x web_task" utext
  | StartMarked "'x web_task" utext
  | StartFailed utext web_error
  | UpdateRead utext update_request
  | UpdateWrite "'x web_task" update_request
  | CreateTask create_request
  | DeleteRead utext
  | DeleteCleanup utext
  | DeleteExecutions utext
  | DeleteRow utext
  | EndpointRead utext
  | EndpointTasks utext "utext list"
  | ExecutionRead utext
  | ExecutionDelete utext
  | WorkerNew "'x web_task" utext
  | WorkerReset "'x web_task" utext
  | WorkerCleared "'x web_task" utext
  | WorkerRun "'x web_task" utext
  | WorkerMark utext utext task_status "utext option" "'x option"
  | WorkerNote utext utext task_status "utext option" "'x option"
  | WorkerDone utext
  | WorkerFree
  | Answered "web_error + utext"

definition forget_running :: "utext \<Rightarrow> ('s, 'x) service \<Rightarrow> ('s, 'x) service" where
  "forget_running i sv = sv\<lparr>sv_running := filter (\<lambda>(k, _). k \<noteq> i) (sv_running sv)\<rparr>"

definition release_permit :: "('s, 'x) service \<Rightarrow> ('s, 'x) service" where
  "release_permit sv = sv\<lparr>sv_permits := sv_permits sv + 1\<rparr>"

subsection \<open>Starting a task\<close>

definition not_startable :: "string \<Rightarrow> web_error" where
  "not_startable status = InvalidTaskState status ''start''"

text \<open>The endpoints and paths that a task names exist.\<close>

definition missing_part :: "'x web_task \<Rightarrow> ('s, 'x) service \<Rightarrow> web_error option" where
  "missing_part t sv =
     (if mt_source_endpoint t \<notin> set (sv_endpoints sv) then Some (EndpointNotFound (mt_source_endpoint t))
      else case mt_source_path t of
          Some p \<Rightarrow> if p \<notin> fst ` set (sv_paths sv) then Some (PathNotFound p) else
            (case (mt_dest_endpoint t, mt_dest_path t) of
               (Some e, Some p) \<Rightarrow> if e \<notin> set (sv_endpoints sv) then Some (EndpointNotFound e)
                 else if p \<notin> fst ` set (sv_paths sv) then Some (PathNotFound p) else None
             | _ \<Rightarrow> None)
        | None \<Rightarrow>
            (case (mt_dest_endpoint t, mt_dest_path t) of
               (Some e, Some p) \<Rightarrow> if e \<notin> set (sv_endpoints sv) then Some (EndpointNotFound e)
                 else if p \<notin> fst ` set (sv_paths sv) then Some (PathNotFound p) else None
             | _ \<Rightarrow> None))"

definition execution_kind :: "'x web_task \<Rightarrow> bool \<Rightarrow> execution_type" where
  "execution_kind t known =
     (if (if mt_type t = ScanTask then \<not> tc_reset_scan_on_start (mt_config t) \<and> known else known)
      then IncrementalExecution else FullExecution)"

definition new_execution :: "utext \<Rightarrow> nat \<Rightarrow> 'x web_task \<Rightarrow> execution_type \<Rightarrow> ('s, 'x) task_execution" where
  "new_execution i now t kind =
     \<lparr>te_id = i, te_task = mt_id t, te_type = kind, te_status = TaskRunning, te_started_at = now, te_finished_at = None,
      te_stats = None, te_error = None, te_storage_error = None\<rparr>"

text \<open>A start that fails gives back its permit first and its place among the running tasks then.\<close>

definition start_step :: "'x choice \<Rightarrow> 'x process \<Rightarrow> ('s, 'x) service \<Rightarrow> ('s, 'x) service \<times> 'x process list" where
  "start_step c p sv =
     (case p of
        StartRead i \<Rightarrow>
          (sv, [if \<not> ch_ok c then Answered (Inl WebDatabaseError)
                else case task_row i (sv_db sv) of
                    None \<Rightarrow> Answered (Inl (TaskNotFound i))
                  | Some t \<Rightarrow> StartChecked t])
      | StartChecked t \<Rightarrow>
          if \<not> can_start (mt_status t) then (sv, [Answered (Inl (not_startable (show_task_status (mt_status t))))])
          else if map_of (sv_running sv) (mt_id t) \<noteq> None
          then (sv, [Answered (Inl (not_startable ''running or saving checkpoint''))])
          else (sv\<lparr>sv_running := sv_running sv @ [(mt_id t, False)]\<rparr>, [StartSlot t])
      | StartSlot t \<Rightarrow>
          if sv_permits sv = 0 then (sv, [StartFailed (mt_id t) (ValidationError ''too many concurrent tasks'')])
          else (sv\<lparr>sv_permits := sv_permits sv - 1\<rparr>, [StartPermit t])
      | StartPermit t \<Rightarrow>
          (case missing_part t sv of
             Some e \<Rightarrow> (release_permit sv, [StartFailed (mt_id t) e])
           | None \<Rightarrow>
               (case (if mt_type t = ScanTask then ch_incremental c else Some (ch_incremental c = Some True)) of
                  None \<Rightarrow> (release_permit sv, [StartFailed (mt_id t) (ExecutionError (lit ''scan database''))])
                | Some known \<Rightarrow>
                    (case (if ch_ok c then save_execution (new_execution (ch_id c) (ch_now c) t (execution_kind t known)) (sv_db sv) else None) of
                       None \<Rightarrow> (release_permit sv, [StartFailed (mt_id t) WebDatabaseError])
                     | Some db \<Rightarrow> (sv\<lparr>sv_db := db\<rparr>, [StartSaved t (ch_id c)]))))
      | StartSaved t e \<Rightarrow>
          (case (if ch_ok c then update_task_status (ch_now c) (mt_id t) TaskRunning None None (sv_db sv) else Inl WebDatabaseError) of
             Inl err \<Rightarrow> (release_permit sv, [StartFailed (mt_id t) err])
           | Inr db \<Rightarrow> (sv\<lparr>sv_db := db\<rparr>, [StartMarked t e]))
      | StartMarked t e \<Rightarrow> (sv, [WorkerNew t e, Answered (Inr e)])
      | StartFailed i err \<Rightarrow> (forget_running i sv, [Answered (Inl err)])
      | _ \<Rightarrow> (sv, [p]))"

subsection \<open>The worker\<close>

definition task_outcome :: "'x run_result \<Rightarrow> bool \<Rightarrow> task_status \<times> utext option" where
  "task_outcome r cancelled =
     (if cancelled then (TaskCancelled, case r of RunError True msg _ \<Rightarrow> Some msg | _ \<Rightarrow> None)
      else case r of RunOk \<Rightarrow> (TaskCompleted, None) | RunError _ msg _ \<Rightarrow> (TaskFailed, Some msg))"

definition run_failure :: "'x run_result \<Rightarrow> task_status \<Rightarrow> 'x option" where
  "run_failure r status =
     (if status = TaskFailed then case r of RunError _ _ failure \<Rightarrow> failure | RunOk \<Rightarrow> None else None)"

definition worker_result :: "'x web_task \<Rightarrow> utext \<Rightarrow> 'x run_result \<Rightarrow> ('s, 'x) service \<Rightarrow> 'x process" where
  "worker_result t e r sv =
     (let (status, msg) = task_outcome r (map_of (sv_running sv) (mt_id t) = Some True)
      in WorkerMark (mt_id t) e status msg (run_failure r status))"

definition clear_scan_reset :: "'x web_task \<Rightarrow> 'x web_task" where
  "clear_scan_reset t = t\<lparr>mt_config := (mt_config t)\<lparr>tc_reset_scan_on_start := False\<rparr>\<rparr>"

definition worker_step :: "'x choice \<Rightarrow> 'x process \<Rightarrow> ('s, 'x) service \<Rightarrow> ('s, 'x) service \<times> 'x process list" where
  "worker_step c p sv =
     (case p of
        WorkerNew t e \<Rightarrow>
          if \<not> ch_ok c then (sv\<lparr>sv_lost := mt_id t # sv_lost sv\<rparr>, [WorkerDone (mt_id t)])
          else (sv, [if mt_type t = ScanTask \<and> tc_reset_scan_on_start (mt_config t) then WorkerReset t e else WorkerRun t e])
      | WorkerReset t e \<Rightarrow>
          let dropped = sv\<lparr>sv_scans := (sv_scans sv)(mt_id t := [])\<rparr> in
          if ch_ok c then (dropped, [WorkerCleared t e])
          else (if ch_tables c then dropped else sv, [worker_result t e (ch_run c) sv])
      | WorkerCleared t e \<Rightarrow>
          (case (if ch_ok c then update_task_row (clear_scan_reset t) (sv_db sv) else Inl WebDatabaseError) of
             Inl _ \<Rightarrow> (sv, [worker_result t e (ch_run c) sv])
           | Inr db \<Rightarrow> (sv\<lparr>sv_db := db\<rparr>, [WorkerRun t e]))
      | WorkerRun t e \<Rightarrow>
          (if mt_type t = ScanTask \<and> ch_tables c
           then sv\<lparr>sv_scans := (sv_scans sv)(mt_id t := scope_of t # sv_scans sv (mt_id t))\<rparr> else sv,
           [worker_result t e (ch_run c) sv])
      | WorkerMark i e status msg failure \<Rightarrow>
          (case (if ch_ok c then update_task_status (ch_now c) i status msg failure (sv_db sv) else Inl WebDatabaseError) of
             Inl _ \<Rightarrow> (sv\<lparr>sv_lost := i # sv_lost sv\<rparr>, [WorkerNote i e status msg failure])
           | Inr db \<Rightarrow> (sv\<lparr>sv_db := db\<rparr>, [WorkerNote i e status msg failure]))
      | WorkerNote i e status msg failure \<Rightarrow>
          (case (if ch_ok c then update_execution_status (ch_now c) e status None msg failure (sv_db sv) else Inl WebDatabaseError) of
             Inl _ \<Rightarrow> (sv, [WorkerDone i])
           | Inr db \<Rightarrow> (sv\<lparr>sv_db := db\<rparr>, [WorkerDone i]))
      | WorkerDone i \<Rightarrow> (forget_running i sv, [WorkerFree])
      | WorkerFree \<Rightarrow> (release_permit sv, [])
      | _ \<Rightarrow> (sv, [p]))"

subsection \<open>The other requests\<close>

definition blank_name :: "utext \<Rightarrow> bool" where
  "blank_name name \<longleftrightarrow> list_all is_whitespace name"

definition validate_task_config :: "task_config \<Rightarrow> web_error option" where
  "validate_task_config config =
     (case tc_concurrency config of
        Some n \<Rightarrow> if n < 1 \<or> 128 < n then Some (ValidationError ''concurrency must be 1 to 128'') else None
      | None \<Rightarrow> None)"

text \<open>The row an update makes of the one it read.\<close>

definition update_name :: "update_request \<Rightarrow> 'x web_task \<Rightarrow> web_error + 'x web_task" where
  "update_name req t =
     (case ur_name req of
        None \<Rightarrow> Inr t
      | Some name \<Rightarrow> if blank_name name then Inl (ValidationError ''Task name cannot be empty'') else Inr (t\<lparr>mt_name := name\<rparr>))"

definition update_source :: "update_request \<Rightarrow> ('s, 'x) service \<Rightarrow> 'x web_task \<Rightarrow> web_error + 'x web_task" where
  "update_source req sv t =
     (case ur_source_endpoint req of
        None \<Rightarrow> Inr t
      | Some e \<Rightarrow> if e \<notin> set (sv_endpoints sv) then Inl (EndpointNotFound e)
          else Inr ((if mt_source_endpoint t \<noteq> e then t\<lparr>mt_source_path := None\<rparr> else t)\<lparr>mt_source_endpoint := e\<rparr>))"

definition update_source_path :: "update_request \<Rightarrow> ('s, 'x) service \<Rightarrow> 'x web_task \<Rightarrow> web_error + 'x web_task" where
  "update_source_path req sv t =
     (case ur_source_path req of
        None \<Rightarrow> Inr t
      | Some p \<Rightarrow> if p = [] then Inr (t\<lparr>mt_source_path := None\<rparr>)
          else if p \<notin> fst ` set (sv_paths sv) then Inl (PathNotFound p) else Inr (t\<lparr>mt_source_path := Some p\<rparr>))"

definition update_config :: "update_request \<Rightarrow> 'x web_task \<Rightarrow> web_error + 'x web_task" where
  "update_config req t =
     (case ur_config req of
        None \<Rightarrow> Inr t
      | Some config \<Rightarrow>
          (case validate_task_config config of
             Some e \<Rightarrow> Inl e
           | None \<Rightarrow> Inr (t\<lparr>mt_config := config\<lparr>tc_reset_scan_on_start := tc_reset_scan_on_start (mt_config t)\<rparr>\<rparr>)))"

definition request_reset :: "'x web_task \<Rightarrow> 'x web_task \<Rightarrow> 'x web_task" where
  "request_reset old t =
     (if mt_type t = ScanTask \<and> scope_of old \<noteq> scope_of t
      then t\<lparr>mt_config := (mt_config t)\<lparr>tc_reset_scan_on_start := True\<rparr>\<rparr> else t)"

definition apply_update :: "update_request \<Rightarrow> 'x web_task \<Rightarrow> ('s, 'x) service \<Rightarrow> web_error + 'x web_task" where
  "apply_update req old sv =
     (case update_name req old of
        Inl e \<Rightarrow> Inl e
      | Inr t \<Rightarrow>
          (case update_source req sv t of
             Inl e \<Rightarrow> Inl e
           | Inr t \<Rightarrow>
               (case update_source_path req sv t of
                  Inl e \<Rightarrow> Inl e
                | Inr t \<Rightarrow> (case update_config req t of Inl e \<Rightarrow> Inl e | Inr t \<Rightarrow> Inr (request_reset old t)))))"

definition created_task :: "create_request \<Rightarrow> utext \<Rightarrow> nat \<Rightarrow> ('s, 'x) service \<Rightarrow> web_error + 'x web_task" where
  "created_task req i now sv =
     (if blank_name (cr_name req) then Inl (ValidationError ''Task name cannot be empty'')
      else if cr_source_endpoint req \<notin> set (sv_endpoints sv) then Inl (EndpointNotFound (cr_source_endpoint req))
      else case (case cr_source_path req of
                   None \<Rightarrow> None
                 | Some p \<Rightarrow> if p \<notin> fst ` set (sv_paths sv) then Some (PathNotFound p) else None) of
          Some e \<Rightarrow> Inl e
        | None \<Rightarrow>
          (case (if cr_type req = ScanTask then None
                 else case (cr_dest_endpoint req, cr_dest_path req) of
                     (None, _) \<Rightarrow> Some (ValidationError ''Destination endpoint is required for sync/integrity_check'')
                   | (Some _, None) \<Rightarrow> Some (ValidationError ''Destination path is required for sync/integrity_check'')
                   | (Some e, Some p) \<Rightarrow> if e \<notin> set (sv_endpoints sv) then Some (EndpointNotFound e)
                       else if p \<notin> fst ` set (sv_paths sv) then Some (PathNotFound p) else None) of
             Some e \<Rightarrow> Inl e
           | None \<Rightarrow>
               Inr \<lparr>mt_id = i, mt_name = cr_name req, mt_type = cr_type req, mt_source_endpoint = cr_source_endpoint req,
                 mt_source_path = cr_source_path req, mt_dest_endpoint = cr_dest_endpoint req, mt_dest_path = cr_dest_path req,
                 mt_config = cr_config req, mt_status = TaskPending, mt_created_at = now, mt_started_at = None,
                 mt_finished_at = None, mt_error = None, mt_storage_error = None\<rparr>))"

definition uses_endpoint :: "utext \<Rightarrow> 'x web_task \<Rightarrow> bool" where
  "uses_endpoint e t \<longleftrightarrow> mt_source_endpoint t = e \<or> mt_dest_endpoint t = Some e"

text \<open>A task refers to a path of the endpoint; the endpoint cannot go then either.\<close>

definition uses_path :: "utext \<Rightarrow> ('s, 'x) service \<Rightarrow> 'x web_task \<Rightarrow> bool" where
  "uses_path e sv t \<longleftrightarrow> list_ex (\<lambda>(p, k). k = e \<and> (mt_source_path t = Some p \<or> mt_dest_path t = Some p)) (sv_paths sv)"

definition create_step :: "'x choice \<Rightarrow> 'x process \<Rightarrow> ('s, 'x) service \<Rightarrow> ('s, 'x) service \<times> 'x process list" where
  "create_step c p sv =
     (let failed = (sv, [Answered (Inl WebDatabaseError)]) in
      case p of
        CreateTask req \<Rightarrow>
          (case created_task req (ch_id c) (ch_now c) sv of
             Inl e \<Rightarrow> (sv, [Answered (Inl e)])
           | Inr t \<Rightarrow>
               (case (if ch_ok c then save_task t (sv_db sv) else None) of
                  None \<Rightarrow> failed
                | Some db \<Rightarrow> (sv\<lparr>sv_db := db, sv_used := mt_id t # sv_used sv\<rparr>, [Answered (Inr (mt_id t))])))
      | _ \<Rightarrow> (sv, [p]))"

definition update_step :: "'x choice \<Rightarrow> 'x process \<Rightarrow> ('s, 'x) service \<Rightarrow> ('s, 'x) service \<times> 'x process list" where
  "update_step c p sv =
     (let failed = (sv, [Answered (Inl WebDatabaseError)]) in
      case p of
        UpdateRead i req \<Rightarrow>
          if \<not> ch_ok c then failed
          else (case task_row i (sv_db sv) of
              None \<Rightarrow> (sv, [Answered (Inl (TaskNotFound i))])
            | Some t \<Rightarrow>
                (sv, [if mt_status t = TaskRunning
                      then Answered (Inl (InvalidTaskState (show_task_status (mt_status t)) ''update'')) else UpdateWrite t req]))
      | UpdateWrite old req \<Rightarrow>
          (case apply_update req old sv of
             Inl e \<Rightarrow> (sv, [Answered (Inl e)])
           | Inr t \<Rightarrow>
               (case (if ch_ok c then update_task_row t (sv_db sv) else Inl WebDatabaseError) of
                  Inl e \<Rightarrow> (sv, [Answered (Inl e)])
                | Inr db \<Rightarrow> (sv\<lparr>sv_db := db\<rparr>, [Answered (Inr (mt_id t))])))
      | _ \<Rightarrow> (sv, [p]))"

definition delete_step :: "'x choice \<Rightarrow> 'x process \<Rightarrow> ('s, 'x) service \<Rightarrow> ('s, 'x) service \<times> 'x process list" where
  "delete_step c p sv =
     (let failed = (sv, [Answered (Inl WebDatabaseError)]) in
      case p of
        DeleteRead i \<Rightarrow>
          if \<not> ch_ok c then failed
          else (case task_row i (sv_db sv) of
              None \<Rightarrow> (sv, [Answered (Inl (TaskNotFound i))])
            | Some t \<Rightarrow>
                (sv, [if \<not> can_delete (mt_status t)
                      then Answered (Inl (InvalidTaskState (show_task_status (mt_status t)) ''delete'')) else DeleteCleanup i]))
      | DeleteCleanup i \<Rightarrow>
          (if ch_tables c then sv\<lparr>sv_scans := (sv_scans sv)(i := [])\<rparr> else sv, [DeleteExecutions i])
      | DeleteExecutions i \<Rightarrow>
          if ch_ok c then (sv\<lparr>sv_db := delete_executions i (sv_db sv)\<rparr>, [DeleteRow i]) else failed
      | DeleteRow i \<Rightarrow>
          (case (if ch_ok c then delete_task_row i (sv_db sv) else Inl WebDatabaseError) of
             Inl e \<Rightarrow> (sv, [Answered (Inl e)])
           | Inr db \<Rightarrow> (sv\<lparr>sv_db := db\<rparr>, [Answered (Inr i)]))
      | _ \<Rightarrow> (sv, [p]))"

definition execution_step :: "'x choice \<Rightarrow> 'x process \<Rightarrow> ('s, 'x) service \<Rightarrow> ('s, 'x) service \<times> 'x process list" where
  "execution_step c p sv =
     (let failed = (sv, [Answered (Inl WebDatabaseError)]) in
      case p of
        ExecutionRead i \<Rightarrow>
          if \<not> ch_ok c then failed
          else (case execution_row i (sv_db sv) of
              None \<Rightarrow> (sv, [Answered (Inl (ExecutionNotFound i))])
            | Some e \<Rightarrow>
                (sv, [if \<not> can_delete (te_status e)
                      then Answered (Inl (InvalidTaskState (show_task_status (te_status e)) ''delete execution'')) else ExecutionDelete i]))
      | ExecutionDelete i \<Rightarrow>
          (case (if ch_ok c then delete_execution i (sv_db sv) else Inl WebDatabaseError) of
             Inl e \<Rightarrow> (sv, [Answered (Inl e)])
           | Inr db \<Rightarrow> (sv\<lparr>sv_db := db\<rparr>, [Answered (Inr i)]))
      | _ \<Rightarrow> (sv, [p]))"

definition endpoint_step :: "'x choice \<Rightarrow> 'x process \<Rightarrow> ('s, 'x) service \<Rightarrow> ('s, 'x) service \<times> 'x process list" where
  "endpoint_step c p sv =
     (let failed = (sv, [Answered (Inl WebDatabaseError)]) in
      case p of
        EndpointRead e \<Rightarrow>
          if \<not> ch_ok c then failed
          else (let related = filter (uses_endpoint e) (wd_tasks (sv_db sv)) in
                if list_ex (\<lambda>t. mt_status t = TaskRunning) related
                then (sv, [Answered (Inl (EndpointInUseByRunningTask (map mt_name (filter (\<lambda>t. mt_status t = TaskRunning) related))))])
                else (sv, [EndpointTasks e (map mt_id related)]))
      | EndpointTasks e [] \<Rightarrow>
          if \<not> ch_ok c \<or> list_ex (\<lambda>t. uses_endpoint e t \<or> uses_path e sv t) (wd_tasks (sv_db sv)) then failed
          else if e \<notin> set (sv_endpoints sv) then (sv, [Answered (Inl (EndpointNotFound e))])
          else (sv\<lparr>sv_endpoints := removeAll e (sv_endpoints sv), sv_paths := filter (\<lambda>(p, k). k \<noteq> e) (sv_paths sv)\<rparr>, [Answered (Inr e)])
      | EndpointTasks e (i # is) \<Rightarrow>
          (case (if ch_ok c then delete_task_row i (sv_db sv) else Inl WebDatabaseError) of
             Inl err \<Rightarrow> (sv, [Answered (Inl err)])
           | Inr db \<Rightarrow> (sv\<lparr>sv_db := db\<rparr>, [EndpointTasks e is]))
      | _ \<Rightarrow> (sv, [p]))"

definition request_step :: "'x choice \<Rightarrow> 'x process \<Rightarrow> ('s, 'x) service \<Rightarrow> ('s, 'x) service \<times> 'x process list" where
  "request_step c p sv =
     (case p of
        CreateTask _ \<Rightarrow> create_step c p sv
      | UpdateRead _ _ \<Rightarrow> update_step c p sv
      | UpdateWrite _ _ \<Rightarrow> update_step c p sv
      | ExecutionRead _ \<Rightarrow> execution_step c p sv
      | ExecutionDelete _ \<Rightarrow> execution_step c p sv
      | EndpointRead _ \<Rightarrow> endpoint_step c p sv
      | EndpointTasks _ _ \<Rightarrow> endpoint_step c p sv
      | _ \<Rightarrow> delete_step c p sv)"

text \<open>Cancelling only sets the token of a running task; the worker sees it when it ends.\<close>

definition cancel_task :: "utext \<Rightarrow> ('s, 'x) service \<Rightarrow> ('s, 'x) service \<times> (web_error + unit)" where
  "cancel_task i sv =
     (if map_of (sv_running sv) i = None then (sv, Inl (InvalidTaskState ''not running'' ''cancel''))
      else (sv\<lparr>sv_running := map (\<lambda>(k, cancelled). (k, if k = i then True else cancelled)) (sv_running sv)\<rparr>, Inr ()))"

definition cancel_all :: "('s, 'x) service \<Rightarrow> ('s, 'x) service" where
  "cancel_all sv = sv\<lparr>sv_running := map (\<lambda>(k, _). (k, True)) (sv_running sv)\<rparr>"

text \<open>A request dropped where it waits frees what it holds; a worker is never dropped.\<close>

definition drop_request :: "'x process \<Rightarrow> ('s, 'x) service \<Rightarrow> ('s, 'x) service \<times> 'x process list" where
  "drop_request p sv =
     (case p of
        StartPermit t \<Rightarrow> (release_permit sv, [StartFailed (mt_id t) WebDatabaseError])
      | StartSaved t e \<Rightarrow> (release_permit sv, [StartFailed (mt_id t) WebDatabaseError])
      | StartMarked t e \<Rightarrow> (release_permit (sv\<lparr>sv_lost := mt_id t # sv_lost sv\<rparr>), [StartFailed (mt_id t) WebDatabaseError])
      | StartRead i \<Rightarrow> (sv, [])
      | CreateTask req \<Rightarrow> (sv, [])
      | UpdateRead i req \<Rightarrow> (sv, [])
      | UpdateWrite t req \<Rightarrow> (sv, [])
      | DeleteRead i \<Rightarrow> (sv, [])
      | DeleteCleanup i \<Rightarrow> (sv, [])
      | DeleteExecutions i \<Rightarrow> (sv, [])
      | DeleteRow i \<Rightarrow> (sv, [])
      | EndpointRead e \<Rightarrow> (sv, [])
      | ExecutionRead i \<Rightarrow> (sv, [])
      | ExecutionDelete i \<Rightarrow> (sv, [])
      | EndpointTasks e is \<Rightarrow> (sv, [])
      | _ \<Rightarrow> (sv, [p]))"

definition process_step :: "'x choice \<Rightarrow> 'x process \<Rightarrow> ('s, 'x) service \<Rightarrow> ('s, 'x) service \<times> 'x process list" where
  "process_step c p sv =
     (if (case p of WorkerNew _ _ \<Rightarrow> True | WorkerReset _ _ \<Rightarrow> True | WorkerCleared _ _ \<Rightarrow> True | WorkerRun _ _ \<Rightarrow> True
           | WorkerMark _ _ _ _ _ \<Rightarrow> True | WorkerNote _ _ _ _ _ \<Rightarrow> True | WorkerDone _ \<Rightarrow> True | WorkerFree \<Rightarrow> True | _ \<Rightarrow> False)
      then worker_step c p sv
      else if (case p of StartRead _ \<Rightarrow> True | StartChecked _ \<Rightarrow> True | StartSlot _ \<Rightarrow> True | StartPermit _ \<Rightarrow> True
           | StartSaved _ _ \<Rightarrow> True | StartMarked _ _ \<Rightarrow> True | StartFailed _ _ \<Rightarrow> True | _ \<Rightarrow> False)
      then start_step c p sv
      else request_step c p sv)"

subsection \<open>Interleaving\<close>

text \<open>
  With \<open>fresh\<close> no request acts on a row that has changed since it was read; without it every
  interleaving is possible.
\<close>

definition still_read :: "'x process \<Rightarrow> ('s, 'x) service \<Rightarrow> bool" where
  "still_read p sv \<longleftrightarrow>
     (case p of
        StartChecked t \<Rightarrow> filter (\<lambda>r. mt_id r = mt_id t) (wd_tasks (sv_db sv)) = [t]
      | UpdateWrite t req \<Rightarrow> filter (\<lambda>r. mt_id r = mt_id t) (wd_tasks (sv_db sv)) = [t]
      | _ \<Rightarrow> True)"

definition new_request :: "'x process \<Rightarrow> bool" where
  "new_request p \<longleftrightarrow>
     (case p of
        StartRead _ \<Rightarrow> True | UpdateRead _ _ \<Rightarrow> True | CreateTask _ \<Rightarrow> True | DeleteRead _ \<Rightarrow> True
      | EndpointRead _ \<Rightarrow> True | ExecutionRead _ \<Rightarrow> True | _ \<Rightarrow> False)"

inductive service_step :: "bool \<Rightarrow> ('s, 'x) service \<times> 'x process list \<Rightarrow> ('s, 'x) service \<times> 'x process list \<Rightarrow> bool" for fresh where
  step_request: "new_request p \<Longrightarrow> service_step fresh (sv, ps) (sv, ps @ [p])"
| step_process:
    "process_step c p sv = (sv', qs) \<Longrightarrow> (fresh \<longrightarrow> still_read p sv) \<Longrightarrow> ch_id c \<notin> set (sv_used sv) \<Longrightarrow>
     service_step fresh (sv, ps1 @ p # ps2) (sv', ps1 @ qs @ ps2)"
| step_drop: "drop_request p sv = (sv', qs) \<Longrightarrow> service_step fresh (sv, ps1 @ p # ps2) (sv', ps1 @ qs @ ps2)"
| step_cancel: "cancel_task i sv = (sv', r) \<Longrightarrow> service_step fresh (sv, ps) (sv', ps)"
| step_shutdown: "service_step fresh (sv, ps) (cancel_all sv, ps)"
| step_callback: "receive sb (sv_db sv) = Inr (db, r) \<Longrightarrow> service_step fresh (sv, ps) (sv\<lparr>sv_db := db\<rparr>, ps)"
| step_parts: "service_step fresh (sv, ps) (sv\<lparr>sv_endpoints := es, sv_paths := qs\<rparr>, ps)"

text \<open>The process of the server ends, with all its requests and workers, and starts again.\<close>

definition restart_service :: "nat \<Rightarrow> ('s, 'x) service \<Rightarrow> ('s, 'x) service" where
  "restart_service now sv = sv\<lparr>sv_db := recover_interrupted now (sv_db sv), sv_running := [], sv_permits := max_concurrent_tasks, sv_lost := []\<rparr>"

definition empty_service :: "('s, 'x) service" where
  "empty_service = \<lparr>sv_db = \<lparr>wd_tasks = [], wd_executions = [], wd_progress = [], wd_cursor = [], wd_batches = [], wd_events = [],
      wd_omitted = []\<rparr>, sv_running = [], sv_permits = max_concurrent_tasks, sv_endpoints = [], sv_paths = [], sv_scans = (\<lambda>_. []),
      sv_lost = [], sv_used = []\<rparr>"

inductive service_reached :: "bool \<Rightarrow> ('s, 'x) service \<times> 'x process list \<Rightarrow> bool" for fresh where
  reached_start: "service_reached fresh (empty_service, [])"
| reached_step: "service_reached fresh s \<Longrightarrow> service_step fresh s s' \<Longrightarrow> service_reached fresh s'"
| reached_restart: "service_reached fresh (sv, ps) \<Longrightarrow> service_reached fresh (restart_service now sv, [])"

end
