(* ===== verification/WebTasksProofs.thy ===== *)
theory WebTasksProofs
  imports WebTasks "HOL-Library.Multiset"
begin

section \<open>What the task service guarantees\<close>

text \<open>
  For every interleaving of requests, workers, dropped requests, failing statements and
  restarts: a task has at most one start or worker in progress and there are at most eight
  workers; a running row has its worker or lost it by one of three faults; and a task that lost
  its worker is stuck until the next restart. If no request acts on a row that changed since
  it was read, a scan never adds to the tables of a scan with another scope.
\<close>

subsection \<open>Places and permits\<close>

text \<open>The place among the running tasks, and the permits, that a process holds.\<close>

fun places :: "'x process \<Rightarrow> utext list" where
  "places (StartSlot t) = [mt_id t]"
| "places (StartPermit t) = [mt_id t]"
| "places (StartSaved t e) = [mt_id t]"
| "places (StartMarked t e) = [mt_id t]"
| "places (StartFailed i e) = [i]"
| "places (WorkerNew t e) = [mt_id t]"
| "places (WorkerReset t e) = [mt_id t]"
| "places (WorkerCleared t e) = [mt_id t]"
| "places (WorkerRun t e) = [mt_id t]"
| "places (WorkerMark i e s m f) = [i]"
| "places (WorkerNote i e s m f) = [i]"
| "places (WorkerDone i) = [i]"
| "places p = []"

fun is_worker :: "'x process \<Rightarrow> bool" where
  "is_worker (WorkerNew t e) = True"
| "is_worker (WorkerReset t e) = True"
| "is_worker (WorkerCleared t e) = True"
| "is_worker (WorkerRun t e) = True"
| "is_worker (WorkerMark i e s m f) = True"
| "is_worker (WorkerNote i e s m f) = True"
| "is_worker (WorkerDone i) = True"
| "is_worker WorkerFree = True"
| "is_worker p = False"

fun permits :: "'x process \<Rightarrow> nat" where
  "permits (StartPermit t) = 1"
| "permits (StartSaved t e) = 1"
| "permits (StartMarked t e) = 1"
| "permits p = (if is_worker p then 1 else 0)"

definition all_places :: "'x process list \<Rightarrow> utext multiset" where
  "all_places ps = mset (concat (map places ps))"

definition all_permits :: "'x process list \<Rightarrow> nat" where
  "all_permits ps = sum_list (map permits ps)"

definition running_ids :: "('s, 'x) service \<Rightarrow> utext list" where
  "running_ids sv = map fst (sv_running sv)"

lemma all_simps [simp]:
  "all_places [] = {#}" "all_places (p # ps) = mset (places p) + all_places ps" "all_places (ps @ qs) = all_places ps + all_places qs"
  "all_permits [] = 0" "all_permits (p # ps) = permits p + all_permits ps" "all_permits (ps @ qs) = all_permits ps + all_permits qs"
  by (simp_all add: all_places_def all_permits_def)

definition balanced :: "('s, 'x) service \<times> 'x process list \<Rightarrow> bool" where
  "balanced s \<longleftrightarrow> (case s of (sv, ps) \<Rightarrow>
     distinct (running_ids sv) \<and> mset (running_ids sv) = all_places ps \<and> sv_permits sv + all_permits ps = max_concurrent_tasks)"

text \<open>What a step of one process does to places and permits, whatever the others hold.\<close>

definition exchanges :: "('s, 'x) service \<Rightarrow> 'x process \<Rightarrow> ('s, 'x) service \<Rightarrow> 'x process list \<Rightarrow> bool" where
  "exchanges sv p sv' qs \<longleftrightarrow> distinct (running_ids sv') \<and>
     mset (running_ids sv') + mset (places p) = mset (running_ids sv) + all_places qs \<and>
     sv_permits sv' + all_permits qs = sv_permits sv + permits p"

lemma forget_ids: "running_ids (forget_running i sv) = removeAll i (running_ids sv)"
proof -
  have "map fst (filter (\<lambda>(k, _). k \<noteq> i) rs) = removeAll i (map fst rs)" for rs :: "(utext \<times> bool) list"
    by (induction rs) auto
  then show ?thesis by (simp add: running_ids_def forget_running_def)
qed

lemma service_same [simp]:
  "running_ids (sv\<lparr>sv_db := db\<rparr>) = running_ids sv" "running_ids (sv\<lparr>sv_permits := n\<rparr>) = running_ids sv"
  "running_ids (sv\<lparr>sv_scans := f\<rparr>) = running_ids sv" "running_ids (sv\<lparr>sv_lost := l\<rparr>) = running_ids sv"
  "running_ids (sv\<lparr>sv_used := l\<rparr>) = running_ids sv" "running_ids (sv\<lparr>sv_endpoints := l\<rparr>) = running_ids sv"
  "running_ids (sv\<lparr>sv_paths := l'\<rparr>) = running_ids sv" "running_ids (release_permit sv) = running_ids sv"
  "sv_permits (release_permit sv) = sv_permits sv + 1" "sv_permits (forget_running i sv) = sv_permits sv"
  "running_ids (sv\<lparr>sv_running := rs\<rparr>) = map fst rs"
  by (simp_all add: running_ids_def release_permit_def forget_running_def)

lemma forget_exchange:
  "distinct (running_ids sv) \<Longrightarrow> i \<in> set (running_ids sv) \<Longrightarrow> mset (removeAll i (running_ids sv)) + {#i#} = mset (running_ids sv)"
  by (simp add: distinct_remove1_removeAll [symmetric])

lemma worker_result_holds [simp]:
  "places (worker_result t e r sv) = [mt_id t]" "permits (worker_result t e r sv) = 1"
  by (simp_all add: worker_result_def case_prod_unfold Let_def)

lemma start_exchanges:
  assumes "start_step c p sv = (sv', qs)" "distinct (running_ids sv)" "set (places p) \<subseteq> set (running_ids sv)" "\<not> is_worker p"
  shows "exchanges sv p sv' qs"
proof (cases p)
  case (StartChecked t)
  then show ?thesis
    using assms by (auto simp: start_step_def exchanges_def running_ids_def map_of_eq_None_iff split: if_splits)
next
  case (StartFailed i e)
  then show ?thesis
    using assms forget_exchange [of sv i] by (auto simp: start_step_def exchanges_def forget_ids distinct_removeAll)
qed (use assms in \<open>auto simp: start_step_def exchanges_def split: if_splits option.splits sum.splits\<close>)

lemma worker_exchanges:
  assumes "worker_step c p sv = (sv', qs)" "distinct (running_ids sv)" "set (places p) \<subseteq> set (running_ids sv)"
  shows "exchanges sv p sv' qs"
proof (cases p)
  case (WorkerDone i)
  then show ?thesis
    using assms forget_exchange [of sv i] by (auto simp: worker_step_def exchanges_def forget_ids distinct_removeAll)
qed (use assms in \<open>auto simp: worker_step_def exchanges_def Let_def split: if_splits option.splits sum.splits\<close>)

lemmas request_steps = request_step_def create_step_def update_step_def delete_step_def execution_step_def endpoint_step_def

lemma request_exchanges:
  assumes "request_step c p sv = (sv', qs)" "distinct (running_ids sv)"
  shows "exchanges sv p sv' qs"
proof (cases p)
  case (EndpointTasks e xs)
  then show ?thesis
    using assms by (cases xs) (auto simp: request_steps exchanges_def Let_def split: if_splits option.splits sum.splits)
qed (use assms in \<open>auto simp: request_steps exchanges_def Let_def split: if_splits option.splits sum.splits\<close>)

lemma process_exchanges:
  assumes "process_step c p sv = (sv', qs)" "distinct (running_ids sv)" "set (places p) \<subseteq> set (running_ids sv)"
  shows "exchanges sv p sv' qs"
  using assms worker_exchanges [of c p sv sv' qs] start_exchanges [of c p sv sv' qs] request_exchanges [of c p sv sv' qs]
  by (cases p) (simp_all add: process_step_def)

lemma drop_exchanges:
  assumes "drop_request p sv = (sv', qs)" "distinct (running_ids sv)"
  shows "exchanges sv p sv' qs"
  using assms by (cases p) (auto simp: drop_request_def exchanges_def)

lemma balanced_places:
  assumes "balanced (sv, ps1 @ p # ps2)"
  shows "set (places p) \<subseteq> set (running_ids sv)"
proof -
  have "mset (running_ids sv) = all_places (ps1 @ p # ps2)" using assms by (simp add: balanced_def)
  then have "set (running_ids sv) = set_mset (all_places (ps1 @ p # ps2))" by (metis set_mset_mset)
  then show ?thesis by auto
qed

lemma balanced_exchange:
  assumes "balanced (sv, ps1 @ p # ps2)" "exchanges sv p sv' qs"
  shows "balanced (sv', ps1 @ qs @ ps2)"
proof -
  have "mset (running_ids sv') + mset (places p) = (all_places ps1 + all_places qs + all_places ps2) + mset (places p)"
    using assms by (simp add: balanced_def exchanges_def ac_simps)
  then have "mset (running_ids sv') = all_places ps1 + all_places qs + all_places ps2" by (simp only: add_right_cancel)
  then show ?thesis using assms by (auto simp: balanced_def exchanges_def ac_simps)
qed

lemma balanced_step:
  assumes "service_step fresh s s'" "balanced s"
  shows "balanced s'"
  using assms
proof cases
  case (step_request p sv ps)
  then have "places p = [] \<and> permits p = 0" by (cases p) (auto simp: new_request_def)
  then show ?thesis using step_request assms(2) by (simp add: balanced_def)
next
  case (step_process c p sv sv' qs ps1 ps2)
  then have b: "balanced (sv, ps1 @ p # ps2)" using assms(2) by simp
  then have "distinct (running_ids sv)" by (simp add: balanced_def)
  then show ?thesis
    using balanced_exchange [OF b process_exchanges [OF step_process(3) _ balanced_places [OF b]]] step_process(2) by simp
next
  case (step_drop p sv sv' qs ps1 ps2)
  then have b: "balanced (sv, ps1 @ p # ps2)" using assms(2) by simp
  then have "distinct (running_ids sv)" by (simp add: balanced_def)
  then show ?thesis using balanced_exchange [OF b drop_exchanges [OF step_drop(3)]] step_drop(2) by simp
next
  case (step_cancel i sv sv' r ps)
  then have "running_ids sv' = running_ids sv \<and> sv_permits sv' = sv_permits sv"
    by (auto simp: cancel_task_def running_ids_def split: if_splits)
  then show ?thesis using step_cancel assms(2) by (simp add: balanced_def)
next
  case (step_shutdown sv ps)
  moreover have "running_ids (cancel_all sv) = running_ids sv" by (simp add: cancel_all_def running_ids_def o_def case_prod_unfold)
  moreover have "sv_permits (cancel_all sv) = sv_permits sv" by (simp add: cancel_all_def)
  ultimately show ?thesis using assms(2) by (simp add: balanced_def)
next
  case (step_callback sb sv db r ps)
  then show ?thesis using assms(2) by (simp add: balanced_def)
next
  case (step_parts sv ps es qs)
  then show ?thesis using assms(2) by (simp add: balanced_def)
qed

lemma reached_balanced: "service_reached fresh s \<Longrightarrow> balanced s"
proof (induction rule: service_reached.induct)
  case (reached_step s s')
  then show ?case using balanced_step by blast
qed (simp_all add: balanced_def empty_service_def running_ids_def restart_service_def)

text \<open>
  C24. Whatever requests arrive and however they interleave, are dropped or fail, a task has at most
  one start or worker in progress, exactly the tasks that have one are listed as running, at
  most eight workers exist, and when nothing is in progress nothing is listed and all permits
  are free again.
\<close>

theorem one_worker_per_task:
  assumes "service_reached fresh (sv, ps)"
  shows "distinct (concat (map places ps)) \<and> set (map fst (sv_running sv)) = set (concat (map places ps)) \<and>
    length (filter is_worker ps) \<le> max_concurrent_tasks \<and>
    ((\<forall>p \<in> set ps. places p = [] \<and> permits p = 0) \<longrightarrow> sv_running sv = [] \<and> sv_permits sv = max_concurrent_tasks)"
proof -
  have b: "distinct (running_ids sv)" "mset (running_ids sv) = mset (concat (map places ps))"
    "sv_permits sv + all_permits ps = max_concurrent_tasks"
    using reached_balanced [OF assms] by (simp_all add: balanced_def all_places_def)
  have w: "length (filter is_worker ps) \<le> all_permits ps"
  proof (induction ps)
    case (Cons p ps)
    then show ?case by (cases p) simp_all
  qed simp
  have "places p = [] \<and> permits p = 0 \<Longrightarrow> True" for p :: "'b process" by simp
  have idle: "concat (map places ps) = [] \<and> all_permits ps = 0" if "\<forall>p \<in> set ps. places p = [] \<and> permits p = 0"
    using that by (simp add: all_permits_def)
  show ?thesis
    using b w idle mset_eq_imp_distinct_iff [OF b(2)] mset_eq_setD [OF b(2)] by (auto simp: running_ids_def)
qed

subsection \<open>Running rows\<close>

text \<open>The tasks whose final status a process is still going to write.\<close>

fun finishes :: "'x process \<Rightarrow> utext list" where
  "finishes (StartMarked t e) = [mt_id t]"
| "finishes (WorkerNew t e) = [mt_id t]"
| "finishes (WorkerReset t e) = [mt_id t]"
| "finishes (WorkerCleared t e) = [mt_id t]"
| "finishes (WorkerRun t e) = [mt_id t]"
| "finishes (WorkerMark i e s m f) = [i]"
| "finishes p = []"

definition running_rows :: "('s, 'x) web_db \<Rightarrow> utext set" where
  "running_rows db = mt_id ` {t \<in> set (wd_tasks db). mt_status t = TaskRunning}"

definition row_ids :: "('s, 'x) web_db \<Rightarrow> utext set" where
  "row_ids db = mt_id ` set (wd_tasks db)"

lemma with_status_simps [simp]:
  "mt_id (with_status now s m f t) = mt_id t" "mt_status (with_status now s m f t) = s" "mt_type (with_status now s m f t) = mt_type t"
  "mt_config (with_status now s m f t) = mt_config t" "scope_of (with_status now s m f t) = scope_of t"
  by (cases s; simp add: with_status_def Let_def scope_of_def)+

lemma with_settings_simps [simp]:
  "mt_id (with_settings t r) = mt_id r" "mt_status (with_settings t r) = mt_status r" "mt_type (with_settings t r) = mt_type r"
  "mt_config (with_settings t r) = mt_config t" "scope_of (with_settings t r) = scope_of t"
  by (simp_all add: with_settings_def scope_of_def)

lemma rows_map:
  assumes "\<And>r. mt_id (g r) = mt_id r"
  shows "mt_id ` {r \<in> g ` A. P r} = mt_id ` {r \<in> A. P (g r)}"
proof -
  have "{r \<in> g ` A. P r} = g ` {r \<in> A. P (g r)}" by auto
  then show ?thesis by (simp add: image_image assms)
qed

lemma update_status_running:
  "update_task_status now i s m f db = Inr db' \<Longrightarrow>
     running_rows db' = (if s = TaskRunning then insert i (running_rows db) else running_rows db - {i})"
proof -
  assume *: "update_task_status now i s m f db = Inr db'"
  define g where "g r = (if mt_id r = i then with_status now s m f r else r)" for r :: "'b web_task"
  have g: "mt_id (g r) = mt_id r" "mt_status (g r) = (if mt_id r = i then s else mt_status r)" for r by (simp_all add: g_def)
  have "task_row i db \<noteq> None" and db': "db' = db\<lparr>wd_tasks := map g (wd_tasks db)\<rparr>"
    using * by (auto simp: update_task_status_def g_def [abs_def] split: if_splits)
  then obtain r where r: "r \<in> set (wd_tasks db)" "mt_id r = i" by (auto simp: task_row_def find_None_iff)
  have "running_rows db' = mt_id ` {r \<in> set (wd_tasks db). mt_status (g r) = TaskRunning}"
    unfolding running_rows_def db' using rows_map [of g "set (wd_tasks db)" "\<lambda>r. mt_status r = TaskRunning"] g(1) by simp
  then show "running_rows db' = (if s = TaskRunning then insert i (running_rows db) else running_rows db - {i})"
    using r by (auto simp: g(2) running_rows_def)
qed

lemma update_row_running: "update_task_row t db = Inr db' \<Longrightarrow> running_rows db' = running_rows db"
proof -
  assume *: "update_task_row t db = Inr db'"
  define g where "g r = (if mt_id r = mt_id t then with_settings t r else r)" for r :: "'b web_task"
  have g: "mt_id (g r) = mt_id r" "mt_status (g r) = mt_status r" for r by (simp_all add: g_def)
  have "db' = db\<lparr>wd_tasks := map g (wd_tasks db)\<rparr>"
    using * by (auto simp: update_task_row_def g_def [abs_def] split: if_splits)
  then show "running_rows db' = running_rows db"
    unfolding running_rows_def using rows_map [of g "set (wd_tasks db)" "\<lambda>r. mt_status r = TaskRunning"] g by simp
qed

lemma delete_row_running: "delete_task_row i db = Inr db' \<Longrightarrow> running_rows db' = running_rows db - {i}"
  by (auto simp: delete_task_row_def running_rows_def split: if_splits)

lemma other_rows_running:
  "save_execution e db = Some db' \<Longrightarrow> running_rows db' = running_rows db"
  "update_execution_status now i s st m f db = Inr db' \<Longrightarrow> running_rows db' = running_rows db"
  "delete_execution i db = Inr db' \<Longrightarrow> running_rows db' = running_rows db"
  "running_rows (delete_executions i db) = running_rows db"
  "save_task t db = Some db' \<Longrightarrow> mt_status t \<noteq> TaskRunning \<Longrightarrow> running_rows db' = running_rows db"
  by (auto simp: save_execution_def update_execution_status_def delete_execution_def delete_executions_def save_task_def
      running_rows_def split: if_splits)

lemma created_task_simps:
  assumes "created_task req i now sv = Inr t"
  shows "mt_id t = i" "mt_status t = TaskPending"
  using assms by (auto simp: created_task_def split: if_splits option.splits)

lemma worker_result_finishes [simp]: "finishes (worker_result t e r sv) = [mt_id t]"
  by (simp add: worker_result_def case_prod_unfold Let_def)

lemma task_outcome_final: "fst (task_outcome r c) \<noteq> TaskRunning"
  by (auto simp: task_outcome_def split: run_result.split)

text \<open>Workers only write final statuses.\<close>

fun final_status :: "'x process \<Rightarrow> bool" where
  "final_status (WorkerMark i e s m f) \<longleftrightarrow> s \<noteq> TaskRunning"
| "final_status p \<longleftrightarrow> True"

lemma worker_result_final [simp]: "final_status (worker_result t e r sv)"
  using task_outcome_final [of r "map_of (sv_running sv) (mt_id t) = Some True"]
  by (simp add: worker_result_def case_prod_unfold Let_def)

definition watched :: "('s, 'x) service \<times> 'x process list \<Rightarrow> bool" where
  "watched s \<longleftrightarrow> (case s of (sv, ps) \<Rightarrow>
     running_rows (sv_db sv) \<subseteq> set (sv_lost sv) \<union> set (concat (map finishes ps)) \<and> (\<forall>p \<in> set ps. final_status p))"

definition watches :: "('s, 'x) service \<Rightarrow> 'x process \<Rightarrow> ('s, 'x) service \<Rightarrow> 'x process list \<Rightarrow> bool" where
  "watches sv p sv' qs \<longleftrightarrow>
     running_rows (sv_db sv') \<subseteq> (running_rows (sv_db sv) - set (finishes p)) \<union> set (sv_lost sv') \<union> set (concat (map finishes qs)) \<and>
     set (sv_lost sv) \<subseteq> set (sv_lost sv') \<and> (\<forall>q \<in> set qs. final_status q)"

lemma frame_db [simp]:
  "sv_db (forget_running i sv) = sv_db sv" "sv_lost (forget_running i sv) = sv_lost sv"
  "sv_db (release_permit sv) = sv_db sv" "sv_lost (release_permit sv) = sv_lost sv"
  by (simp_all add: forget_running_def release_permit_def)

lemma start_watches: "start_step c p sv = (sv', qs) \<Longrightarrow> final_status p \<Longrightarrow> watches sv p sv' qs"
  by (cases p) (auto simp: start_step_def watches_def other_rows_running update_status_running
      split: if_splits option.splits sum.splits)

lemma worker_watches: "worker_step c p sv = (sv', qs) \<Longrightarrow> final_status p \<Longrightarrow> watches sv p sv' qs"
  by (cases p) (auto simp: worker_step_def watches_def other_rows_running update_status_running update_row_running Let_def
      split: if_splits option.splits sum.splits)

lemma request_watches:
  assumes "request_step c p sv = (sv', qs)" "final_status p"
  shows "watches sv p sv' qs"
proof (cases p)
  case (EndpointTasks e xs)
  then show ?thesis
    using assms by (cases xs) (auto simp: request_steps watches_def Let_def delete_row_running
      split: if_splits option.splits sum.splits)
next
  case (CreateTask req)
  then show ?thesis
    using assms
    by (auto simp: request_steps watches_def created_task_simps other_rows_running(5) Let_def split: if_splits option.splits sum.splits)
qed (use assms in \<open>auto simp: request_steps watches_def Let_def delete_row_running update_row_running
    other_rows_running split: if_splits option.splits sum.splits\<close>)

lemma process_watches: "process_step c p sv = (sv', qs) \<Longrightarrow> final_status p \<Longrightarrow> watches sv p sv' qs"
  using worker_watches [of c p sv sv' qs] start_watches [of c p sv sv' qs] request_watches [of c p sv sv' qs]
  by (cases p) (simp_all add: process_step_def)

lemma drop_watches: "drop_request p sv = (sv', qs) \<Longrightarrow> final_status p \<Longrightarrow> watches sv p sv' qs"
  by (cases p) (auto simp: drop_request_def watches_def)

lemma watched_replace:
  assumes "watched (sv, ps1 @ p # ps2)" "watches sv p sv' qs"
  shows "watched (sv', ps1 @ qs @ ps2)"
  using assms unfolding watched_def watches_def by auto

lemma watched_step:
  assumes "service_step fresh s s'" "watched s"
  shows "watched s'"
  using assms
proof cases
  case (step_request p sv ps)
  then have "finishes p = [] \<and> final_status p" by (cases p) (auto simp: new_request_def)
  then show ?thesis using step_request assms(2) by (simp add: watched_def)
next
  case (step_process c p sv sv' qs ps1 ps2)
  then have w: "watched (sv, ps1 @ p # ps2)" using assms(2) by simp
  then have "final_status p" by (simp add: watched_def)
  then show ?thesis using watched_replace [OF w process_watches [OF step_process(3)]] step_process(2) by simp
next
  case (step_drop p sv sv' qs ps1 ps2)
  then have w: "watched (sv, ps1 @ p # ps2)" using assms(2) by simp
  then have "final_status p" by (simp add: watched_def)
  then show ?thesis using watched_replace [OF w drop_watches [OF step_drop(3)]] step_drop(2) by simp
next
  case (step_cancel i sv sv' r ps)
  then have "sv_db sv' = sv_db sv \<and> sv_lost sv' = sv_lost sv" by (auto simp: cancel_task_def split: if_splits)
  then show ?thesis using step_cancel assms(2) by (simp add: watched_def)
next
  case (step_callback sb sv db r ps)
  then have "wd_tasks db = wd_tasks (sv_db sv)" using receive_tasks by blast
  then show ?thesis using step_callback assms(2) by (simp add: watched_def running_rows_def)
qed (use assms in \<open>simp_all add: watched_def cancel_all_def\<close>)

lemma recovered_rows: "running_rows (recover_interrupted now db) = {}"
  by (auto simp: recover_interrupted_def running_rows_def Let_def split: if_splits)

lemma reached_watched: "service_reached fresh s \<Longrightarrow> watched s"
proof (induction rule: service_reached.induct)
  case (reached_step s s')
  then show ?case using watched_step by blast
qed (simp_all add: watched_def empty_service_def running_rows_def restart_service_def recovered_rows [unfolded running_rows_def])

text \<open>
  C26. A row that says a task is running tells the truth: some process is still going to write its final
  status, unless the worker was lost, by a request dropped after the row was written, a runtime
  that could not be built, or a final status that could not be written.
\<close>

theorem running_rows_are_true:
  assumes "service_reached fresh (sv, ps)" "t \<in> set (wd_tasks (sv_db sv))" "mt_status t = TaskRunning"
  shows "mt_id t \<in> set (sv_lost sv) \<or> (\<exists>p \<in> set ps. finishes p = [mt_id t] \<and> places p = [mt_id t])"
proof -
  have "mt_id t \<in> running_rows (sv_db sv)" using assms(2,3) by (auto simp: running_rows_def)
  then consider "mt_id t \<in> set (sv_lost sv)" | p where "p \<in> set ps" "mt_id t \<in> set (finishes p)"
    using reached_watched [OF assms(1)] by (auto simp: watched_def)
  then show ?thesis
  proof cases
    case 2
    from 2(2) have "finishes p = [mt_id t] \<and> places p = [mt_id t]" by (cases p) auto
    then show ?thesis using 2(1) by blast
  qed simp
qed

end
