(* ===== verification/WebScope.thy ===== *)
theory WebScope
  imports WebTasksProofs
begin

section \<open>Stuck tasks and the scope of scans\<close>

text \<open>
  Two consequences of the order of the steps: what happens to a task whose worker was lost, and
  why a change of the scope of a scan never mixes rows of two scopes in the tables of its job.
\<close>

subsection \<open>Stuck tasks\<close>

text \<open>A process that is past its check of the task.\<close>

fun acts_on :: "utext \<Rightarrow> 'x process \<Rightarrow> bool" where
  "acts_on i (StartChecked t) \<longleftrightarrow> mt_id t = i \<and> mt_status t \<noteq> TaskRunning"
| "acts_on i (DeleteCleanup j) \<longleftrightarrow> j = i"
| "acts_on i (DeleteExecutions j) \<longleftrightarrow> j = i"
| "acts_on i (DeleteRow j) \<longleftrightarrow> j = i"
| "acts_on i (EndpointTasks e js) \<longleftrightarrow> i \<in> set js"
| "acts_on i p \<longleftrightarrow> i \<in> set (places p)"








lemma worker_result_acts [simp]: "acts_on i (worker_result t e r sv) \<longleftrightarrow> mt_id t = i"
  by (auto simp: worker_result_def case_prod_unfold Let_def)











subsection \<open>The scope of a scan\<close>

text \<open>A copy of a row that a process works with: the row has the same scope, or will restart the scan.\<close>

definition row_agrees :: "('s, 'x) service \<Rightarrow> 'x web_task \<Rightarrow> bool" where
  "row_agrees sv t \<longleftrightarrow> mt_id t \<in> set (sv_used sv) \<and>
     (\<forall>r \<in> set (wd_tasks (sv_db sv)). mt_id r = mt_id t \<longrightarrow>
        mt_type r = mt_type t \<and> (mt_type t = ScanTask \<longrightarrow> tc_reset_scan_on_start (mt_config r) \<or> scope_of r = scope_of t))"

definition of_scope :: "('s, 'x) service \<Rightarrow> 'x web_task \<Rightarrow> bool" where
  "of_scope sv t \<longleftrightarrow> mt_type t = ScanTask \<longrightarrow> set (sv_scans sv (mt_id t)) \<subseteq> {scope_of t}"

definition restarts :: "'x web_task \<Rightarrow> bool" where
  "restarts t \<longleftrightarrow> mt_type t = ScanTask \<and> tc_reset_scan_on_start (mt_config t)"

fun copy_ok :: "('s, 'x) service \<Rightarrow> 'x process \<Rightarrow> bool" where
  "copy_ok sv (StartSlot t) \<longleftrightarrow> row_agrees sv t \<and> (restarts t \<or> of_scope sv t)"
| "copy_ok sv (StartPermit t) \<longleftrightarrow> row_agrees sv t \<and> (restarts t \<or> of_scope sv t)"
| "copy_ok sv (StartSaved t e) \<longleftrightarrow> row_agrees sv t \<and> (restarts t \<or> of_scope sv t)"
| "copy_ok sv (StartMarked t e) \<longleftrightarrow> row_agrees sv t \<and> (restarts t \<or> of_scope sv t)"
| "copy_ok sv (WorkerNew t e) \<longleftrightarrow> row_agrees sv t \<and> (restarts t \<or> of_scope sv t)"
| "copy_ok sv (WorkerReset t e) \<longleftrightarrow> row_agrees sv t"
| "copy_ok sv (WorkerCleared t e) \<longleftrightarrow> row_agrees sv t \<and> of_scope sv t"
| "copy_ok sv (WorkerRun t e) \<longleftrightarrow> row_agrees sv t \<and> of_scope sv t"
| "copy_ok sv p \<longleftrightarrow> True"

definition rows_scoped :: "('s, 'x) service \<Rightarrow> bool" where
  "rows_scoped sv \<longleftrightarrow> (\<forall>r \<in> set (wd_tasks (sv_db sv)). mt_id r \<in> set (sv_used sv) \<and> (restarts r \<or> of_scope sv r)) \<and>
     (\<forall>i. i \<notin> set (sv_used sv) \<longrightarrow> sv_scans sv i = [])"

text \<open>A step that keeps the scopes of rows, or marks them, and adds nothing to the tables of scans.\<close>

definition keeps_scopes :: "('s, 'x) service \<Rightarrow> ('s, 'x) service \<Rightarrow> bool" where
  "keeps_scopes sv sv' \<longleftrightarrow> set (sv_used sv) \<subseteq> set (sv_used sv') \<and> (\<forall>i. set (sv_scans sv' i) \<subseteq> set (sv_scans sv i)) \<and>
     (\<forall>r' \<in> set (wd_tasks (sv_db sv')). mt_id r' \<in> set (sv_used sv') \<and>
        (mt_id r' \<in> set (sv_used sv) \<longrightarrow> (\<exists>r \<in> set (wd_tasks (sv_db sv)). mt_id r' = mt_id r \<and> mt_type r' = mt_type r \<and>
           (restarts r \<longrightarrow> restarts r') \<and> (mt_type r = ScanTask \<longrightarrow> scope_of r' = scope_of r \<or> restarts r'))))"

lemma keeps_row_agrees: "keeps_scopes sv sv' \<Longrightarrow> row_agrees sv t \<Longrightarrow> row_agrees sv' t"
  unfolding keeps_scopes_def row_agrees_def restarts_def by (metis (no_types, lifting) subsetD)

lemma keeps_of_scope: "keeps_scopes sv sv' \<Longrightarrow> of_scope sv t \<Longrightarrow> of_scope sv' t"
  unfolding keeps_scopes_def of_scope_def by blast

lemma keeps_copy: "keeps_scopes sv sv' \<Longrightarrow> copy_ok sv p \<Longrightarrow> copy_ok sv' p"
  using keeps_row_agrees [of sv sv'] keeps_of_scope [of sv sv'] by (cases p) (simp_all, blast+)

lemma keeps_rows:
  assumes "keeps_scopes sv sv'" "rows_scoped sv"
  shows "rows_scoped sv'"
proof -
  have "sv_scans sv' i = []" if "i \<notin> set (sv_used sv)" for i
  proof -
    have "sv_scans sv i = []" using assms(2) that by (simp add: rows_scoped_def)
    moreover have "set (sv_scans sv' i) \<subseteq> set (sv_scans sv i)" using assms(1) by (simp add: keeps_scopes_def)
    ultimately show ?thesis by simp
  qed
  note fresh = this
  have "restarts r' \<or> of_scope sv' r'" if r': "r' \<in> set (wd_tasks (sv_db sv'))" for r'
  proof (cases "mt_id r' \<in> set (sv_used sv)")
    case False
    then show ?thesis using fresh by (simp add: of_scope_def)
  next
    case True
    then obtain r where r: "r \<in> set (wd_tasks (sv_db sv))" "mt_id r' = mt_id r" "mt_type r' = mt_type r"
      "restarts r \<longrightarrow> restarts r'" "mt_type r = ScanTask \<longrightarrow> scope_of r' = scope_of r \<or> restarts r'"
      using assms(1) r' by (auto simp: keeps_scopes_def)
    have "restarts r \<or> of_scope sv r" using assms(2) r(1) by (simp add: rows_scoped_def)
    moreover have "of_scope sv' r" if "of_scope sv r" using keeps_of_scope [OF assms(1) that] .
    ultimately show ?thesis using r by (auto simp: of_scope_def)
  qed
  then show ?thesis using assms(1) fresh by (auto simp: rows_scoped_def keeps_scopes_def)
qed

lemma keeps_same:
  assumes "set (wd_tasks (sv_db sv')) \<subseteq> set (wd_tasks (sv_db sv))" "sv_used sv' = sv_used sv"
    "\<And>i. set (sv_scans sv' i) \<subseteq> set (sv_scans sv i)" "rows_scoped sv"
  shows "keeps_scopes sv sv'"
proof -
  have "mt_id r \<in> set (sv_used sv)" if "r \<in> set (wd_tasks (sv_db sv'))" for r
    using that assms(1,4) by (auto simp: rows_scoped_def)
  then show ?thesis using assms(1-3) unfolding keeps_scopes_def by auto
qed

lemma keeps_map:
  assumes "wd_tasks (sv_db sv') = map g (wd_tasks (sv_db sv))" "sv_used sv' = sv_used sv" "sv_scans sv' = sv_scans sv" "rows_scoped sv"
    "\<And>r. r \<in> set (wd_tasks (sv_db sv)) \<Longrightarrow> mt_id (g r) = mt_id r \<and> mt_type (g r) = mt_type r \<and> (restarts r \<longrightarrow> restarts (g r)) \<and>
       (mt_type r = ScanTask \<longrightarrow> scope_of (g r) = scope_of r \<or> restarts (g r))"
  shows "keeps_scopes sv sv'"
  using assms unfolding keeps_scopes_def rows_scoped_def by auto

lemma keeps_status:
  assumes "update_task_status now i s m f (sv_db sv) = Inr db" "rows_scoped sv"
  shows "keeps_scopes sv (sv\<lparr>sv_db := db\<rparr>)"
  by (rule keeps_map [where g = "\<lambda>r. if mt_id r = i then with_status now s m f r else r"])
    (use assms in \<open>auto simp: update_task_status_def restarts_def split: if_splits\<close>)

lemma keeps_refl: "rows_scoped sv \<Longrightarrow> keeps_scopes sv sv"
  by (rule keeps_same) auto

lemma scope_frame [simp]:
  "sv_used (release_permit sv) = sv_used sv" "sv_used (forget_running i sv) = sv_used sv"
  "sv_scans (release_permit sv) = sv_scans sv" "sv_scans (forget_running i sv) = sv_scans sv"
  by (simp_all add: forget_running_def release_permit_def)

text \<open>An update keeps a pending restart, and asks for one when the scope changes.\<close>

lemma update_parts:
  "update_name req t = Inr t' \<Longrightarrow> mt_id t' = mt_id t \<and> mt_type t' = mt_type t \<and> restarts t' = restarts t"
  "update_source req sv t = Inr t' \<Longrightarrow> mt_id t' = mt_id t \<and> mt_type t' = mt_type t \<and> restarts t' = restarts t"
  "update_source_path req sv t = Inr t' \<Longrightarrow> mt_id t' = mt_id t \<and> mt_type t' = mt_type t \<and> restarts t' = restarts t"
  "update_config req t = Inr t' \<Longrightarrow> mt_id t' = mt_id t \<and> mt_type t' = mt_type t \<and> restarts t' = restarts t"
  by (auto simp: update_name_def update_source_def update_source_path_def update_config_def restarts_def
      split: option.splits if_splits)

lemma apply_update_scope:
  assumes "apply_update req old sv = Inr t"
  shows "mt_id t = mt_id old" "mt_type t = mt_type old" "restarts old \<Longrightarrow> restarts t"
    "mt_type old = ScanTask \<Longrightarrow> scope_of t = scope_of old \<or> restarts t"
proof -
  obtain t1 t2 t3 t4 where u: "update_name req old = Inr t1" "update_source req sv t1 = Inr t2"
    "update_source_path req sv t2 = Inr t3" "update_config req t3 = Inr t4" and t: "t = request_reset old t4"
    using assms by (auto simp: apply_update_def split: sum.splits)
  have t4: "mt_id t4 = mt_id old" "mt_type t4 = mt_type old" "restarts t4 = restarts old"
    using update_parts(1) [OF u(1)] update_parts(2) [OF u(2)] update_parts(3) [OF u(3)] update_parts(4) [OF u(4)]
    by simp_all
  show "mt_id t = mt_id old" "mt_type t = mt_type old" "restarts old \<Longrightarrow> restarts t"
    "mt_type old = ScanTask \<Longrightarrow> scope_of t = scope_of old \<or> restarts t"
    using t4 by (auto simp: t request_reset_def restarts_def)
qed

lemma keeps_update:
  assumes "apply_update req old sv = Inr t" "update_task_row t (sv_db sv) = Inr db" "rows_scoped sv"
    "filter (\<lambda>r. mt_id r = mt_id old) (wd_tasks (sv_db sv)) = [old]"
  shows "keeps_scopes sv (sv\<lparr>sv_db := db\<rparr>)"
proof (rule keeps_map [where g = "\<lambda>r. if mt_id r = mt_id t then with_settings t r else r"])
  fix r assume r: "r \<in> set (wd_tasks (sv_db sv))"
  have "r = old" if "mt_id r = mt_id old"
  proof -
    have "r \<in> set (filter (\<lambda>r. mt_id r = mt_id old) (wd_tasks (sv_db sv)))" using r that by simp
    then show ?thesis using assms(4) by simp
  qed
  moreover have "restarts (with_settings t old) = restarts t"
    using apply_update_scope(2) [OF assms(1)] by (simp add: restarts_def)
  ultimately show "mt_id (if mt_id r = mt_id t then with_settings t r else r) = mt_id r \<and>
      mt_type (if mt_id r = mt_id t then with_settings t r else r) = mt_type r \<and>
      (restarts r \<longrightarrow> restarts (if mt_id r = mt_id t then with_settings t r else r)) \<and>
      (mt_type r = ScanTask \<longrightarrow> scope_of (if mt_id r = mt_id t then with_settings t r else r) = scope_of r \<or>
         restarts (if mt_id r = mt_id t then with_settings t r else r))"
    using apply_update_scope [OF assms(1)] by auto
qed (use assms in \<open>auto simp: update_task_row_def split: if_splits\<close>)

lemma keeps_create:
  assumes "save_task t (sv_db sv) = Some db" "mt_id t = i" "i \<notin> set (sv_used sv)" "rows_scoped sv"
  shows "keeps_scopes sv (sv\<lparr>sv_db := db, sv_used := i # sv_used sv\<rparr>)"
  using assms by (auto simp: save_task_def keeps_scopes_def rows_scoped_def split: if_splits)


lemma keeps_delete:
  assumes "delete_task_row i (sv_db sv) = Inr db" "rows_scoped sv"
  shows "keeps_scopes sv (sv\<lparr>sv_db := db\<rparr>)"
  by (rule keeps_same) (use assms in \<open>auto simp: delete_task_row_def split: if_splits\<close>)

lemma keeps_others:
  assumes "rows_scoped sv"
  shows "save_execution e (sv_db sv) = Some db \<Longrightarrow> keeps_scopes sv (sv\<lparr>sv_db := db\<rparr>)"
    "update_execution_status now k st s m f (sv_db sv) = Inr db \<Longrightarrow> keeps_scopes sv (sv\<lparr>sv_db := db\<rparr>)"
    "delete_execution k (sv_db sv) = Inr db \<Longrightarrow> keeps_scopes sv (sv\<lparr>sv_db := db\<rparr>)"
    "keeps_scopes sv (sv\<lparr>sv_db := delete_executions k (sv_db sv)\<rparr>)"
  by (rule keeps_same; use assms in \<open>auto simp: save_execution_def update_execution_status_def delete_execution_def
      delete_executions_def split: if_splits\<close>)+

lemma keeps_plain:
  assumes "rows_scoped sv"
  shows "keeps_scopes sv (sv\<lparr>sv_running := rs\<rparr>)" "keeps_scopes sv (sv\<lparr>sv_permits := n\<rparr>)" "keeps_scopes sv (release_permit sv)"
    "keeps_scopes sv (forget_running i sv)" "keeps_scopes sv (sv\<lparr>sv_lost := l\<rparr>)" "keeps_scopes sv sv"
    "keeps_scopes sv (sv\<lparr>sv_scans := (sv_scans sv)(i := [])\<rparr>)"
    "keeps_scopes sv (sv\<lparr>sv_endpoints := es\<rparr>)" "keeps_scopes sv (sv\<lparr>sv_endpoints := es, sv_paths := qs\<rparr>)"
  by (rule keeps_same; use assms in simp)+


lemma read_copy:
  assumes "filter (\<lambda>r. mt_id r = mt_id t) (wd_tasks (sv_db sv)) = [t]" "rows_scoped sv"
  shows "copy_ok sv (StartSlot t)"
proof -
  have t: "t \<in> set (wd_tasks (sv_db sv))" using assms(1) by (metis filter_is_subset list.set_intros(1) subsetD)
  have "r = t" if "r \<in> set (wd_tasks (sv_db sv))" "mt_id r = mt_id t" for r
  proof -
    have "r \<in> set (filter (\<lambda>r. mt_id r = mt_id t) (wd_tasks (sv_db sv)))" using that by simp
    then show ?thesis using assms(1) by simp
  qed
  then show ?thesis using t assms(2) by (auto simp: row_agrees_def rows_scoped_def)
qed

lemma worker_result_copy [simp]: "copy_ok sv (worker_result t e r sv')"
  by (simp add: worker_result_def case_prod_unfold Let_def)

lemma start_scopes:
  assumes "start_step c p sv = (sv', qs)" "rows_scoped sv" "copy_ok sv p" "still_read p sv"
  shows "keeps_scopes sv sv' \<and> (\<forall>q \<in> set qs. copy_ok sv q)"
proof (cases p)
  case (StartChecked t)
  then have "copy_ok sv (StartSlot t)" using read_copy assms(2,4) by (simp add: still_read_def)
  then show ?thesis
    using StartChecked assms(1) keeps_plain [OF assms(2)] by (auto simp: start_step_def simp del: copy_ok.simps(1) split: if_splits)
qed (use assms in \<open>auto simp: start_step_def intro: keeps_refl keeps_status [OF _ assms(2)] keeps_plain [OF assms(2)] keeps_others [OF assms(2)]
    split: if_splits option.splits sum.splits\<close>)

definition writes_scope :: "'x process \<Rightarrow> bool" where
  "writes_scope p \<longleftrightarrow> (case p of WorkerCleared t e \<Rightarrow> True | WorkerRun t e \<Rightarrow> True | _ \<Rightarrow> False)"

lemma worker_scopes:
  assumes "worker_step c p sv = (sv', qs)" "rows_scoped sv" "copy_ok sv p" "\<not> writes_scope p"
  shows "keeps_scopes sv sv' \<and> (\<forall>q \<in> set qs. copy_ok sv' q)"
proof (cases p)
  case (WorkerReset t e)
  have k: "keeps_scopes sv (sv\<lparr>sv_scans := (sv_scans sv)(mt_id t := [])\<rparr>)" using keeps_plain(7) [OF assms(2)] .
  have "copy_ok (sv\<lparr>sv_scans := (sv_scans sv)(mt_id t := [])\<rparr>) (WorkerCleared t e)"
    using keeps_row_agrees [OF k] assms(3) by (simp add: WorkerReset of_scope_def)
  then show ?thesis
    using k keeps_plain(6) [OF assms(2)] assms(1) WorkerReset
    by (auto simp: worker_step_def Let_def simp del: copy_ok.simps(7) split: if_splits)
next
  case (WorkerNew t e)
  then show ?thesis
    using assms keeps_plain(5,6) [OF assms(2)]
    by (auto simp: worker_step_def restarts_def split: if_splits)
next
  case (WorkerMark i e s m f)
  then show ?thesis
    using assms keeps_status [OF _ assms(2)] keeps_plain(5) [OF assms(2)] by (auto simp: worker_step_def split: if_splits sum.splits)
next
  case (WorkerNote i e s m f)
  then show ?thesis
    using assms keeps_others(2) [OF assms(2)] keeps_plain(6) [OF assms(2)] by (auto simp: worker_step_def split: if_splits sum.splits)
qed (use assms keeps_plain(3,4,6) [OF assms(2)] in \<open>auto simp: worker_step_def writes_scope_def\<close>)

lemma request_scopes:
  assumes "request_step c p sv = (sv', qs)" "rows_scoped sv" "still_read p sv" "ch_id c \<notin> set (sv_used sv)"
    "\<not> (\<exists>t. p = StartChecked t)" "copy_ok sv p"
  shows "keeps_scopes sv sv' \<and> (\<forall>q \<in> set qs. copy_ok sv q)"
proof (cases p)
  case (EndpointTasks e js)
  then show ?thesis
    using assms(1) keeps_plain [OF assms(2)] keeps_delete [OF _ assms(2)]
    by (cases js) (auto simp: request_steps Let_def split: if_splits option.splits sum.splits)
next
  case (CreateTask req)
  then show ?thesis
    using assms(1,4) keeps_plain(6) [OF assms(2)] keeps_create [OF _ _ _ assms(2)]
    by (auto simp: request_steps Let_def created_task_simps split: if_splits option.splits sum.splits)
next
  case (UpdateWrite old req)
  then have r: "filter (\<lambda>r. mt_id r = mt_id old) (wd_tasks (sv_db sv)) = [old]" using assms(3) by (simp add: still_read_def)
  show ?thesis
    using UpdateWrite assms(1) keeps_plain(6) [OF assms(2)] keeps_update [OF _ _ assms(2) r]
    by (auto simp: request_steps Let_def split: if_splits option.splits sum.splits)
qed (use assms(1,6) keeps_plain(6,7) [OF assms(2)] keeps_others [OF assms(2)] keeps_delete [OF _ assms(2)] in
    \<open>auto simp: request_steps Let_def split: if_splits option.splits sum.splits\<close>)

text \<open>What the two writing steps do to a process that holds another place.\<close>

lemma other_copy:
  assumes "places p \<noteq> [i]" "copy_ok sv p" "sv_used sv' = sv_used sv" "\<And>j. j \<noteq> i \<Longrightarrow> sv_scans sv' j = sv_scans sv j"
    "{r \<in> set (wd_tasks (sv_db sv')). mt_id r \<noteq> i} = {r \<in> set (wd_tasks (sv_db sv)). mt_id r \<noteq> i}"
  shows "copy_ok sv' p"
proof -
  have "row_agrees sv' t" if "row_agrees sv t" "mt_id t \<noteq> i" for t
  proof -
    have "r \<in> set (wd_tasks (sv_db sv))" if "r \<in> set (wd_tasks (sv_db sv'))" "mt_id r = mt_id t" for r
    proof -
      have "r \<in> {r \<in> set (wd_tasks (sv_db sv')). mt_id r \<noteq> i}" using that \<open>mt_id t \<noteq> i\<close> by simp
      then show ?thesis unfolding assms(5) by simp
    qed
    then show ?thesis using that assms(3) unfolding row_agrees_def by auto
  qed
  moreover have "of_scope sv' t \<longleftrightarrow> of_scope sv t" if "mt_id t \<noteq> i" for t
    using assms(4) [OF that] by (simp add: of_scope_def)
  ultimately have "row_agrees sv t \<Longrightarrow> mt_id t \<noteq> i \<Longrightarrow> row_agrees sv' t" "mt_id t \<noteq> i \<Longrightarrow> of_scope sv t \<Longrightarrow> of_scope sv' t" for t
    by blast+
  note keep = this
  show ?thesis using assms(1,2) keep by (cases p) auto
qed

lemma cleared_scopes:
  assumes "update_task_row (clear_scan_reset t) (sv_db sv) = Inr db" "rows_scoped sv" "copy_ok sv (WorkerCleared t e)"
  shows "rows_scoped (sv\<lparr>sv_db := db\<rparr>) \<and> copy_ok (sv\<lparr>sv_db := db\<rparr>) (WorkerRun t e) \<and>
    {r \<in> set (wd_tasks db). mt_id r \<noteq> mt_id t} = {r \<in> set (wd_tasks (sv_db sv)). mt_id r \<noteq> mt_id t}"
proof -
  define t' where "t' = clear_scan_reset t"
  have t': "mt_id t' = mt_id t" "scope_of t' = scope_of t" by (simp_all add: t'_def clear_scan_reset_def scope_of_def)
  have db: "wd_tasks db = map (\<lambda>r. if mt_id r = mt_id t then with_settings t' r else r) (wd_tasks (sv_db sv))"
    using assms(1) by (auto simp: update_task_row_def t'_def clear_scan_reset_def split: if_splits)
  have ok: "row_agrees sv t" "of_scope sv t" using assms(3) by simp_all
  have same: "of_scope sv (with_settings t' r)" if "r \<in> set (wd_tasks (sv_db sv))" "mt_id r = mt_id t" for r
    using ok that t' by (auto simp: row_agrees_def of_scope_def)
  have scoped: "of_scope (sv\<lparr>sv_db := db\<rparr>) r \<longleftrightarrow> of_scope sv r" for r by (simp add: of_scope_def)
  have "rows_scoped (sv\<lparr>sv_db := db\<rparr>)"
    using assms(2) same scoped by (auto simp: rows_scoped_def db)
  moreover have "row_agrees (sv\<lparr>sv_db := db\<rparr>) t"
    using ok(1) t' by (auto simp: row_agrees_def db)
  ultimately show ?thesis using ok(2) scoped by (auto simp: db)
qed

lemma run_scopes:
  fixes t :: "'x web_task"
  assumes "rows_scoped sv" "copy_ok sv (WorkerRun t e)" "mt_type t = ScanTask"
  shows "rows_scoped (sv\<lparr>sv_scans := (sv_scans sv)(mt_id t := scope_of t # sv_scans sv (mt_id t))\<rparr>)" (is "rows_scoped ?sv'")
proof -
  have ok: "row_agrees sv t" "of_scope sv t" using assms(2) by simp_all
  have "restarts r \<or> of_scope ?sv' r" if "r \<in> set (wd_tasks (sv_db sv))" for r
  proof (cases "mt_id r = mt_id t")
    case True
    then have "restarts r \<or> scope_of r = scope_of t" using ok(1) that assms(3) by (auto simp: row_agrees_def restarts_def)
    then show ?thesis using True ok(2) assms(3) by (auto simp: of_scope_def)
  next
    case False
    then show ?thesis using assms(1) that by (auto simp: rows_scoped_def of_scope_def)
  qed
  then show ?thesis using assms(1) ok(1) by (auto simp: rows_scoped_def row_agrees_def)
qed

definition scoped :: "('s, 'x) service \<times> 'x process list \<Rightarrow> bool" where
  "scoped s \<longleftrightarrow> (case s of (sv, ps) \<Rightarrow> rows_scoped sv \<and> (\<forall>p \<in> set ps. copy_ok sv p))"

lemma scoped_keeps:
  assumes "scoped (sv, ps1 @ p # ps2)" "keeps_scopes sv sv'" "\<forall>q \<in> set qs. copy_ok sv' q"
  shows "scoped (sv', ps1 @ qs @ ps2)"
  using assms keeps_rows [OF assms(2)] keeps_copy [OF assms(2)] by (auto simp: scoped_def)

lemma scoped_frame: "keeps_scopes sv sv' \<Longrightarrow> scoped (sv, ps) \<Longrightarrow> scoped (sv', ps)"
  using keeps_rows [of sv sv'] keeps_copy [of sv sv'] by (auto simp: scoped_def)

lemma balanced_distinct:
  assumes "balanced (sv, ps)"
  shows "distinct (concat (map places ps))"
proof -
  have "mset (running_ids sv) = mset (concat (map places ps))" "distinct (running_ids sv)"
    using assms by (simp_all add: balanced_def all_places_def)
  then show ?thesis using mset_eq_imp_distinct_iff by blast
qed

text \<open>The two steps that write what a process has in hand; no other process holds its place.\<close>

lemma scoped_writes:
  assumes "worker_step c p sv = (sv', qs)" "writes_scope p" "scoped (sv, ps1 @ p # ps2)" "balanced (sv, ps1 @ p # ps2)"
  shows "scoped (sv', ps1 @ qs @ ps2)"
proof -
  have ok: "rows_scoped sv" "copy_ok sv p" "\<forall>q \<in> set (ps1 @ ps2). copy_ok sv q" using assms(3) by (auto simp: scoped_def)
  have same: "scoped (sv, ps1 @ [worker_result t e r sv] @ ps2)" for t e r
    using ok by (auto simp: scoped_def)
  have "distinct (concat (map places (ps1 @ p # ps2)))"
    using balanced_distinct [OF assms(4)] .
  note dist = this
  have apart: "places q \<noteq> [i]" if "q \<in> set (ps1 @ ps2)" "places p = [i]" for q i
  proof
    assume "places q = [i]"
    then have "i \<in> set (concat (map places (ps1 @ ps2)))" using that(1) by force
    moreover have "set (places p) \<inter> set (concat (map places (ps1 @ ps2))) = {}"
      using dist by auto
    ultimately show False using that(2) by auto
  qed
  have result: "scoped (sv', ps1 @ [q] @ ps2)"
    if "places p = [i]" "rows_scoped sv'" "copy_ok sv' q" "sv_used sv' = sv_used sv"
      "\<And>j. j \<noteq> i \<Longrightarrow> sv_scans sv' j = sv_scans sv j"
      "{r \<in> set (wd_tasks (sv_db sv')). mt_id r \<noteq> i} = {r \<in> set (wd_tasks (sv_db sv)). mt_id r \<noteq> i}" for i q
    using that(2,3) other_copy [OF apart [OF _ that(1)] _ that(4,5,6)] ok(3) by (auto simp: scoped_def)
  show ?thesis
  proof (cases p)
    case (WorkerCleared t e)
    show ?thesis
    proof (cases "if ch_ok c then update_task_row (clear_scan_reset t) (sv_db sv) else Inl WebDatabaseError")
      case (Inl err)
      then show ?thesis using assms(1) same WorkerCleared by (auto simp: worker_step_def)
    next
      case (Inr db)
      then have "update_task_row (clear_scan_reset t) (sv_db sv) = Inr db" by (simp split: if_splits)
      note new = cleared_scopes [OF this ok(1), of e]
      have "sv' = sv\<lparr>sv_db := db\<rparr>" "qs = [WorkerRun t e]" using assms(1) Inr WorkerCleared by (auto simp: worker_step_def)
      then show ?thesis using result [of "mt_id t" "WorkerRun t e"] new ok(2) WorkerCleared by auto
    qed
  next
    case (WorkerRun t e)
    show ?thesis
    proof (cases "mt_type t = ScanTask \<and> ch_tables c")
      case False
      then have "sv' = sv \<and> qs = [worker_result t e (ch_run c) sv]"
        using assms(1) unfolding WorkerRun worker_step_def process.case if_not_P [OF False] by auto
      then show ?thesis using same by simp
    next
      case True
      then have "sv' = sv\<lparr>sv_scans := (sv_scans sv)(mt_id t := scope_of t # sv_scans sv (mt_id t))\<rparr>"
        "qs = [worker_result t e (ch_run c) sv]"
        using assms(1) WorkerRun by (auto simp: worker_step_def)
      then show ?thesis using result [of "mt_id t"] run_scopes [OF ok(1), of t e] ok(2) True WorkerRun by auto
    qed
  qed (use assms(2) in \<open>simp_all add: writes_scope_def\<close>)
qed

lemma scoped_step:
  assumes "service_step True s s'" "scoped s" "balanced s"
  shows "scoped s'"
  using assms
proof cases
  case (step_request p sv ps)
  then have "copy_ok sv p" by (cases p) (auto simp: new_request_def)
  then show ?thesis using step_request assms(2) by (simp add: scoped_def)
next
  case (step_process c p sv sv' qs ps1 ps2)
  then have s: "scoped (sv, ps1 @ p # ps2)" and b: "balanced (sv, ps1 @ p # ps2)" using assms(2,3) by simp_all
  then have ok: "rows_scoped sv" "copy_ok sv p" by (simp_all add: scoped_def)
  note steps = start_scopes [OF _ ok] worker_scopes [OF _ ok] request_scopes [OF _ ok(1) _ step_process(5) _ ok(2)]
  have read: "still_read p sv" using step_process(4) by simp
  have "scoped (sv', ps1 @ qs @ ps2)"
  proof (cases "writes_scope p")
    case True
    then have "worker_step c p sv = (sv', qs)" using step_process(3) by (cases p) (simp_all add: writes_scope_def process_step_def)
    then show ?thesis using scoped_writes [OF _ True s b] by blast
  next
    case False
    consider "start_step c p sv = (sv', qs)" | "worker_step c p sv = (sv', qs)"
      | "request_step c p sv = (sv', qs)" "\<not> (\<exists>t. p = StartChecked t)"
      using step_process(3) by (cases p) (simp_all add: process_step_def)
    then have "keeps_scopes sv sv' \<and> (\<forall>q \<in> set qs. copy_ok sv' q)"
    proof cases
      case 1
      then show ?thesis using steps(1) [OF _ read] keeps_copy by blast
    next
      case 2
      then show ?thesis using steps(2) [OF _ False] by blast
    next
      case 3
      then show ?thesis using steps(3) [OF _ read] keeps_copy by blast
    qed
    then show ?thesis using scoped_keeps [OF s] by blast
  qed
  then show ?thesis using step_process(2) by simp
next
  case (step_drop p sv sv' qs ps1 ps2)
  then have s: "scoped (sv, ps1 @ p # ps2)" using assms(2) by simp
  then have ok: "rows_scoped sv" "copy_ok sv p" by (simp_all add: scoped_def)
  have k: "keeps_scopes sv sv'"
    by (rule keeps_same) (use step_drop(3) ok(1) in \<open>auto simp: drop_request_def release_permit_def split: process.splits\<close>)
  have "\<forall>q \<in> set qs. copy_ok sv q" using step_drop(3) ok(2) by (cases p) (auto simp: drop_request_def)
  then show ?thesis using scoped_keeps [OF s k] keeps_copy [OF k] step_drop(2) by simp
next
  case (step_cancel i sv sv' r ps)
  then have "keeps_scopes sv sv'"
    using assms(2) by (intro keeps_same) (auto simp: cancel_task_def scoped_def split: if_splits)
  then show ?thesis using scoped_frame step_cancel assms(2) by blast
next
  case (step_shutdown sv ps)
  then have "keeps_scopes sv (cancel_all sv)"
    using assms(2) by (intro keeps_same) (auto simp: cancel_all_def scoped_def)
  then show ?thesis using scoped_frame step_shutdown assms(2) by blast
next
  case (step_callback sb sv db r ps)
  then have "keeps_scopes sv (sv\<lparr>sv_db := db\<rparr>)"
    using assms(2) receive_tasks by (intro keeps_same) (fastforce simp: scoped_def)+
  then show ?thesis using scoped_frame step_callback assms(2) by blast
next
  case (step_parts sv ps qs es)
  then have "keeps_scopes sv (sv\<lparr>sv_endpoints := es, sv_paths := qs\<rparr>)"
    using assms(2) keeps_plain(9) by (auto simp: scoped_def)
  then show ?thesis using scoped_frame step_parts assms(2) by blast
qed

lemma reached_scoped: "service_reached True s \<Longrightarrow> scoped s"
proof (induction rule: service_reached.induct)
  case (reached_step s s')
  then show ?case using scoped_step reached_balanced by blast
next
  case (reached_restart sv ps now)
  have "keeps_scopes sv (restart_service now sv)"
    by (rule keeps_map [where g = "\<lambda>t. if mt_status t = TaskRunning
          then t\<lparr>mt_status := (if mt_type t = ScanTask then TaskCancelled else TaskFailed), mt_finished_at := Some now,
            mt_error := Some restart_message\<rparr> else t"])
      (use reached_restart(2) in \<open>auto simp: restart_service_def recover_interrupted_def Let_def scoped_def restarts_def scope_of_def\<close>)
  then show ?case using keeps_rows reached_restart(2) by (auto simp: scoped_def)
qed (simp add: scoped_def rows_scoped_def empty_service_def)

text \<open>
  C25. As long as no request acts on a row that has changed since it was read, a scan that runs finds in
  its tables only rows of scans with its own scope, and a task that would not start over has
  tables of the scope it states: changes of source, depth or filters never mix two scopes.
\<close>

theorem scans_keep_their_scope:
  assumes "service_reached True (sv, ps)"
  shows "(\<forall>t e. WorkerRun t e \<in> set ps \<and> mt_type t = ScanTask \<longrightarrow> set (sv_scans sv (mt_id t)) \<subseteq> {scope_of t}) \<and>
    (\<forall>t \<in> set (wd_tasks (sv_db sv)). mt_type t = ScanTask \<and> \<not> tc_reset_scan_on_start (mt_config t) \<longrightarrow>
       set (sv_scans sv (mt_id t)) \<subseteq> {scope_of t})"
  using reached_scoped [OF assms] by (fastforce simp: scoped_def rows_scoped_def of_scope_def restarts_def)

subsection \<open>A run\<close>

text \<open>A task is created, started, and run by its worker; each choice names the process that steps.\<close>

fun run_choices :: "(nat \<times> 'x choice) list \<Rightarrow> ('s, 'x) service \<times> 'x process list \<Rightarrow> ('s, 'x) service \<times> 'x process list" where
  "run_choices [] s = s"
| "run_choices ((n, c) # cs) (sv, ps) =
     (let (sv', qs) = process_step c (ps ! n) sv in run_choices cs (sv', take n ps @ qs @ drop (Suc n) ps))"

fun choices_ok :: "(nat \<times> 'x choice) list \<Rightarrow> ('s, 'x) service \<times> 'x process list \<Rightarrow> bool" where
  "choices_ok [] s \<longleftrightarrow> True"
| "choices_ok ((n, c) # cs) (sv, ps) \<longleftrightarrow> n < length ps \<and> still_read (ps ! n) sv \<and> ch_id c \<notin> set (sv_used sv) \<and>
     (let (sv', qs) = process_step c (ps ! n) sv in choices_ok cs (sv', take n ps @ qs @ drop (Suc n) ps))"

lemma run_reached: "service_reached fresh s \<Longrightarrow> choices_ok cs s \<Longrightarrow> service_reached fresh (run_choices cs s)"
proof (induction cs s rule: run_choices.induct)
  case (2 n c cs sv ps)
  obtain sv' qs where step: "process_step c (ps ! n) sv = (sv', qs)" by fastforce
  have ok: "n < length ps" "still_read (ps ! n) sv" "ch_id c \<notin> set (sv_used sv)"
    "choices_ok cs (sv', take n ps @ qs @ drop (Suc n) ps)"
    using 2(3) step by auto
  have "service_step fresh (sv, take n ps @ (ps ! n) # drop (Suc n) ps) (sv', take n ps @ qs @ drop (Suc n) ps)"
    using step ok(2,3) by (intro step_process) auto
  then have "service_step fresh (sv, ps) (sv', take n ps @ qs @ drop (Suc n) ps)"
    using id_take_nth_drop [OF ok(1)] by simp
  then show ?case using 2(1) [OF step [symmetric] refl] reached_step [OF 2(2)] ok(4) step by simp
qed simp

definition demo_choice :: "unit choice" where
  "demo_choice = \<lparr>ch_ok = True, ch_now = 1, ch_id = [120], ch_incremental = Some False, ch_tables = True, ch_run = RunOk\<rparr>"

definition demo_request :: create_request where
  "demo_request = \<lparr>cr_name = [110], cr_type = ScanTask, cr_source_endpoint = [101], cr_source_path = None, cr_dest_endpoint = None,
     cr_dest_path = None, cr_config = mt_config toy_task\<rparr>"

definition demo_start :: "(unit, unit) service \<times> unit process list" where
  "demo_start = (empty_service\<lparr>sv_endpoints := [[101]], sv_paths := []\<rparr>, [CreateTask demo_request, StartRead [116]])"

definition demo_choices :: "nat \<Rightarrow> (nat \<times> unit choice) list" where
  "demo_choices n = (0, demo_choice\<lparr>ch_id := [116]\<rparr>) # replicate n (1, demo_choice)"

definition demo :: "nat \<Rightarrow> (unit, unit) service \<times> unit process list" where
  "demo n = run_choices (demo_choices n) demo_start"

lemma demo_start_reached: "service_reached fresh demo_start"
proof -
  have "service_step fresh (empty_service, []) (empty_service\<lparr>sv_endpoints := [[101]], sv_paths := []\<rparr>, [] :: unit process list)"
    by (rule step_parts)
  moreover have "service_step fresh (sv, ps) (sv, ps @ [CreateTask demo_request])" for sv :: "(unit, unit) service" and ps
    by (rule step_request) (simp add: new_request_def)
  moreover have "service_step fresh (sv, ps) (sv, ps @ [StartRead [116]])" for sv :: "(unit, unit) service" and ps
    by (rule step_request) (simp add: new_request_def)
  ultimately show ?thesis
    unfolding demo_start_def using reached_step reached_start by (metis append_Cons append_Nil)
qed

lemma demo_ok: "choices_ok (demo_choices 8) demo_start" "choices_ok (demo_choices 7) demo_start" "choices_ok (demo_choices 5) demo_start"
  by code_simp+

lemma demo_reached: "service_reached fresh (demo 8)" "service_reached fresh (demo 7)" "service_reached fresh (demo 5)"
  unfolding demo_def by (rule run_reached [OF demo_start_reached demo_ok(1)] run_reached [OF demo_start_reached demo_ok(2)]
    run_reached [OF demo_start_reached demo_ok(3)])+

lemma one_worker_per_task_witness:
  "length (filter is_worker (snd (demo 7))) = 1 \<and> map fst (sv_running (fst (demo 7))) = [[116]] \<and>
   distinct (concat (map places (snd (demo 7))))"
proof -
  have "length (filter is_worker (snd (demo 7))) = 1" "map fst (sv_running (fst (demo 7))) = [[116]]" by code_simp+
  then show ?thesis
    using one_worker_per_task [of False "fst (demo 7)" "snd (demo 7)"] demo_reached(2) [of False] by simp
qed

lemma running_rows_are_true_witness:
  "\<exists>t \<in> set (wd_tasks (sv_db (fst (demo 7)))). mt_status t = TaskRunning \<and>
     (\<exists>p \<in> set (snd (demo 7)). finishes p = [mt_id t] \<and> places p = [mt_id t])"
proof -
  have "list_ex (\<lambda>t. mt_status t = TaskRunning) (wd_tasks (sv_db (fst (demo 7))))" "sv_lost (fst (demo 7)) = []" by code_simp+
  then obtain t where t: "t \<in> set (wd_tasks (sv_db (fst (demo 7))))" "mt_status t = TaskRunning" and
    lost: "sv_lost (fst (demo 7)) = []" by (auto simp: list_ex_iff)
  have "service_reached False (fst (demo 7), snd (demo 7))" using demo_reached(2) by simp
  from running_rows_are_true [OF this t] show ?thesis using t lost by auto
qed






lemma scans_keep_their_scope_witness:
  "sv_scans (fst (demo 8)) [116] \<noteq> [] \<and>
   list_all (\<lambda>t. set (sv_scans (fst (demo 8)) (mt_id t)) \<subseteq> {scope_of t}) (wd_tasks (sv_db (fst (demo 8))))"
proof -
  have "sv_scans (fst (demo 8)) [116] \<noteq> []" by code_simp
  moreover have "list_all (\<lambda>t. mt_type t = ScanTask \<and> \<not> tc_reset_scan_on_start (mt_config t)) (wd_tasks (sv_db (fst (demo 8))))"
    by code_simp
  ultimately show ?thesis
    using scans_keep_their_scope [of "fst (demo 8)" "snd (demo 8)"] demo_reached(1) [of True] by (simp add: list_all_iff)
qed

end
