(* ===== verification/Spec2Isabelle.thy ===== *)
theory Spec2Isabelle
  imports Reconstruct ByteResume EndToEnd FinalCrash LicenseProofs ScanOnce CallbackLink WebScope
begin

section \<open>TerraSync: the verified parts and how they fit together\<close>

text \<open>
  TerraSync scans file trees and object stores into a catalogue (ClickHouse), compares every
  round with the previous generation, and copies what changed, either within one process or
  between a sender and a receiver connected by QUIC. This development models the code that
  decides what is transferred, what is written, what is deleted and what may be skipped after
  an interruption. Every definition follows a function under \<open>src/crates\<close>, branch by branch;
  storage back ends, the network, the SQL engine, BLAKE3 and the crates data-mover and
  data-mover-model are parameters of the definitions that use them, with what the code relies
  on as hypotheses of the theorems.

  A copy between two hosts runs through these parts. The source traversal is cut into
  directory pages whose entries carry session-wide indices (\<open>Inventory\<close>). The receiver
  compares a page with its own directory (\<open>DestIndex\<close>), deletes what no source entry claims
  if asked to, and requests files by index (\<open>ReceiverSession\<close>), in full or with the block
  signatures of its own copy (\<open>Signature\<close>). The sender answers (\<open>SenderSession\<close>) with
  payload chunks or with delta tokens of the matcher (\<open>Rolling\<close>, \<open>Matcher\<close>), paying bytes
  of credit (\<open>FlowControl\<close>) for both. The receiver session passes them to its disk-commit
  task (\<open>DiskCommit\<close>), which turns tokens back into bytes (\<open>Reconstruct\<close>), writes, verifies
  and publishes the file (\<open>FileCommit\<close>) and reports one outcome per index. A large file keeps
  the byte ranges it has committed across restarts (\<open>ByteResume\<close>). A scan turns observations
  into rows (\<open>Observation\<close>, \<open>ScanRows\<close>), compares them with the catalogue (\<open>ScanCompare\<close>)
  and at the end of a round decides which entries are new, renamed or deleted (\<open>FinalEvents\<close>).
  What it has acknowledged is sealed as snapshots with a manifest (\<open>ScanStore\<close>), so that an
  execution (\<open>ScanPipeline\<close>, \<open>ScanRun\<close>) goes on where the last one was cut short, and the new
  generation appears at once or not at all.

  The web application keeps tasks in SQLite (\<open>WebStore\<close>), runs each in a worker (\<open>WebTasks\<close>) and
  receives reports and diagnostics by callbacks (\<open>CallbackReceipt\<close>) from the outbox of the
  running scan (\<open>Outbox\<close>). A licence decides whether anything runs (\<open>License\<close>).
\<close>

subsection \<open>Theories and sources\<close>

text \<open>
  \<^item> \<open>Prelude\<close>: word types, hint collections, lists in blocks, options and sums.
  \<^item> \<open>Streaming\<close>: the locale \<open>chunked_consumer\<close> of routines that consume a file in chunks; its law
    (a chunk may be split anywhere) gives independence of the chunking once. Interpreted in
    \<open>Signature\<close> and \<open>Matcher\<close>.
  \<^item> \<open>Rolling\<close>, \<open>Signature\<close>, \<open>Matcher\<close>, \<open>Reconstruct\<close>: \<open>crates/sync-delta/src\<close>, one theory per
    file. The rolling sums are 32-bit words; the lemmas show that no addition overflows and
    that the constant-time update agrees with recomputing. The end result is
    \<open>Reconstruct.delta_roundtrip\<close>.
  \<^item> \<open>Observation\<close>: \<open>crates/task-model/src\<close>. The opaque observed entry is an abstract type
    with the record of accessors \<open>data_model\<close>.
  \<^item> \<open>Messages\<close>, \<open>DestIndex\<close>, \<open>FlowControl\<close>: \<open>crates/transport/src\<close> (\<open>message.rs\<close>, \<open>chunk.rs\<close>,
    \<open>directory.rs\<close>, \<open>flow_control.rs\<close>). A connection with its credit is a step relation; the
    conservation law is an invariant by rule induction; the locale \<open>credit_window\<close> holds what any
    ledger with delayed grants keeps.
  \<^item> \<open>ByteResume\<close>: \<open>crates/app/src/byte_resume.rs\<close>, the interval set and the store with its
    state file.
  \<^item> \<open>FileCommit\<close>, \<open>DiskCommit\<close>: \<open>crates/app/src/file_commit.rs\<close>, \<open>file_commit/stream.rs\<close>,
    \<open>disk_commit.rs\<close>: the life of one written file and the task around it.
  \<^item> \<open>ReceiverSession\<close> with \<open>ReceiverProofs\<close>, \<open>ReceiverSafety\<close>, \<open>ReceiverOutcomes\<close>:
    \<open>crates/app/src/remote_receiver_session.rs\<close> and the validation of paths in
    \<open>receiver.rs\<close>. A run is a fold of \<open>rx_step\<close> over any sequence of inputs, so the
    theorems hold whatever the sender sends and in whatever order the acknowledgements come.
  \<^item> \<open>Inventory\<close>: \<open>crates/app/src/remote_inventory.rs\<close>.
  \<^item> \<open>SenderSession\<close> with \<open>SenderProofs\<close>:
    \<open>crates/app/src/remote_sync/remote_sender_session.rs\<close>; the two concurrent halves are one
    step relation over any interleaving of their inputs.
  \<^item> \<open>EndToEnd\<close>: sender, receiver session and disk-commit task composed.
  \<^item> \<open>ScanRows\<close>: \<open>crates/db/src/schema\<close>, \<open>scan/rows.rs\<close>, \<open>scan/candidate_cache.rs\<close>. The locale
    \<open>field_code\<close> states what makes the encoding of one field self-delimiting; it is
    interpreted for every field type.
  \<^item> \<open>ScanCompare\<close>: \<open>NativeScanAccess::compare\<close> of \<open>crates/db/src/scan/compare.rs\<close>; the answers
    of the database are functions, one record per read, so a read may see less than a later
    one.
  \<^item> \<open>FinalEvents\<close> with \<open>FinalProofs\<close> and \<open>FinalCrash\<close>: \<open>final_events\<close> and
    \<open>resolve_final_events\<close> of \<open>compare.rs\<close>, \<open>ScanFinalEvent\<close> of \<open>scan/mod.rs\<close>,
    \<open>finalize_events\<close> of \<open>crates/app/src/scan_resume.rs\<close> and the writes of
    \<open>scan/cluster\<close>. The tables are lists of the rows a query sees after deduplication.
  \<^item> \<open>ScanStore\<close>: the manifest and snapshots of \<open>crates/db/src/scan/model.rs\<close>, \<open>checkpoint.rs\<close> and
    the cluster layout; \<open>ScanPipeline\<close>: \<open>crates/app/src/scan_resume/pipeline.rs\<close>, \<open>workers.rs\<close>,
    \<open>scan/progress.rs\<close>, \<open>scan/statistics.rs\<close>; \<open>ScanRun\<close>: \<open>run_persisted\<close> of
    \<open>crates/app/src/scan_resume.rs\<close>. They are programs over a state and a script of verdicts.
  \<^item> \<open>ScanFrames\<close> (what each program leaves alone), \<open>ScanTriples\<close> (the invariant \<open>store_ok\<close> and
    triples for success and error), \<open>ScanAtomic\<close> (whole executions and sequences of them),
    \<open>ScanLedger\<close> and \<open>ScanOnce\<close> (the rows a full scan has stored).
  \<^item> \<open>License\<close> with \<open>LicenseProofs\<close>: \<open>crates/licensing/src\<close>; the cryptography, JSON and the files
    are the records \<open>crypto\<close> and \<open>license_env\<close>.
  \<^item> \<open>Outbox\<close> with \<open>OutboxProofs\<close>: \<open>crates/app/src/consumer/stats/diagnostics.rs\<close>; texts are lists
    of Unicode scalar values, the hash of identifiers is a parameter.
  \<^item> \<open>WebStore\<close>: \<open>crates/web/src/domain\<close> and the tables of \<open>migrations/001_init.sql\<close>;
    \<open>CallbackReceipt\<close>: \<open>infrastructure/callback_receipt.rs\<close>; \<open>CallbackLink\<close>: \<open>post_callback\<close> of
    \<open>consumer/stats/consumer.rs\<close> and \<open>callback_state.rs\<close>, with the receiver at the other end of
    a connection that loses and repeats messages, and restarts of the scan.
  \<^item> \<open>WebTasks\<close> with \<open>WebTasksProofs\<close> and \<open>WebScope\<close>: \<open>application/task_service.rs\<close>, the deletion of
    \<open>application/endpoint_service.rs\<close>, \<open>infrastructure/task_runner.rs\<close>, \<open>task_repo.rs\<close>,
    \<open>execution_repo.rs\<close> and the recovery of \<open>db.rs\<close>. Requests and workers are processes that
    interleave between their await points.
\<close>

subsection \<open>Conventions\<close>

text \<open>
  Machine integers are words of their width where the code can wrap, saturate or check, and
  naturals where the comment of the definition says why they cannot overflow. Fallible code
  returns a sum with the error on the left, a panic is \<open>None\<close> or an error of its own. Loops
  are recursive functions proved terminating (\<open>sparse_key_group_end\<close>, \<open>chunks\<close>, the matcher's
  scan); no definition takes fuel. What an interrupted run may have done is given by a budget
  of database changes: \<open>finalize_events\<close> with more than \<open>2 * (n + 1)\<close> changes for \<open>n\<close>
  missing events completes (\<open>finalize_loop_completes\<close>). In the scan store every statement takes a
  verdict from a script (acknowledged, or failed with or without effect), so a theorem for all
  scripts covers every crash; a transient failure is tried again up to a number of restarts
  that stands for the recovery window, and random identifiers come from a finite supply
  without repetitions. Where requests interleave, a choice per step says what the service does
  not control. Witnesses use the small instances named \<open>toy_\<dots>\<close> and \<open>demo_\<dots>\<close>.
\<close>

subsection \<open>What the theorems show\<close>

text \<open>
  The delta engine rebuilds the source from any basis, for any chunking, and so does the
  composition of both sessions and the disk-commit task; a success outcome is only reported
  for bytes of the announced size and digest. Byte credit is conserved, and exactly the
  costs that always get through are characterised. A receiver deletes nothing a page lists
  and nothing outside the listed directory, opens no file under an unsafe path, acknowledges
  an index at most once and ends only when everything is settled. An interrupted large file
  never skips bytes that were not committed. A comparison that first saw an incomplete answer
  announces the same events as one that saw everything; the final events of a round account
  for every old row and every candidate; and interrupted finalisations together leave what an
  uninterrupted one would.

  Whatever executions of a scan job were cut short wherever, the published facts change only by
  committing a generation, and a completed first scan has stored every entry of its source
  exactly once. A licence check accepts exactly the valid licences, its clock never runs back
  and the machines stay within the limit; the sentinel it writes is never found. Diagnostics
  reach the tables exactly once however often requests and answers are lost or repeated, are
  redacted and bounded, and no late report replaces a newer one. A task of the web application
  has at most one worker; its row tells the truth unless the worker was lost, and then the task
  is stuck until a restart; a change of its scope never mixes the rows of two scans.
\<close>

subsection \<open>Not modelled\<close>

text \<open>
  Storage engines, QUIC streams and their framing, ClickHouse and SQLite statements beyond
  the rows they select, the command line, HTTP routing, logging, configuration files: input and
  output whose behaviour is that of the libraries called. The drivers of a copy
  (\<open>orchestrator.rs\<close>, \<open>remote_sync.rs\<close>, \<open>sync.rs\<close>) mainly set up storage clients, channels and
  tasks around the sessions modelled here. Left out for their size are the expert transfers, the
  counters of the statistics, access control entries, the integrity check, archives and removal;
  and of the scan store the layout of a single server.
\<close>

end
